(* ===== verification/Mudmux_Prelude.thy ===== *)
theory Mudmux_Prelude
  imports Main "HOL-Library.Word" "HOL-Library.Sublist"
begin

text \<open>
  Shared vocabulary of the development: the machine types of the C++ sources, the flag-word
  operations that the communication layer uses for its per-slot state, and generic lemmas on lists
  and words. The collections declared here are filled by the component theories:
  \<^item> \<open>flag_defs\<close>: definitions of the flag constants, so that \<open>simp add: flag_defs\<close> decides every
    question about two constants by computing on numerals;
  \<^item> \<open>mux_simps\<close>: equations for the operations of a component that its clients rewrite with.
\<close>

named_theorems flag_defs
named_theorems mux_simps

unbundle bit_operations_syntax

section \<open>Machine types\<close>

type_synonym byte = "8 word"
type_synonym u32 = "32 word"
type_synonym u64 = "64 word"

text \<open>String literals of the sources, as the bytes they denote.\<close>

definition bytes_of :: "string \<Rightarrow> byte list" where
  "bytes_of s = map of_char s"

lemma bytes_of_simps [simp]:
  "bytes_of [] = []"
  "bytes_of (c # cs) = of_char c # bytes_of cs"
  by (simp_all add: bytes_of_def)

lemma bytes_of_append [simp]: "bytes_of (s @ t) = bytes_of s @ bytes_of t"
  by (simp add: bytes_of_def)

lemma length_bytes_of [simp]: "length (bytes_of s) = length s"
  by (simp add: bytes_of_def)

section \<open>Flag words\<close>

text \<open>
  The idioms \<^verbatim>\<open>flags & m\<close>, \<^verbatim>\<open>flags |= m\<close> and \<^verbatim>\<open>flags &= ~m\<close> of the sources. They are kept
  folded: the rules below push \<open>has_flag\<close> through updates, and the side conditions on constants
  are closed by \<open>flag_defs\<close>.
\<close>

definition has_flag :: "u32 \<Rightarrow> u32 \<Rightarrow> bool" where
  "has_flag f m \<longleftrightarrow> f AND m \<noteq> 0"

definition set_flag :: "u32 \<Rightarrow> u32 \<Rightarrow> u32" where
  "set_flag f m = f OR m"

definition clear_flag :: "u32 \<Rightarrow> u32 \<Rightarrow> u32" where
  "clear_flag f m = f AND NOT m"

lemma word_and_or_zero_iff: "(a OR b :: u32) = 0 \<longleftrightarrow> a = 0 \<and> b = 0"
  by (auto simp: bit_eq_iff bit_or_iff)

lemma has_flag_set_flag [simp]:
  "has_flag (set_flag f m) k \<longleftrightarrow> has_flag f k \<or> has_flag m k"
  by (simp add: has_flag_def set_flag_def and.commute [of _ k] bit.conj_disj_distrib
      word_and_or_zero_iff)

lemma has_flag_zero [simp]: "\<not> has_flag 0 k"
  by (simp add: has_flag_def)

lemma has_flag_clear_other [simp]:
  "m AND k = 0 \<Longrightarrow> has_flag (clear_flag f m) k \<longleftrightarrow> has_flag f k"
proof -
  assume "m AND k = 0"
  then have "(f AND NOT m) AND k = f AND k"
    by (auto simp: bit_eq_iff bit_and_iff bit_not_iff)
  then show ?thesis by (simp add: has_flag_def clear_flag_def)
qed

lemma has_flag_clear_same [simp]: "\<not> has_flag (clear_flag f m) m"
  by (simp add: has_flag_def clear_flag_def and.assoc)

lemma clear_flag_imp: "has_flag (clear_flag f m) k \<Longrightarrow> has_flag f k"
proof (rule ccontr)
  assume a: "has_flag (clear_flag f m) k" and "\<not> has_flag f k"
  then have "f AND k = 0" by (simp add: has_flag_def)
  then have "(f AND NOT m) AND k = 0"
    by (auto simp: bit_eq_iff bit_and_iff)
  with a show False by (simp add: has_flag_def clear_flag_def)
qed

lemma set_flag_and_other: "m AND k = 0 \<Longrightarrow> set_flag f m AND k = f AND k"
  by (auto simp: set_flag_def bit_eq_iff bit_and_iff bit_or_iff)

lemma clear_flag_and_other: "m AND k = 0 \<Longrightarrow> clear_flag f m AND k = f AND k"
  by (auto simp: clear_flag_def bit_eq_iff bit_and_iff bit_not_iff)

section \<open>Lists\<close>

lemma take_drop_middle: "take n (xs @ ys) = take n xs @ take (n - length xs) ys"
  by simp

lemma nth_drop_Cons: "i < length xs \<Longrightarrow> drop i xs = xs ! i # drop (Suc i) xs"
  by (simp add: Cons_nth_drop_Suc)

lemma map_upt_Suc_shift: "map f [Suc m..<Suc n] = map (\<lambda>i. f (Suc i)) [m..<n]"
proof -
  have "[Suc m..<Suc n] = map Suc [m..<n]" by (simp add: map_Suc_upt)
  then show ?thesis by (simp only: list.map_comp comp_def)
qed

text \<open>Histories: what has happened is a subsequence of what was admitted.\<close>

lemma subseq_drop_middle: "subseq (xs @ ys @ zs) ws \<Longrightarrow> subseq (xs @ zs) ws"
  by (meson list_emb_append_mono subseq_order.order_refl subseq_order.order_trans suffixI
      suffix_imp_subseq)

lemma subseq_drop_end: "subseq (xs @ ys) ws \<Longrightarrow> subseq xs ws"
  using subseq_drop_middle [of xs ys "[]" ws] by simp

text \<open>The idiom \<^verbatim>\<open>if (p) f(p)\<close> on a nullable pointer, as the list of its effects.\<close>

definition opt_list :: "('a \<Rightarrow> 'b) \<Rightarrow> 'a option \<Rightarrow> 'b list" where
  "opt_list f x = (case x of Some a \<Rightarrow> [f a] | None \<Rightarrow> [])"

lemma opt_list_simps [simp]:
  "opt_list f None = []"
  "opt_list f (Some a) = [f a]"
  by (simp_all add: opt_list_def)

lemma set_opt_list [simp]: "set (opt_list f x) = f ` set_option x"
  by (cases x) simp_all

lemma distinct_opt_list [simp]: "distinct (opt_list f x)"
  by (cases x) simp_all

section \<open>Invariants of transition systems\<close>

text \<open>
  The scheduler, the worker pool and the event loop are transition systems: an initial-state
  predicate and a step relation. A component that has one instantiates this interface with its
  inductive invariant and gets the invariant for every reachable state.
\<close>

inductive reachable :: "('s \<Rightarrow> bool) \<Rightarrow> ('s \<Rightarrow> 's \<Rightarrow> bool) \<Rightarrow> 's \<Rightarrow> bool"
  for ini :: "'s \<Rightarrow> bool" and stp :: "'s \<Rightarrow> 's \<Rightarrow> bool" where
  reachable_init: "ini s \<Longrightarrow> reachable ini stp s"
| reachable_step: "reachable ini stp s \<Longrightarrow> stp s t \<Longrightarrow> reachable ini stp t"

locale inductive_invariant =
  fixes ini :: "'s \<Rightarrow> bool"
    and stp :: "'s \<Rightarrow> 's \<Rightarrow> bool"
    and inv :: "'s \<Rightarrow> bool"
  assumes inv_init: "ini s \<Longrightarrow> inv s"
    and inv_step: "inv s \<Longrightarrow> stp s t \<Longrightarrow> inv t"
begin

lemma reachable_inv: "reachable ini stp s \<Longrightarrow> inv s"
  by (induction rule: reachable.induct) (auto intro: inv_init inv_step)

end

section \<open>Functional refinement\<close>

text \<open>
  Running a sequence of operations, each of which returns an observable result. A component whose
  detailed state implements an abstract one instantiates \<open>functional_refinement\<close> with its
  abstraction function: then whole runs give the same observations.
\<close>

fun run_ops :: "('s \<Rightarrow> 'o \<Rightarrow> 'r \<times> 's) \<Rightarrow> 's \<Rightarrow> 'o list \<Rightarrow> 'r list \<times> 's" where
  "run_ops stp s [] = ([], s)"
| "run_ops stp s (x # xs) =
     (let (r, s') = stp s x; (rs, s'') = run_ops stp s' xs in (r # rs, s''))"

locale functional_refinement =
  fixes cstep :: "'s \<Rightarrow> 'o \<Rightarrow> 'r \<times> 's"
    and astep :: "'a \<Rightarrow> 'o \<Rightarrow> 'r \<times> 'a"
    and abst :: "'s \<Rightarrow> 'a"
    and invar :: "'s \<Rightarrow> bool"
  assumes step_refines: "invar s \<Longrightarrow> astep (abst s) x = map_prod id abst (cstep s x)"
    and step_invar: "invar s \<Longrightarrow> invar (snd (cstep s x))"
begin

lemma run_refines:
  "invar s \<Longrightarrow>
     run_ops astep (abst s) xs = map_prod id abst (run_ops cstep s xs) \<and>
     invar (snd (run_ops cstep s xs))"
proof (induction xs arbitrary: s)
  case (Cons x xs)
  obtain r s' where st: "cstep s x = (r, s')" by (cases "cstep s x")
  have "invar s'" using step_invar [OF Cons.prems, of x] st by simp
  from Cons.IH [OF this] show ?case
    using step_refines [OF Cons.prems, of x] st by (simp add: split_beta)
qed simp

end

section \<open>Stream decoders\<close>

text \<open>
  A transport delivers a byte stream in pieces of arbitrary size. A decoder consumes one piece at a
  time and emits decoded items; \<open>feed_all\<close> runs it over the pieces. A component whose decoder obeys
  the laws of \<open>stream_decoder\<close> decodes the stream independently of the pieces.
\<close>

fun feed_all :: "('s \<Rightarrow> 'b list \<Rightarrow> 'm list \<times> 's) \<Rightarrow> 's \<Rightarrow> 'b list list \<Rightarrow> 'm list \<times> 's" where
  "feed_all feed s [] = ([], s)"
| "feed_all feed s (c # cs) =
     (let (m, s1) = feed s c; (n, s2) = feed_all feed s1 cs in (m @ n, s2))"

locale stream_decoder =
  fixes feed :: "'s \<Rightarrow> 'b list \<Rightarrow> 'm list \<times> 's"
    and ok :: "'s \<Rightarrow> bool"
  assumes feed_nil: "ok s \<Longrightarrow> feed s [] = ([], s)"
    and feed_append: "ok s \<Longrightarrow> feed s (xs @ ys) =
      (let (m, s1) = feed s xs; (n, s2) = feed s1 ys in (m @ n, s2))"
    and feed_ok: "ok s \<Longrightarrow> ok (snd (feed s xs))"
begin

lemma feed_all_concat: "ok s \<Longrightarrow> feed_all feed s cs = feed s (concat cs)"
proof (induction cs arbitrary: s)
  case Nil
  then show ?case by (simp add: feed_nil)
next
  case (Cons c cs)
  have "feed_all feed (snd (feed s c)) cs = feed (snd (feed s c)) (concat cs)"
    using Cons.IH [OF feed_ok [OF Cons.prems]] .
  then show ?case using feed_append [OF Cons.prems, of c "concat cs"] by (simp add: split_beta)
qed

lemma chunking_irrelevant:
  "ok s \<Longrightarrow> concat cs = concat ds \<Longrightarrow> feed_all feed s cs = feed_all feed s ds"
  by (simp add: feed_all_concat)

end

end
