(* ===== verification/Async_Queue.thy ===== *)
theory Async_Queue
  imports Mudmux_Prelude
begin

text \<open>
  The message queue of \<^verbatim>\<open>lib/async/async_queue.cpp\<close>: a circular buffer of message slots between
  the reader threads (console worker, file reader, application producers) and the event loop.

  Each public call holds the queue's mutex for its whole duration (a blocked writer releases it while
  waiting and starts over), so a call is one atomic function on the queue record. A slot of the C
  buffer holds a length word and \<open>max_msg_size\<close> data bytes; only the first \<open>length\<close> bytes are ever
  read, so a slot is modelled by that byte list. The theory shows that the circular buffer
  implements a bounded FIFO of messages (interpretation \<open>queue_fifo\<close>), including the drop-oldest policy
  and the statistics counters, and gives its readers the contract of the locale \<open>message_source\<close>.
\<close>

section \<open>State\<close>

definition ASYNC_QUEUE_DROP_OLDEST :: u32 where [flag_defs]: "ASYNC_QUEUE_DROP_OLDEST = 1"
definition ASYNC_QUEUE_BLOCK_WRITER :: u32 where [flag_defs]: "ASYNC_QUEUE_BLOCK_WRITER = 2"

record async_queue =
  q_buffer :: "byte list list"
  q_capacity :: nat
  q_max_msg_size :: nat
  q_msg_slot_size :: nat
  q_head :: nat
  q_tail :: nat
  q_count :: nat
  q_flags :: u32
  q_enqueue_count :: u64
  q_dequeue_count :: u64
  q_dropped_count :: u64

record async_queue_stats =
  st_capacity :: nat
  st_current_size :: nat
  st_max_msg_size :: nat
  st_enqueue_count :: u64
  st_dequeue_count :: u64
  st_dropped_count :: u64

text \<open>
  Outcome of an enqueue: the C++ function returns true, returns false, or is waiting on the
  condition variable \<^verbatim>\<open>not_full\<close> with the queue unchanged.
\<close>

datatype enqueue_outcome = Enqueued | Rejected | Waiting

section \<open>Operations\<close>

text \<open>
  \<open>alloc_ok\<close> says whether the allocations of the constructor succeed for the given slot count and
  slot size. \<open>sizeof(size_t)\<close> is 8.
\<close>

definition async_queue_create ::
  "(nat \<Rightarrow> nat \<Rightarrow> bool) \<Rightarrow> nat \<Rightarrow> nat \<Rightarrow> u32 \<Rightarrow> async_queue option" where
  "async_queue_create alloc_ok capacity max_msg_size flags =
     (if capacity = 0 \<or> max_msg_size = 0 then None
      else let slot_size = 8 + max_msg_size in
      if \<not> alloc_ok capacity slot_size then None
      else Some \<lparr>q_buffer = replicate capacity [], q_capacity = capacity,
                 q_max_msg_size = max_msg_size, q_msg_slot_size = slot_size,
                 q_head = 0, q_tail = 0, q_count = 0, q_flags = flags,
                 q_enqueue_count = 0, q_dequeue_count = 0, q_dropped_count = 0\<rparr>)"

text \<open>
  The loop at the head of \<^verbatim>\<open>async_queue_enqueue\<close>. The test \<open>0 < q_count q\<close> only serves
  totality: a queue returned by \<open>async_queue_create\<close> has a positive capacity, so a full queue is
  not empty.
\<close>

function enqueue_make_room :: "async_queue \<Rightarrow> enqueue_outcome \<times> async_queue" where
  "enqueue_make_room q =
     (if q_count q < q_capacity q then (Enqueued, q)
      else if has_flag (q_flags q) ASYNC_QUEUE_DROP_OLDEST \<and> 0 < q_count q then
        enqueue_make_room
          (q\<lparr>q_tail := (q_tail q + 1) mod q_capacity q,
             q_count := q_count q - 1,
             q_dropped_count := q_dropped_count q + 1\<rparr>)
      else if has_flag (q_flags q) ASYNC_QUEUE_BLOCK_WRITER then (Waiting, q)
      else (Rejected, q))"
  by pat_completeness auto
termination
  by (relation "measure q_count") auto

declare enqueue_make_room.simps [simp del]

definition enqueue_store :: "async_queue \<Rightarrow> byte list \<Rightarrow> async_queue" where
  "enqueue_store q data =
     q\<lparr>q_buffer := (q_buffer q)[q_head q := data],
       q_head := (q_head q + 1) mod q_capacity q,
       q_count := q_count q + 1,
       q_enqueue_count := q_enqueue_count q + 1\<rparr>"

definition async_queue_enqueue ::
  "async_queue \<Rightarrow> byte list option \<Rightarrow> enqueue_outcome \<times> async_queue" where
  "async_queue_enqueue q msg =
     (case msg of
        None \<Rightarrow> (Rejected, q)
      | Some data \<Rightarrow>
          if length data = 0 \<or> length data > q_max_msg_size q then (Rejected, q)
          else (case enqueue_make_room q of
                  (Enqueued, q') \<Rightarrow> (Enqueued, enqueue_store q' data)
                | (oc, q') \<Rightarrow> (oc, q')))"

text \<open>The result is the message copied out, or \<open>None\<close> where the C++ function returns false.\<close>

definition async_queue_dequeue :: "async_queue \<Rightarrow> nat \<Rightarrow> byte list option \<times> async_queue" where
  "async_queue_dequeue q buffer_size =
     (if q_count q = 0 then (None, q)
      else let msg = q_buffer q ! q_tail q in
      if length msg > buffer_size then (None, q)
      else (Some msg,
            q\<lparr>q_tail := (q_tail q + 1) mod q_capacity q,
              q_count := q_count q - 1,
              q_dequeue_count := q_dequeue_count q + 1\<rparr>))"

definition async_queue_is_empty :: "async_queue option \<Rightarrow> bool" where
  "async_queue_is_empty qp = (case qp of None \<Rightarrow> True | Some q \<Rightarrow> q_count q = 0)"

definition async_queue_is_full :: "async_queue option \<Rightarrow> bool" where
  "async_queue_is_full qp = (case qp of None \<Rightarrow> False | Some q \<Rightarrow> q_count q \<ge> q_capacity q)"

definition async_queue_clear :: "async_queue \<Rightarrow> async_queue" where
  "async_queue_clear q = q\<lparr>q_head := 0, q_tail := 0, q_count := 0\<rparr>"

definition async_queue_get_stats :: "async_queue \<Rightarrow> async_queue_stats" where
  "async_queue_get_stats q =
     \<lparr>st_capacity = q_capacity q, st_current_size = q_count q,
      st_max_msg_size = q_max_msg_size q, st_enqueue_count = q_enqueue_count q,
      st_dequeue_count = q_dequeue_count q, st_dropped_count = q_dropped_count q\<rparr>"

section \<open>Abstraction and invariant\<close>

text \<open>The queued messages, oldest first.\<close>

definition queue_contents :: "async_queue \<Rightarrow> byte list list" where
  "queue_contents q =
     map (\<lambda>i. q_buffer q ! ((q_tail q + i) mod q_capacity q)) [0..<q_count q]"

definition queue_inv :: "async_queue \<Rightarrow> bool" where
  "queue_inv q \<longleftrightarrow>
     0 < q_capacity q \<and> 0 < q_max_msg_size q \<and>
     length (q_buffer q) = q_capacity q \<and>
     q_tail q < q_capacity q \<and> q_count q \<le> q_capacity q \<and>
     q_head q = (q_tail q + q_count q) mod q_capacity q \<and>
     (\<forall>m \<in> set (queue_contents q). 0 < length m \<and> length m \<le> q_max_msg_size q)"

text \<open>Accounting: every accepted message was taken, dropped, or is still queued (modulo 2^64).\<close>

definition queue_accounted :: "async_queue \<Rightarrow> bool" where
  "queue_accounted q \<longleftrightarrow>
     q_enqueue_count q = q_dequeue_count q + q_dropped_count q + of_nat (q_count q)"

lemma length_queue_contents [simp]: "length (queue_contents q) = q_count q"
  by (simp add: queue_contents_def)

lemma queue_contents_empty_iff [simp]: "queue_contents q = [] \<longleftrightarrow> q_count q = 0"
  by (simp add: queue_contents_def)

lemma queue_invD:
  assumes "queue_inv q"
  shows "0 < q_capacity q" "length (q_buffer q) = q_capacity q" "q_tail q < q_capacity q"
    "q_count q \<le> q_capacity q" "q_head q = (q_tail q + q_count q) mod q_capacity q"
    "0 < q_max_msg_size q"
  using assms by (auto simp: queue_inv_def)

text \<open>Removing the oldest message, as both dequeue and drop-oldest do.\<close>

lemma queue_contents_pop:
  assumes cap: "0 < q_capacity q" and n: "0 < q_count q" and tail: "q_tail q < q_capacity q"
    and buf: "q_buffer q' = q_buffer q" and c: "q_capacity q' = q_capacity q"
    and t: "q_tail q' = (q_tail q + 1) mod q_capacity q" and k: "q_count q' = q_count q - 1"
  shows "queue_contents q = q_buffer q ! q_tail q # queue_contents q'"
proof -
  obtain m where m: "q_count q = Suc m" using n by (cases "q_count q") auto
  have "queue_contents q =
      q_buffer q ! (q_tail q mod q_capacity q) #
      map (\<lambda>i. q_buffer q ! ((q_tail q + Suc i) mod q_capacity q)) [0..<m]"
    unfolding queue_contents_def m upt_conv_Cons [OF zero_less_Suc]
    by (simp add: map_upt_Suc_shift del: upt_Suc)
  also have "map (\<lambda>i. q_buffer q ! ((q_tail q + Suc i) mod q_capacity q)) [0..<m]
      = queue_contents q'"
    unfolding queue_contents_def buf c t k m by (simp add: mod_add_left_eq)
  finally show ?thesis using tail by simp
qed

lemma mod_add_neq:
  fixes t :: nat
  assumes "i < k" "k < c"
  shows "(t + i) mod c \<noteq> (t + k) mod c"
proof
  assume eq: "(t + i) mod c = (t + k) mod c"
  obtain d where k: "k = i + d" and d: "0 < d" "d < c"
    using assms by (metis less_imp_add_positive less_add_same_cancel1 not_add_less2
        order_less_trans linorder_neqE_nat)
  define x where "x = (t + i) mod c"
  have "(t + k) mod c = (x + d) mod c"
    by (simp add: k x_def mod_add_left_eq add.assoc)
  then have x: "x = (x + d) mod c" "x < c"
    using eq assms by (auto simp: x_def)
  show False
  proof (cases "x + d < c")
    case True with x(1) d show ?thesis by simp
  next
    case False
    then have "(x + d) mod c = x + d - c" using x(2) d by (simp add: mod_if)
    with x d False show ?thesis by simp
  qed
qed

lemma queue_contents_store:
  assumes inv: "queue_inv q" and room: "q_count q < q_capacity q"
  shows "queue_contents (enqueue_store q data) = queue_contents q @ [data]"
proof -
  let ?c = "q_capacity q"
  have head: "q_head q = (q_tail q + q_count q) mod ?c" "q_head q < length (q_buffer q)"
    using queue_invD [OF inv] by simp_all
  have old: "(q_buffer q)[q_head q := data] ! ((q_tail q + i) mod ?c)
      = q_buffer q ! ((q_tail q + i) mod ?c)" if "i < q_count q" for i
    using mod_add_neq [OF that room, of "q_tail q"] head(1) by simp
  show ?thesis
    using head old by (simp add: queue_contents_def enqueue_store_def)
qed

section \<open>Preservation\<close>

lemma queue_inv_pop:
  assumes inv: "queue_inv q" and n: "0 < q_count q"
    and q': "q' = q\<lparr>q_tail := (q_tail q + 1) mod q_capacity q, q_count := q_count q - 1,
                     q_dequeue_count := d, q_dropped_count := e\<rparr>"
  shows "queue_inv q'" and "queue_contents q = q_buffer q ! q_tail q # queue_contents q'"
proof -
  show eq: "queue_contents q = q_buffer q ! q_tail q # queue_contents q'"
    by (rule queue_contents_pop) (use queue_invD [OF inv] n q' in simp_all)
  obtain m where m: "q_count q = Suc m" using n by (cases "q_count q") auto
  have "(q_tail q + q_count q) mod q_capacity q
      = ((q_tail q + 1) mod q_capacity q + (q_count q - 1)) mod q_capacity q"
    by (simp add: m mod_add_left_eq)
  moreover have "\<forall>m \<in> set (queue_contents q'). 0 < length m \<and> length m \<le> q_max_msg_size q"
    using inv eq by (simp add: queue_inv_def)
  moreover have "q_count q - 1 \<le> q_capacity q" using queue_invD(4) [OF inv] by linarith
  ultimately show "queue_inv q'"
    using inv q' by (simp add: queue_inv_def)
qed

lemma queue_inv_store:
  assumes inv: "queue_inv q" and room: "q_count q < q_capacity q"
    and len: "0 < length data" "length data \<le> q_max_msg_size q"
  shows "queue_inv (enqueue_store q data)"
proof -
  have cont: "queue_contents (enqueue_store q data) = queue_contents q @ [data]"
    using inv room by (rule queue_contents_store)
  have "(q_head q + 1) mod q_capacity q = (q_tail q + (q_count q + 1)) mod q_capacity q"
    using queue_invD(5) [OF inv] by (simp add: mod_Suc_eq)
  then show ?thesis
    using queue_invD [OF inv] room len cont inv [unfolded queue_inv_def]
    unfolding queue_inv_def by (auto simp: enqueue_store_def)
qed

text \<open>
  Making room on a valid queue: nothing to do below capacity; on a full queue exactly one message,
  the oldest, is dropped when the policy is drop-oldest, and otherwise the queue is unchanged.
\<close>

lemma make_room_not_full:
  "q_count q < q_capacity q \<Longrightarrow> enqueue_make_room q = (Enqueued, q)"
  by (simp add: enqueue_make_room.simps)

lemma make_room_full:
  assumes inv: "queue_inv q" and full: "q_count q = q_capacity q"
  shows "enqueue_make_room q =
     (if has_flag (q_flags q) ASYNC_QUEUE_DROP_OLDEST then
        (Enqueued, q\<lparr>q_tail := (q_tail q + 1) mod q_capacity q, q_count := q_count q - 1,
                      q_dropped_count := q_dropped_count q + 1\<rparr>)
      else if has_flag (q_flags q) ASYNC_QUEUE_BLOCK_WRITER then (Waiting, q)
      else (Rejected, q))"
  using full queue_invD(1) [OF inv]
  by (subst enqueue_make_room.simps) (simp add: enqueue_make_room.simps)

lemma make_room_inv:
  assumes inv: "queue_inv q" and room: "enqueue_make_room q = (oc, q')"
  shows "queue_inv q'" and "oc = Enqueued \<Longrightarrow> q_count q' < q_capacity q'"
    and "q_max_msg_size q' = q_max_msg_size q" and "q_capacity q' = q_capacity q"
proof -
  have cap: "0 < q_capacity q" "q_count q \<le> q_capacity q" using queue_invD [OF inv] by auto
  show "queue_inv q'"
  proof (cases "q_count q < q_capacity q")
    case False
    with cap have full: "q_count q = q_capacity q" and pos: "0 < q_count q" by auto
    have "queue_inv (q\<lparr>q_tail := (q_tail q + 1) mod q_capacity q, q_count := q_count q - 1,
        q_dropped_count := q_dropped_count q + 1\<rparr>)"
      using queue_inv_pop(1) [OF inv pos refl, where d = "q_dequeue_count q"] by simp
    then show ?thesis using room inv make_room_full [OF inv full] by (auto split: if_splits)
  qed (use room inv in \<open>auto simp: make_room_not_full\<close>)
  show "oc = Enqueued \<Longrightarrow> q_count q' < q_capacity q'"
    and "q_max_msg_size q' = q_max_msg_size q" and "q_capacity q' = q_capacity q"
    using room cap make_room_full [OF inv]
    by (cases "q_count q < q_capacity q"; force simp: make_room_not_full split: if_splits)+
qed

section \<open>The abstract bounded FIFO\<close>

text \<open>
  What the queue promises: a list of messages with a capacity and a full-queue policy. The policy
  bits are tested in the order the code tests them.
\<close>

record fifo =
  f_capacity :: nat
  f_max_msg_size :: nat
  f_flags :: u32
  f_msgs :: "byte list list"

datatype queue_op = Enqueue "byte list option" | Dequeue nat | Clear

datatype queue_obs = Obs_enqueue enqueue_outcome | Obs_dequeue "byte list option" | Obs_clear

definition fifo_enqueue :: "fifo \<Rightarrow> byte list \<Rightarrow> enqueue_outcome \<times> fifo" where
  "fifo_enqueue f data =
     (if length data = 0 \<or> length data > f_max_msg_size f then (Rejected, f)
      else if length (f_msgs f) < f_capacity f then
        (Enqueued, f\<lparr>f_msgs := f_msgs f @ [data]\<rparr>)
      else if has_flag (f_flags f) ASYNC_QUEUE_DROP_OLDEST then
        (Enqueued, f\<lparr>f_msgs := tl (f_msgs f) @ [data]\<rparr>)
      else if has_flag (f_flags f) ASYNC_QUEUE_BLOCK_WRITER then (Waiting, f)
      else (Rejected, f))"

fun fifo_step :: "fifo \<Rightarrow> queue_op \<Rightarrow> queue_obs \<times> fifo" where
  "fifo_step f (Enqueue None) = (Obs_enqueue Rejected, f)"
| "fifo_step f (Enqueue (Some data)) = map_prod Obs_enqueue id (fifo_enqueue f data)"
| "fifo_step f (Dequeue n) =
     (case f_msgs f of
        [] \<Rightarrow> (Obs_dequeue None, f)
      | m # ms \<Rightarrow> if length m > n then (Obs_dequeue None, f)
                   else (Obs_dequeue (Some m), f\<lparr>f_msgs := ms\<rparr>))"
| "fifo_step f Clear = (Obs_clear, f\<lparr>f_msgs := []\<rparr>)"

fun queue_step :: "async_queue \<Rightarrow> queue_op \<Rightarrow> queue_obs \<times> async_queue" where
  "queue_step q (Enqueue d) = map_prod Obs_enqueue id (async_queue_enqueue q d)"
| "queue_step q (Dequeue n) = map_prod Obs_dequeue id (async_queue_dequeue q n)"
| "queue_step q Clear = (Obs_clear, async_queue_clear q)"

definition fifo_of :: "async_queue \<Rightarrow> fifo" where
  "fifo_of q = \<lparr>f_capacity = q_capacity q, f_max_msg_size = q_max_msg_size q,
                f_flags = q_flags q, f_msgs = queue_contents q\<rparr>"

lemma enqueue_store_fields [simp]:
  "q_capacity (enqueue_store q d) = q_capacity q"
  "q_max_msg_size (enqueue_store q d) = q_max_msg_size q"
  "q_flags (enqueue_store q d) = q_flags q"
  "q_count (enqueue_store q d) = Suc (q_count q)"
  by (simp_all add: enqueue_store_def)

lemma async_queue_enqueue_inv:
  "queue_inv q \<Longrightarrow> queue_inv (snd (async_queue_enqueue q d))"
  using make_room_inv [of q] queue_inv_store
  by (auto simp: async_queue_enqueue_def split: option.splits prod.splits enqueue_outcome.splits)

lemma async_queue_dequeue_inv:
  assumes "queue_inv q" shows "queue_inv (snd (async_queue_dequeue q n))"
  using assms queue_inv_pop(1) [OF assms _ refl, where e = "q_dropped_count q"]
  by (auto simp: async_queue_dequeue_def Let_def)

lemma async_queue_clear_inv:
  "queue_inv q \<Longrightarrow> queue_inv (async_queue_clear q)"
  by (auto simp: queue_inv_def async_queue_clear_def queue_contents_def)

lemma fifo_of_enqueue:
  assumes inv: "queue_inv q"
  shows "fifo_enqueue (fifo_of q) d = map_prod id fifo_of (async_queue_enqueue q (Some d))"
proof (cases "q_count q < q_capacity q")
  case True
  then show ?thesis
    using queue_contents_store [OF inv True, of d]
    by (simp add: fifo_enqueue_def async_queue_enqueue_def make_room_not_full fifo_of_def)
next
  case False
  with queue_invD [OF inv] have full: "q_count q = q_capacity q" and pos: "0 < q_count q" by auto
  let ?q' = "q\<lparr>q_tail := (q_tail q + 1) mod q_capacity q, q_count := q_count q - 1,
               q_dropped_count := q_dropped_count q + 1\<rparr>"
  have eq: "?q' = q\<lparr>q_tail := (q_tail q + 1) mod q_capacity q, q_count := q_count q - 1,
      q_dequeue_count := q_dequeue_count q, q_dropped_count := q_dropped_count q + 1\<rparr>" by simp
  note pop = queue_inv_pop [OF inv pos eq]
  have "queue_contents (enqueue_store ?q' d) = tl (queue_contents q) @ [d]"
    using queue_contents_store [OF pop(1), of d] pop(2) full pos by simp
  then show ?thesis
    using full
    by (auto simp: fifo_enqueue_def async_queue_enqueue_def make_room_full [OF inv full] fifo_of_def)
qed

lemma fifo_of_dequeue:
  assumes inv: "queue_inv q"
  shows "fifo_step (fifo_of q) (Dequeue n) = map_prod Obs_dequeue fifo_of (async_queue_dequeue q n)"
proof (cases "q_count q = 0")
  case True
  then show ?thesis by (simp add: async_queue_dequeue_def fifo_of_def queue_contents_def)
next
  case False
  then have pos: "0 < q_count q" by simp
  note pop = queue_inv_pop
    [OF inv pos refl, where d = "q_dequeue_count q + 1" and e = "q_dropped_count q"]
  show ?thesis using pop(2) False
    by (simp add: async_queue_dequeue_def fifo_of_def Let_def)
qed

lemma fifo_of_clear: "fifo_of (async_queue_clear q) = (fifo_of q)\<lparr>f_msgs := []\<rparr>"
  by (simp add: fifo_of_def async_queue_clear_def queue_contents_def)

interpretation queue_fifo: functional_refinement queue_step fifo_step fifo_of queue_inv
proof
  fix q x assume inv: "queue_inv q"
  show "fifo_step (fifo_of q) x = map_prod id fifo_of (queue_step q x)"
  proof (cases x)
    case (Enqueue d)
    then show ?thesis
      using fifo_of_enqueue [OF inv]
      by (cases d) (simp_all add: async_queue_enqueue_def map_prod_def split_beta)
  next
    case (Dequeue n)
    then show ?thesis
      using fifo_of_dequeue [OF inv, of n] by (simp add: map_prod_def split_beta)
  qed (simp add: fifo_of_clear)
  show "queue_inv (snd (queue_step q x))"
    using inv by (cases x)
      (auto simp: async_queue_enqueue_inv async_queue_dequeue_inv async_queue_clear_inv)
qed

section \<open>Draining clients\<close>

text \<open>
  The event loop empties a queue with \<^verbatim>\<open>while (async_queue_dequeue(...))\<close> (console and file input).
  The interface such a client relies on, and what its loop then returns: every queued message,
  oldest first, with the queue left empty.
\<close>

fun drain :: "nat \<Rightarrow> ('q \<Rightarrow> 'm option \<times> 'q) \<Rightarrow> 'q \<Rightarrow> 'm list \<times> 'q" where
  "drain 0 get q = ([], q)"
| "drain (Suc n) get q =
     (case get q of
        (None, q') \<Rightarrow> ([], q')
      | (Some m, q') \<Rightarrow> let (ms, q'') = drain n get q' in (m # ms, q''))"

locale message_source =
  fixes contents :: "'q \<Rightarrow> 'm list"
    and invar :: "'q \<Rightarrow> bool"
    and get :: "'q \<Rightarrow> 'm option \<times> 'q"
  assumes get_Nil: "invar q \<Longrightarrow> contents q = [] \<Longrightarrow> get q = (None, q)"
    and get_Cons: "invar q \<Longrightarrow> contents q = m # ms \<Longrightarrow>
      \<exists>q'. get q = (Some m, q') \<and> contents q' = ms \<and> invar q'"
begin

lemma drain_all:
  "invar q \<Longrightarrow> length (contents q) \<le> n \<Longrightarrow>
     fst (drain n get q) = contents q \<and> contents (snd (drain n get q)) = [] \<and>
     invar (snd (drain n get q))"
proof (induction n arbitrary: q)
  case (Suc n)
  show ?case
  proof (cases "contents q")
    case Nil
    with Suc.prems show ?thesis by (simp add: get_Nil)
  next
    case (Cons m ms)
    then obtain q' where "get q = (Some m, q')" "contents q' = ms" "invar q'"
      using get_Cons Suc.prems(1) by blast
    with Suc.IH [of q'] Suc.prems(2) Cons show ?thesis by (simp add: split_beta)
  qed
qed simp

end

interpretation queue_source: message_source queue_contents
  "\<lambda>q. queue_inv q \<and> q_max_msg_size q \<le> sz" "\<lambda>q. async_queue_dequeue q sz" for sz
proof
  fix q :: async_queue and m ms
  assume inv: "queue_inv q \<and> q_max_msg_size q \<le> sz"
  show "queue_contents q = [] \<Longrightarrow> async_queue_dequeue q sz = (None, q)"
    by (simp add: async_queue_dequeue_def)
  assume cont: "queue_contents q = m # ms"
  then have pos: "0 < q_count q" by (metis length_queue_contents length_greater_0_conv list.simps(3))
  note pop = queue_inv_pop [OF conjunct1 [OF inv] pos refl,
      where d = "q_dequeue_count q + 1" and e = "q_dropped_count q"]
  have "length m \<le> sz" using inv cont by (auto simp: queue_inv_def)
  then show "\<exists>q'. async_queue_dequeue q sz = (Some m, q') \<and> queue_contents q' = ms \<and>
      queue_inv q' \<and> q_max_msg_size q' \<le> sz"
    using pop cont inv pos by (simp add: async_queue_dequeue_def Let_def)
qed

section \<open>Accounting\<close>

lemma make_room_accounted:
  "queue_accounted q \<Longrightarrow> queue_accounted (snd (enqueue_make_room q))"
proof (induction q rule: enqueue_make_room.induct)
  case (1 q)
  show ?case
    using 1 by (subst enqueue_make_room.simps)
      (auto simp: queue_accounted_def of_nat_diff algebra_simps)
qed

lemma enqueue_accounted:
  "queue_accounted q \<Longrightarrow> queue_accounted (snd (async_queue_enqueue q d))"
  using make_room_accounted [of q]
  by (auto simp: async_queue_enqueue_def enqueue_store_def queue_accounted_def
      split: option.splits prod.splits enqueue_outcome.splits)

lemma dequeue_accounted:
  "queue_accounted q \<Longrightarrow> queue_accounted (snd (async_queue_dequeue q n))"
  by (auto simp: async_queue_dequeue_def Let_def queue_accounted_def of_nat_diff algebra_simps)

lemma create_inv:
  assumes "async_queue_create ok cap mx fl = Some q"
  shows "queue_inv q" and "queue_accounted q"
    and "fifo_of q = \<lparr>f_capacity = cap, f_max_msg_size = mx, f_flags = fl, f_msgs = []\<rparr>"
  using assms
  by (auto simp: async_queue_create_def queue_inv_def queue_accounted_def queue_contents_def
      fifo_of_def Let_def split: if_splits)

section \<open>Properties\<close>



text \<open>
  The statistics balance: after any sequence of enqueue and dequeue calls (clear resets the
  contents without touching the counters), the number of accepted messages equals those taken plus
  those dropped plus those still queued, in the counters' 64-bit arithmetic.
\<close>

theorem async_queue_stats_balance:
  assumes "async_queue_create ok cap mx fl = Some q" and "Clear \<notin> set ops"
    and "stats = async_queue_get_stats (snd (run_ops queue_step q ops))"
  shows "st_enqueue_count stats
    = st_dequeue_count stats + st_dropped_count stats + of_nat (st_current_size stats)"
proof -
  have "queue_accounted (snd (run_ops queue_step q ops))"
    if "queue_accounted q" "Clear \<notin> set ops" for q
    using that
  proof (induction ops arbitrary: q)
    case (Cons x xs)
    then have "queue_accounted (snd (queue_step q x))"
      by (cases x) (auto simp: enqueue_accounted dequeue_accounted)
    with Cons show ?case by (auto simp: split_beta)
  qed simp
  from this [OF create_inv(2) [OF assms(1)] assms(2)] show ?thesis
    by (simp add: assms(3) async_queue_get_stats_def queue_accounted_def)
qed

theorem async_queue_stats_balance_witness:
  "let stats = async_queue_get_stats (snd (run_ops queue_step
      (the (async_queue_create (\<lambda>_ _. True) 3 4 ASYNC_QUEUE_DROP_OLDEST))
      [Enqueue (Some [1]), Enqueue (Some [2])]))
   in st_enqueue_count stats
    = st_dequeue_count stats + st_dropped_count stats + of_nat (st_current_size stats)"
proof -
  obtain q where q: "async_queue_create (\<lambda>_ _. True) 3 4 ASYNC_QUEUE_DROP_OLDEST = Some q"
    by (simp add: async_queue_create_def Let_def)
  show ?thesis unfolding Let_def
    by (rule async_queue_stats_balance [OF q, of "[Enqueue (Some [1]), Enqueue (Some [2])]"])
      (simp_all add: q)
qed

text \<open>
  A drop-oldest queue accepts every well-sized message: the call never waits and never returns
  false, and a full queue loses exactly its oldest message. (The warnings of the console and file
  readers for a failed enqueue on such a queue can therefore never be logged for a full queue.)
\<close>

theorem drop_oldest_always_accepts:
  assumes "queue_inv q" and "has_flag (q_flags q) ASYNC_QUEUE_DROP_OLDEST"
    and "0 < length data" and "length data \<le> q_max_msg_size q"
  shows "fst (async_queue_enqueue q (Some data)) = Enqueued \<and>
    queue_contents (snd (async_queue_enqueue q (Some data))) =
      (if q_count q < q_capacity q then queue_contents q else tl (queue_contents q)) @ [data]"
proof -
  have "f_msgs (snd (fifo_enqueue (fifo_of q) data))
      = queue_contents (snd (async_queue_enqueue q (Some data)))"
    "fst (fifo_enqueue (fifo_of q) data) = fst (async_queue_enqueue q (Some data))"
    using fifo_of_enqueue [OF assms(1), of data] by (simp_all add: fifo_of_def)
  then show ?thesis
    using assms by (auto simp: fifo_enqueue_def fifo_of_def)
qed

theorem drop_oldest_always_accepts_witness:
  "let q = the (async_queue_create (\<lambda>_ _. True) 100 4096 ASYNC_QUEUE_DROP_OLDEST)
   in fst (async_queue_enqueue q (Some [65, 66])) = Enqueued"
proof -
  obtain q where q: "async_queue_create (\<lambda>_ _. True) 100 4096 ASYNC_QUEUE_DROP_OLDEST = Some q"
    by (simp add: async_queue_create_def Let_def)
  then have "q_flags q = ASYNC_QUEUE_DROP_OLDEST" "q_max_msg_size q = 4096"
    by (auto simp: async_queue_create_def Let_def)
  then show ?thesis
    using drop_oldest_always_accepts [OF create_inv(1) [OF q], of "[65, 66]"] q
    by (simp add: has_flag_def flag_defs)
qed

end
