(* ===== verification/Thread_Pool.thy ===== *)
theory Thread_Pool
  imports Mudmux_Prelude
begin

text \<open>
  The worker pool of \<^verbatim>\<open>lib/async/thread_pool.cpp\<close>. Every critical section of the class (the code
  between taking and releasing \<^verbatim>\<open>mutex_\<close>) is one atomic operation on the pool record, and the
  interleavings of the owner thread, the submitters and the workers are the step relation
  \<open>pool_step\<close>. The condition variable is explicit: a worker whose predicate fails is
  \<open>Blocked\<close> and runs again only after a notification, so lost wake-ups would show as stuck states.

  \<open>start\<close> and \<open>stop\<close> are called by one owner thread (\<^verbatim>\<open>src/mudmux.cpp\<close> calls them on the event loop
  thread); its position inside them is the \<open>owner_pc\<close>. The fields after \<open>tp_owner\<close> are history
  variables: they record accepted, started and discarded tasks and are read by no operation.
\<close>

section \<open>State\<close>

datatype 'a worker_pc = Checking | Blocked | Running 'a | Exited

datatype owner_pc = Idle | Start_Failed | Notifying "nat list" | Joining "nat list"

record 'a pool =
  tp_tasks :: "'a list"
  tp_workers :: "nat list"
  tp_stopping :: bool
  tp_threads :: "'a worker_pc list"
  tp_owner :: owner_pc
  tp_accepted :: "'a list"
  tp_started :: "'a list"
  tp_discarded :: "'a list"

definition pool_new :: "'a pool" where
  "pool_new = \<lparr>tp_tasks = [], tp_workers = [], tp_stopping = False, tp_threads = [],
               tp_owner = Idle, tp_accepted = [], tp_started = [], tp_discarded = []\<rparr>"

section \<open>Operations\<close>

text \<open>
  \<^verbatim>\<open>start\<close>: \<open>created\<close> says how many of the \<open>worker_count\<close> threads the system creates before a
  constructor throws. If it throws, the owner goes on to call \<^verbatim>\<open>stop\<close>.
\<close>

definition pool_start :: "nat \<Rightarrow> nat \<Rightarrow> 'a pool \<Rightarrow> bool \<times> 'a pool" where
  "pool_start worker_count created p =
     (if worker_count = 0 \<or> tp_workers p \<noteq> [] then (False, p)
      else let k = min created worker_count;
               n = length (tp_threads p);
               p' = p\<lparr>tp_stopping := False,
                      tp_workers := [n..<n + k],
                      tp_threads := tp_threads p @ replicate k Checking\<rparr>
           in if k < worker_count then (False, p'\<lparr>tp_stopping := True, tp_owner := Start_Failed\<rparr>)
              else (True, p'))"

text \<open>\<^verbatim>\<open>condition_.notify_one()\<close> wakes the chosen blocked worker, if any worker is blocked.\<close>

definition notify_one :: "nat \<Rightarrow> 'a worker_pc list \<Rightarrow> 'a worker_pc list" where
  "notify_one w ths =
     (if w < length ths then (case ths ! w of Blocked \<Rightarrow> ths[w := Checking] | _ \<Rightarrow> ths) else ths)"

definition wake :: "'a worker_pc \<Rightarrow> 'a worker_pc" where
  "wake pc = (case pc of Blocked \<Rightarrow> Checking | _ \<Rightarrow> pc)"

definition pool_submit :: "'a \<Rightarrow> nat \<Rightarrow> 'a pool \<Rightarrow> bool \<times> 'a pool" where
  "pool_submit t w p =
     (if tp_stopping p \<or> tp_workers p = [] then (False, p)
      else (True, p\<lparr>tp_tasks := tp_tasks p @ [t],
                    tp_threads := notify_one w (tp_threads p),
                    tp_accepted := tp_accepted p @ [t]\<rparr>))"

text \<open>
  \<^verbatim>\<open>stop\<close> in its four parts: the first critical section, the notification, one iteration of the
  join loop, and the final critical section that empties the task queue.
\<close>

definition pool_stop_begin :: "'a pool \<Rightarrow> 'a pool" where
  "pool_stop_begin p =
     (if tp_workers p = [] then p\<lparr>tp_stopping := True, tp_owner := Idle\<rparr>
      else p\<lparr>tp_stopping := True, tp_workers := [], tp_owner := Notifying (tp_workers p)\<rparr>)"

definition pool_notify_all :: "nat list \<Rightarrow> 'a pool \<Rightarrow> 'a pool" where
  "pool_notify_all ws p =
     p\<lparr>tp_threads := map wake (tp_threads p), tp_owner := Joining ws\<rparr>"

definition pool_stop_end :: "'a pool \<Rightarrow> 'a pool" where
  "pool_stop_end p =
     p\<lparr>tp_tasks := [], tp_discarded := tp_discarded p @ tp_tasks p, tp_owner := Idle\<rparr>"

definition pool_size :: "'a pool \<Rightarrow> nat" where
  "pool_size p = length (tp_workers p)"

text \<open>
  One pass of a worker through the critical section of \<^verbatim>\<open>worker_loop\<close>: wait, return, or take the
  oldest task. A task that returns and a task that throws both lead back to the head of the loop.
\<close>

definition worker_check :: "nat \<Rightarrow> 'a pool \<Rightarrow> 'a pool" where
  "worker_check w p =
     (if \<not> (tp_stopping p \<or> tp_tasks p \<noteq> []) then
        p\<lparr>tp_threads := (tp_threads p)[w := Blocked]\<rparr>
      else (case tp_tasks p of
              [] \<Rightarrow> p\<lparr>tp_threads := (tp_threads p)[w := Exited]\<rparr>
            | t # ts \<Rightarrow> p\<lparr>tp_tasks := ts,
                          tp_threads := (tp_threads p)[w := Running t],
                          tp_started := tp_started p @ [t]\<rparr>))"

definition worker_task_done :: "nat \<Rightarrow> 'a pool \<Rightarrow> 'a pool" where
  "worker_task_done w p = p\<lparr>tp_threads := (tp_threads p)[w := Checking]\<rparr>"

section \<open>Interleavings\<close>

definition valid_wake :: "nat \<Rightarrow> 'a pool \<Rightarrow> bool" where
  "valid_wake w p \<longleftrightarrow>
     Blocked \<notin> set (tp_threads p) \<or> w < length (tp_threads p) \<and> tp_threads p ! w = Blocked"

inductive pool_worker_step :: "'a pool \<Rightarrow> 'a pool \<Rightarrow> bool" where
  w_check: "w < length (tp_threads p) \<Longrightarrow> tp_threads p ! w = Checking \<Longrightarrow>
    pool_worker_step p (worker_check w p)"
| w_done: "w < length (tp_threads p) \<Longrightarrow> tp_threads p ! w = Running t \<Longrightarrow>
    pool_worker_step p (worker_task_done w p)"

inductive pool_stop_step :: "'a pool \<Rightarrow> 'a pool \<Rightarrow> bool" where
  s_notify: "tp_owner p = Notifying ws \<Longrightarrow> pool_stop_step p (pool_notify_all ws p)"
| s_join: "tp_owner p = Joining (w # ws) \<Longrightarrow> tp_threads p ! w = Exited \<Longrightarrow>
    pool_stop_step p (p\<lparr>tp_owner := Joining ws\<rparr>)"
| s_end: "tp_owner p = Joining [] \<Longrightarrow> pool_stop_step p (pool_stop_end p)"

inductive pool_step :: "'a pool \<Rightarrow> 'a pool \<Rightarrow> bool" where
  p_start: "tp_owner p = Idle \<Longrightarrow> pool_step p (snd (pool_start n k p))"
| p_submit: "valid_wake w p \<Longrightarrow> pool_step p (snd (pool_submit t w p))"
| p_stop_begin: "tp_owner p = Idle \<or> tp_owner p = Start_Failed \<Longrightarrow>
    pool_step p (pool_stop_begin p)"
| p_worker: "pool_worker_step p p' \<Longrightarrow> pool_step p p'"
| p_stop: "pool_stop_step p p' \<Longrightarrow> pool_step p p'"

inductive_cases pool_worker_stepE: "pool_worker_step p p'"
inductive_cases pool_stop_stepE: "pool_stop_step p p'"
inductive_cases pool_stepE: "pool_step p p'"

section \<open>Invariant\<close>

text \<open>The threads that can still run: those of \<open>workers_\<close>, or those \<open>stop\<close> has yet to join.\<close>

definition live_workers :: "'a pool \<Rightarrow> nat list" where
  "live_workers p = (case tp_owner p of Notifying ws \<Rightarrow> ws | Joining ws \<Rightarrow> ws | _ \<Rightarrow> tp_workers p)"

definition pool_threads_ok :: "'a pool \<Rightarrow> bool" where
  "pool_threads_ok p \<longleftrightarrow>
     (\<forall>w \<in> set (live_workers p). w < length (tp_threads p)) \<and>
     (\<forall>w < length (tp_threads p). w \<notin> set (live_workers p) \<longrightarrow> tp_threads p ! w = Exited)"

definition pool_phase_ok :: "'a pool \<Rightarrow> bool" where
  "pool_phase_ok p \<longleftrightarrow>
     (case tp_owner p of
        Idle \<Rightarrow> (if tp_workers p = [] then tp_tasks p = []
                 else \<not> tp_stopping p \<and> (\<forall>w \<in> set (tp_workers p). tp_threads p ! w \<noteq> Exited) \<and>
                      (tp_tasks p \<noteq> [] \<longrightarrow>
                         (\<exists>w \<in> set (tp_workers p). tp_threads p ! w \<noteq> Blocked)))
      | Start_Failed \<Rightarrow> tp_stopping p \<and> tp_tasks p = []
      | Notifying ws \<Rightarrow> tp_stopping p \<and> tp_workers p = [] \<and> ws \<noteq> [] \<and>
          (tp_tasks p \<noteq> [] \<longrightarrow> (\<forall>w \<in> set ws. tp_threads p ! w \<noteq> Exited))
      | Joining ws \<Rightarrow> tp_stopping p \<and> tp_workers p = [] \<and>
          (\<forall>w \<in> set ws. tp_threads p ! w \<noteq> Blocked) \<and>
          (tp_tasks p \<noteq> [] \<longrightarrow> ws \<noteq> [] \<and> (\<forall>w \<in> set ws. tp_threads p ! w \<noteq> Exited)))"

definition pool_history_ok :: "'a pool \<Rightarrow> bool" where
  "pool_history_ok p \<longleftrightarrow> tp_accepted p = tp_started p @ tp_tasks p \<and> tp_discarded p = []"

definition pool_inv :: "'a pool \<Rightarrow> bool" where
  "pool_inv p \<longleftrightarrow> pool_threads_ok p \<and> pool_phase_ok p \<and> pool_history_ok p"

lemmas pool_inv_defs = pool_inv_def pool_threads_ok_def pool_phase_ok_def pool_history_ok_def
  live_workers_def

lemma wake_simps [simp]: "wake pc \<noteq> Blocked" "wake pc = Exited \<longleftrightarrow> pc = Exited"
  by (cases pc; simp add: wake_def)+

lemma length_notify_one [simp]: "length (notify_one w ths) = length ths"
  by (simp add: notify_one_def split: worker_pc.splits)

lemma notify_one_Exited:
  "v < length ths \<Longrightarrow> notify_one w ths ! v = Exited \<longleftrightarrow> ths ! v = Exited"
  by (auto simp: notify_one_def nth_list_update split: worker_pc.splits)

lemma notify_one_Blocked:
  "v < length ths \<Longrightarrow> ths ! v \<noteq> Blocked \<Longrightarrow> notify_one w ths ! v \<noteq> Blocked"
  by (auto simp: notify_one_def nth_list_update split: worker_pc.splits)

lemma pool_new_inv: "pool_inv pool_new"
  by (simp add: pool_inv_defs pool_new_def)


lemma pool_start_inv: "pool_inv p \<Longrightarrow> tp_owner p = Idle \<Longrightarrow> pool_inv (snd (pool_start n k p))"
  by (auto simp: pool_inv_defs pool_start_def Let_def nth_append)

lemma pool_submit_inv:
  assumes inv: "pool_inv p" and w: "valid_wake w p"
  shows "pool_inv (snd (pool_submit t w p))"
proof (cases "tp_stopping p \<or> tp_workers p = []")
  case True
  then show ?thesis using inv by (simp add: pool_submit_def)
next
  case False
  then have own: "tp_owner p = Idle"
    using inv by (auto simp: pool_inv_defs split: owner_pc.splits)
  let ?p = "snd (pool_submit t w p)"
  have "\<exists>v \<in> set (tp_workers p). notify_one w (tp_threads p) ! v \<noteq> Blocked"
  proof (cases "Blocked \<in> set (tp_threads p)")
    case True
    with w have wb: "w < length (tp_threads p)" "tp_threads p ! w = Blocked"
      by (auto simp: valid_wake_def)
    then have "w \<in> set (tp_workers p)"
      using inv own by (force simp: pool_inv_defs)
    with wb show ?thesis by (auto simp: notify_one_def intro!: bexI [of _ w])
  next
    case nb: False
    obtain v where v: "v \<in> set (tp_workers p)" using False by (cases "tp_workers p") auto
    then have "v < length (tp_threads p)" using inv own by (simp add: pool_inv_defs)
    moreover from this nb have "tp_threads p ! v \<noteq> Blocked" by (metis nth_mem)
    ultimately have "notify_one w (tp_threads p) ! v \<noteq> Blocked" by (rule notify_one_Blocked)
    with v show ?thesis by blast
  qed
  then show ?thesis
    using inv False own by (auto simp: pool_inv_defs pool_submit_def notify_one_Exited)
qed

lemma pool_stop_begin_inv:
  "pool_inv p \<Longrightarrow> tp_owner p = Idle \<or> tp_owner p = Start_Failed \<Longrightarrow> pool_inv (pool_stop_begin p)"
  by (auto simp: pool_inv_defs pool_stop_begin_def)

lemma pool_stop_step_inv: "pool_stop_step p p' \<Longrightarrow> pool_inv p \<Longrightarrow> pool_inv p'"
  by (induction rule: pool_stop_step.induct)
    (auto simp: pool_inv_defs pool_notify_all_def pool_stop_end_def split: if_splits)

text \<open>A worker that leaves \<open>Checking\<close> or \<open>Running\<close> belongs to the live ones.\<close>

lemma active_worker_live:
  "pool_inv p \<Longrightarrow> w < length (tp_threads p) \<Longrightarrow> tp_threads p ! w \<noteq> Exited \<Longrightarrow>
     w \<in> set (live_workers p)"
  by (auto simp: pool_inv_def pool_threads_ok_def)

lemma worker_check_inv:
  assumes inv: "pool_inv p" and w: "w < length (tp_threads p)" "tp_threads p ! w = Checking"
  shows "pool_inv (worker_check w p)"
proof -
  have live: "w \<in> set (live_workers p)" using active_worker_live [OF inv w(1)] w(2) by simp
  show ?thesis
  proof (cases "tp_tasks p")
    case Nil
    then show ?thesis using inv w live
      by (auto simp: pool_inv_defs worker_check_def nth_list_update split: owner_pc.splits if_splits)
  next
    case (Cons t ts)
    then show ?thesis using inv w live
      by (auto simp: pool_inv_defs worker_check_def nth_list_update split: owner_pc.splits if_splits)
  qed
qed

lemma worker_task_done_inv:
  assumes inv: "pool_inv p" and w: "w < length (tp_threads p)" "tp_threads p ! w = Running t"
  shows "pool_inv (worker_task_done w p)"
proof -
  have live: "w \<in> set (live_workers p)" using active_worker_live [OF inv w(1)] w(2) by simp
  then show ?thesis using inv w
    by (auto simp: pool_inv_defs worker_task_done_def nth_list_update
        split: owner_pc.splits if_splits)
qed

lemma pool_worker_step_inv: "pool_worker_step p p' \<Longrightarrow> pool_inv p \<Longrightarrow> pool_inv p'"
  by (elim pool_worker_stepE) (simp_all add: worker_check_inv worker_task_done_inv)

lemma pool_step_inv: "pool_inv p \<Longrightarrow> pool_step p p' \<Longrightarrow> pool_inv p'"
  by (elim pool_stepE)
    (auto intro: pool_start_inv pool_submit_inv pool_stop_begin_inv pool_worker_step_inv
      pool_stop_step_inv)

definition pool_initial :: "'a pool \<Rightarrow> bool" where
  "pool_initial p \<longleftrightarrow> p = pool_new"

interpretation pool_sys: inductive_invariant pool_initial pool_step pool_inv
  by unfold_locales (auto simp: pool_initial_def pool_new_inv intro: pool_step_inv)

section \<open>Shutdown\<close>

text \<open>
  While the owner is inside \<^verbatim>\<open>stop\<close> the only moves that change the pool are those of the workers and
  of the owner itself. \<open>stop_returns p\<close> says that whatever order they are scheduled in, the owner
  gets back to its caller: no schedule from \<open>p\<close> is infinite and none is stuck.
\<close>

inductive drain_step :: "'a pool \<Rightarrow> 'a pool \<Rightarrow> bool" where
  d_worker: "pool_worker_step p p' \<Longrightarrow> drain_step p p'"
| d_stop: "pool_stop_step p p' \<Longrightarrow> drain_step p p'"

inductive stop_returns :: "'a pool \<Rightarrow> bool" where
  returned: "tp_owner p = Idle \<Longrightarrow> stop_returns p"
| goes_on: "drain_step p q \<Longrightarrow> (\<And>p'. drain_step p p' \<Longrightarrow> stop_returns p') \<Longrightarrow> stop_returns p"

definition in_stop :: "'a pool \<Rightarrow> bool" where
  "in_stop p \<longleftrightarrow> (case tp_owner p of Notifying _ \<Rightarrow> True | Joining _ \<Rightarrow> True | _ \<Rightarrow> False)"

definition pc_weight :: "'a worker_pc \<Rightarrow> nat" where
  "pc_weight pc = (case pc of Checking \<Rightarrow> 1 | Blocked \<Rightarrow> 2 | Running _ \<Rightarrow> 2 | Exited \<Rightarrow> 0)"

definition owner_weight :: "owner_pc \<Rightarrow> nat" where
  "owner_weight own = (case own of Notifying ws \<Rightarrow> length ws + 2 | Joining ws \<Rightarrow> length ws + 1 | _ \<Rightarrow> 0)"

definition stop_measure :: "'a pool \<Rightarrow> nat" where
  "stop_measure p =
     2 * length (tp_tasks p) + sum_list (map pc_weight (tp_threads p)) + owner_weight (tp_owner p)"

lemma sum_weight_update:
  "w < length ths \<Longrightarrow>
     sum_list (map pc_weight (ths[w := pc])) + pc_weight (ths ! w) =
     sum_list (map pc_weight ths) + pc_weight pc"
  by (induction ths arbitrary: w) (auto split: nat.splits)

lemma sum_weight_wake: "sum_list (map pc_weight (map wake ths)) \<le> sum_list (map pc_weight ths)"
  by (induction ths) (auto simp: wake_def pc_weight_def split: worker_pc.splits)

lemma in_stop_stopping: "pool_inv p \<Longrightarrow> in_stop p \<Longrightarrow> tp_stopping p"
  by (auto simp: pool_inv_defs in_stop_def split: owner_pc.splits)

lemma worker_step_measure:
  "pool_worker_step p p' \<Longrightarrow> tp_stopping p \<Longrightarrow> stop_measure p' < stop_measure p"
proof (elim pool_worker_stepE)
  fix w assume "p' = worker_check w p" "w < length (tp_threads p)" "tp_threads p ! w = Checking"
    and "tp_stopping p"
  then show ?thesis
    using sum_weight_update [of w "tp_threads p" Exited]
      sum_weight_update [of w "tp_threads p" "Running (hd (tp_tasks p))"]
    by (auto simp: worker_check_def stop_measure_def pc_weight_def split: list.splits)
next
  fix w t assume "p' = worker_task_done w p" "w < length (tp_threads p)"
    "tp_threads p ! w = Running t"
  then show ?thesis
    using sum_weight_update [of w "tp_threads p" Checking]
    by (auto simp: worker_task_done_def stop_measure_def pc_weight_def)
qed

lemma stop_step_measure: "pool_stop_step p p' \<Longrightarrow> stop_measure p' < stop_measure p"
  using sum_weight_wake [of "tp_threads p"]
  by (elim pool_stop_stepE)
    (auto simp: stop_measure_def pool_notify_all_def pool_stop_end_def owner_weight_def)

lemma drain_enabled:
  assumes inv: "pool_inv p" and st: "in_stop p"
  shows "\<exists>q. drain_step p q"
proof (cases "tp_owner p")
  case (Joining ws)
  show ?thesis
  proof (cases ws)
    case Nil
    then show ?thesis using Joining by (auto intro: d_stop s_end)
  next
    case (Cons w vs)
    have w: "w < length (tp_threads p)" "tp_threads p ! w \<noteq> Blocked"
      using inv Joining Cons by (auto simp: pool_inv_defs)
    then show ?thesis using Joining Cons
      by (cases "tp_threads p ! w") (auto intro: d_stop d_worker s_join w_check w_done)
  qed
qed (use st in \<open>auto simp: in_stop_def intro: d_stop s_notify\<close>)

lemma drain_step_in_stop:
  "drain_step p p' \<Longrightarrow> in_stop p \<Longrightarrow> in_stop p' \<or> tp_owner p' = Idle"
  by (auto simp: in_stop_def worker_check_def worker_task_done_def pool_notify_all_def
      pool_stop_end_def elim!: drain_step.cases pool_worker_stepE pool_stop_stepE
      split: list.splits owner_pc.splits if_splits)

lemma stop_returns_inv: "pool_inv p \<Longrightarrow> in_stop p \<Longrightarrow> stop_returns p"
proof (induction "stop_measure p" arbitrary: p rule: less_induct)
  case less
  obtain q where q: "drain_step p q" using drain_enabled [OF less.prems] by blast
  have "stop_returns p'" if d: "drain_step p p'" for p'
  proof -
    have m: "stop_measure p' < stop_measure p"
      using d in_stop_stopping [OF less.prems]
      by (auto elim: drain_step.cases intro: worker_step_measure stop_step_measure)
    have i: "pool_inv p'"
      using d less.prems(1) by (auto elim!: drain_step.cases
          intro: pool_worker_step_inv pool_stop_step_inv)
    from drain_step_in_stop [OF d less.prems(2)] show ?thesis
      using less.hyps [OF m i] by (auto intro: returned)
  qed
  with q show ?case by (rule goes_on)
qed

section \<open>Properties\<close>

text \<open>
  C4. In every reachable state of the pool, under every interleaving of submitters, workers and the
  owner, the accepted tasks are the started ones followed by the queued ones in the order of
  submission, and the loop at the end of \<^verbatim>\<open>stop\<close> that throws queued tasks away has never thrown
  one away: an accepted task is started exactly once, in FIFO order.
\<close>

theorem pool_runs_every_accepted_task:
  assumes "reachable pool_initial pool_step p"
  shows "tp_accepted p = tp_started p @ tp_tasks p \<and> tp_discarded p = []"
  using pool_sys.reachable_inv [OF assms] by (simp add: pool_inv_def pool_history_ok_def)

text \<open>
  C17. A call of \<^verbatim>\<open>stop\<close> always returns: from every reachable state in which the owner is inside
  \<^verbatim>\<open>stop\<close>, no schedule of the workers is infinite and none gets stuck before the owner is back. In
  particular no wake-up is lost, although \<^verbatim>\<open>notify_all\<close> is issued after the mutex is released.
\<close>

theorem pool_stop_terminates:
  assumes "reachable pool_initial pool_step p" and "in_stop p"
  shows "stop_returns p"
  using pool_sys.reachable_inv [OF assms(1)] assms(2) by (rule stop_returns_inv)

text \<open>A pool of one worker that accepted one task and is then stopped.\<close>

definition example_pool :: "nat pool" where
  "example_pool = pool_stop_begin (snd (pool_submit 7 0 (snd (pool_start 1 1 pool_new))))"

lemma example_pool_value:
  "example_pool = \<lparr>tp_tasks = [7], tp_workers = [], tp_stopping = True, tp_threads = [Checking],
     tp_owner = Notifying [0], tp_accepted = [7], tp_started = [], tp_discarded = []\<rparr>"
  by (simp add: example_pool_def pool_new_def pool_start_def pool_submit_def pool_stop_begin_def
      notify_one_def)

lemma example_pool_reachable: "reachable pool_initial pool_step example_pool"
proof -
  have 1: "reachable pool_initial pool_step (pool_new :: nat pool)"
    by (rule reachable_init) (simp add: pool_initial_def)
  have 2: "reachable pool_initial pool_step (snd (pool_start 1 1 pool_new) :: nat pool)"
    by (rule reachable_step [OF 1 p_start]) (simp add: pool_new_def)
  have 3: "reachable pool_initial pool_step
      (snd (pool_submit 7 0 (snd (pool_start 1 1 pool_new))) :: nat pool)"
    by (rule reachable_step [OF 2 p_submit])
      (simp add: pool_new_def pool_start_def valid_wake_def)
  show ?thesis unfolding example_pool_def
    by (rule reachable_step [OF 3 p_stop_begin])
      (simp add: pool_new_def pool_start_def pool_submit_def)
qed

theorem pool_runs_every_accepted_task_witness:
  "tp_accepted example_pool = tp_started example_pool @ tp_tasks example_pool \<and>
   tp_tasks example_pool = [7]"
  using pool_runs_every_accepted_task [OF example_pool_reachable]
  by (simp add: example_pool_value)

theorem pool_stop_terminates_witness: "stop_returns example_pool \<and> tp_tasks example_pool \<noteq> []"
  using pool_stop_terminates [OF example_pool_reachable]
  by (simp add: example_pool_value in_stop_def)

end
