(* ===== verification/Comm_Types.thy ===== *)
theory Comm_Types
  imports Mudmux_Prelude
begin

text \<open>
  Data of the communication layer: the flag constants of \<^verbatim>\<open>src/include/mudmux/comm.h\<close>, the
  inbound and outbound buffers, the per-slot WebSocket state, the negotiated capabilities and the
  slot record \<^verbatim>\<open>comm_abstract_t\<close>.

  BIO and SSL objects belong to OpenSSL; the program only stores, compares and passes their
  addresses, so they are natural numbers here and a null pointer is \<open>None\<close>. A linked chain of
  buffers is the list of its nodes. A buffer's array is represented by its first \<open>end\<close> bytes, the
  only ones ever read, so \<open>end\<close> is the length of the list.
\<close>

section \<open>Flags\<close>

definition C_CLOSING :: u32 where [flag_defs]: "C_CLOSING = 0x80000000"
definition C_SOCKET_LISTENING :: u32 where [flag_defs]: "C_SOCKET_LISTENING = 0x40000000"
definition C_SOCKET_READABLE :: u32 where [flag_defs]: "C_SOCKET_READABLE = 0x20000000"
definition C_SOCKET_WRITABLE :: u32 where [flag_defs]: "C_SOCKET_WRITABLE = 0x10000000"
definition C_LINE_INPUT :: u32 where [flag_defs]: "C_LINE_INPUT = 0x08000000"
definition C_CLIENT_ECHO :: u32 where [flag_defs]: "C_CLIENT_ECHO = 0x04000000"
definition C_ENABLE_TELNET :: u32 where [flag_defs]: "C_ENABLE_TELNET = 0x02000000"
definition C_ENABLE_ANSI :: u32 where [flag_defs]: "C_ENABLE_ANSI = 0x01000000"
definition C_ENABLE_WEBSOCKET :: u32 where [flag_defs]: "C_ENABLE_WEBSOCKET = 0x00800000"
definition C_ENABLE_PROMPT :: u32 where [flag_defs]: "C_ENABLE_PROMPT = 0x00400000"
definition C_TRANSPORT_READY :: u32 where [flag_defs]: "C_TRANSPORT_READY = 0x4000"
definition C_INVOKED_PROMPT :: u32 where [flag_defs]: "C_INVOKED_PROMPT = 0x2000"
definition C_BUFFERED_WRITE :: u32 where [flag_defs]: "C_BUFFERED_WRITE = 0x1000"
definition C_TLS_ESTABLISHED :: u32 where [flag_defs]: "C_TLS_ESTABLISHED = 0x800"
definition C_DEFERRED_INBOUND :: u32 where [flag_defs]: "C_DEFERRED_INBOUND = 0x400"
definition C_AWAITING_HOOK :: u32 where [flag_defs]: "C_AWAITING_HOOK = 0x200"
definition C_DISCONNECT_PENDING :: u32 where [flag_defs]: "C_DISCONNECT_PENDING = 0x100"
definition M_WEBSOCKET_STATE :: u32 where [flag_defs]: "M_WEBSOCKET_STATE = 0xf0"
definition M_TELNET_STATE :: u32 where [flag_defs]: "M_TELNET_STATE = 0x0f"

definition WS_HANDSHAKE :: u32 where [flag_defs]: "WS_HANDSHAKE = 0x00"
definition WS_READY :: u32 where [flag_defs]: "WS_READY = 0x10"
definition WS_TELNET_PENDING :: u32 where [flag_defs]: "WS_TELNET_PENDING = 0x20"
definition WS_CLOSE_SENT :: u32 where [flag_defs]: "WS_CLOSE_SENT = 0x30"
definition WS_CLOSE_RECEIVED :: u32 where [flag_defs]: "WS_CLOSE_RECEIVED = 0x40"

definition C_WEBSOCKET_STATE :: "u32 \<Rightarrow> u32" where
  "C_WEBSOCKET_STATE f = f AND M_WEBSOCKET_STATE"

definition C_WEBSOCKET_IS_READY :: "u32 \<Rightarrow> bool" where
  "C_WEBSOCKET_IS_READY f \<longleftrightarrow> C_WEBSOCKET_STATE f \<noteq> WS_HANDSHAKE"

definition C_WEBSOCKET_SET_STATE :: "u32 \<Rightarrow> u32 \<Rightarrow> u32" where
  "C_WEBSOCKET_SET_STATE f st = (f AND NOT M_WEBSOCKET_STATE) OR (st AND M_WEBSOCKET_STATE)"

text \<open>The update \<^verbatim>\<open>flags = (flags & ~M_TELNET_STATE) | (state & M_TELNET_STATE)\<close> of the callers.\<close>

definition telnet_set_state :: "u32 \<Rightarrow> u32 \<Rightarrow> u32" where
  "telnet_set_state f st = (f AND NOT M_TELNET_STATE) OR (st AND M_TELNET_STATE)"

section \<open>Buffers\<close>

definition BUFFER_SIZE :: nat where "BUFFER_SIZE = 4096"
definition INBOUND_BAND_DATA :: nat where "INBOUND_BAND_DATA = 0"
definition INBOUND_BAND_SUBNEG :: nat where "INBOUND_BAND_SUBNEG = 1"

record inbound_buffer =
  ib_band :: nat
  ib_start :: nat
  ib_data :: "byte list"

record outbound_buffer =
  ob_start :: nat
  ob_data :: "byte list"

definition inbound_buffer_reset :: "inbound_buffer \<Rightarrow> inbound_buffer" where
  "inbound_buffer_reset b = b\<lparr>ib_band := INBOUND_BAND_DATA, ib_start := 0, ib_data := []\<rparr>"

definition outbound_buffer_reset :: "outbound_buffer \<Rightarrow> outbound_buffer" where
  "outbound_buffer_reset b = b\<lparr>ob_start := 0, ob_data := []\<rparr>"

definition empty_inbound_buffer :: inbound_buffer where
  "empty_inbound_buffer = \<lparr>ib_band = INBOUND_BAND_DATA, ib_start = 0, ib_data = []\<rparr>"

definition empty_outbound_buffer :: outbound_buffer where
  "empty_outbound_buffer = \<lparr>ob_start = 0, ob_data = []\<rparr>"

text \<open>
  Allocation from the recycling pools. The lemmas below show that the pool is invisible: an
  allocated buffer is always the empty one. The other theories therefore allocate
  \<open>empty_inbound_buffer\<close> and \<open>empty_outbound_buffer\<close> and do not thread the pools.
\<close>

fun allocate_inbound_buffer :: "inbound_buffer list \<Rightarrow> inbound_buffer \<times> inbound_buffer list" where
  "allocate_inbound_buffer (b # pool) = (inbound_buffer_reset b, pool)"
| "allocate_inbound_buffer [] = (empty_inbound_buffer, [])"

fun allocate_outbound_buffer ::
  "outbound_buffer list \<Rightarrow> outbound_buffer \<times> outbound_buffer list" where
  "allocate_outbound_buffer (b # pool) = (outbound_buffer_reset b, pool)"
| "allocate_outbound_buffer [] = (empty_outbound_buffer, [])"

definition free_inbound_buffer :: "inbound_buffer option \<Rightarrow> inbound_buffer list \<Rightarrow> inbound_buffer list"
  where "free_inbound_buffer b pool = (case b of None \<Rightarrow> pool | Some x \<Rightarrow> x # pool)"

definition free_outbound_buffer ::
  "outbound_buffer option \<Rightarrow> outbound_buffer list \<Rightarrow> outbound_buffer list"
  where "free_outbound_buffer b pool = (case b of None \<Rightarrow> pool | Some x \<Rightarrow> x # pool)"

section \<open>Slots\<close>

record client_capabilities =
  telnet_linemode :: bool
  telnet_naws :: bool
  telnet_ttype :: bool
  telnet_tspeed :: bool
  telnet_new_environ :: bool
  telnet_echo :: bool

record comm_websocket_state =
  fragmented_opcode :: byte
  fragmented_payload :: "byte list"
  preferred_protocols :: "byte list"
  pending_wire :: "byte list"
  decoded_input :: "byte list"

record comm_abstract =
  c_rbio :: "nat option"
  c_wbio :: "nat option"
  c_ssl :: "nat option"
  c_inbound :: "inbound_buffer list"
  c_outbound :: "outbound_buffer list"
  c_websocket_upgrade_barrier :: "outbound_buffer list"
  c_websocket :: "comm_websocket_state option"
  c_generation :: u64
  c_flags :: u32
  c_caps :: client_capabilities

definition no_capabilities :: client_capabilities where
  "no_capabilities = \<lparr>telnet_linemode = False, telnet_naws = False, telnet_ttype = False,
     telnet_tspeed = False, telnet_new_environ = False, telnet_echo = False\<rparr>"

definition new_websocket_state :: comm_websocket_state where
  "new_websocket_state = \<lparr>fragmented_opcode = 0, fragmented_payload = [],
     preferred_protocols = [], pending_wire = [], decoded_input = []\<rparr>"

text \<open>The all-zero slot that \<^verbatim>\<open>calloc\<close> and \<^verbatim>\<open>memset\<close> produce.\<close>

definition zero_comm :: comm_abstract where
  "zero_comm = \<lparr>c_rbio = None, c_wbio = None, c_ssl = None, c_inbound = [], c_outbound = [],
     c_websocket_upgrade_barrier = [], c_websocket = None, c_generation = 0, c_flags = 0,
     c_caps = no_capabilities\<rparr>"

definition comm_used :: "comm_abstract \<Rightarrow> bool" where
  "comm_used c \<longleftrightarrow> c_rbio c \<noteq> None \<or> c_wbio c \<noteq> None"

definition comm_has_flag :: "comm_abstract \<Rightarrow> u32 \<Rightarrow> bool" where
  [mux_simps]: "comm_has_flag c m = has_flag (c_flags c) m"

definition comm_set_flag :: "u32 \<Rightarrow> comm_abstract \<Rightarrow> comm_abstract" where
  [mux_simps]: "comm_set_flag m c = c\<lparr>c_flags := set_flag (c_flags c) m\<rparr>"

definition comm_clear_flag :: "u32 \<Rightarrow> comm_abstract \<Rightarrow> comm_abstract" where
  [mux_simps]: "comm_clear_flag m c = c\<lparr>c_flags := clear_flag (c_flags c) m\<rparr>"

section \<open>Bytes held by a chain\<close>

text \<open>Unread bytes of a buffer and of a chain of buffers.\<close>

definition ib_unread :: "inbound_buffer \<Rightarrow> byte list" where
  "ib_unread b = drop (ib_start b) (ib_data b)"

definition ob_unsent :: "outbound_buffer \<Rightarrow> byte list" where
  "ob_unsent b = drop (ob_start b) (ob_data b)"

definition outbound_bytes :: "outbound_buffer list \<Rightarrow> byte list" where
  "outbound_bytes bs = concat (map ob_unsent bs)"

definition ob_wf :: "outbound_buffer \<Rightarrow> bool" where
  "ob_wf b \<longleftrightarrow> ob_start b \<le> length (ob_data b) \<and> length (ob_data b) \<le> BUFFER_SIZE"

definition ib_wf :: "inbound_buffer \<Rightarrow> bool" where
  "ib_wf b \<longleftrightarrow> ib_start b \<le> length (ib_data b) \<and> length (ib_data b) \<le> BUFFER_SIZE"

section \<open>Lemmas\<close>

lemma allocate_inbound_buffer_empty [simp]:
  "fst (allocate_inbound_buffer pool) = empty_inbound_buffer"
  by (cases pool) (simp_all add: inbound_buffer_reset_def empty_inbound_buffer_def)

lemma allocate_outbound_buffer_empty [simp]:
  "fst (allocate_outbound_buffer pool) = empty_outbound_buffer"
  by (cases pool) (simp_all add: outbound_buffer_reset_def empty_outbound_buffer_def)

lemma empty_buffers_wf [simp]: "ib_wf empty_inbound_buffer" "ob_wf empty_outbound_buffer"
  by (simp_all add: ib_wf_def ob_wf_def empty_inbound_buffer_def empty_outbound_buffer_def)

lemma outbound_bytes_simps [simp]:
  "outbound_bytes [] = []"
  "outbound_bytes (b # bs) = ob_unsent b @ outbound_bytes bs"
  "outbound_bytes (bs @ cs) = outbound_bytes bs @ outbound_bytes cs"
  by (simp_all add: outbound_bytes_def)

text \<open>The WebSocket state field is independent of every flag outside its mask.\<close>

lemma ws_state_set_state [simp]:
  "C_WEBSOCKET_STATE (C_WEBSOCKET_SET_STATE f st) = st AND M_WEBSOCKET_STATE"
proof -
  have "((f AND NOT m) OR (st AND m)) AND m = st AND m" for m :: u32
    by (auto simp: bit_eq_iff bit_and_iff bit_or_iff bit_not_iff)
  then show ?thesis by (simp add: C_WEBSOCKET_STATE_def C_WEBSOCKET_SET_STATE_def)
qed

lemma and_masked_update:
  fixes f m k st :: u32
  assumes "m AND k = 0"
  shows "((f AND NOT m) OR (st AND m)) AND k = f AND k"
proof (rule bit_eqI)
  fix n
  assume "possible_bit TYPE(u32) n"
  have "\<not> (bit m n \<and> bit k n)" using assms by (metis bit_and_iff bit_0_eq bot_apply bot_bool_def)
  then show "bit (((f AND NOT m) OR (st AND m)) AND k) n = bit (f AND k) n"
    using \<open>possible_bit TYPE(u32) n\<close> by (auto simp: bit_and_iff bit_or_iff bit_not_iff)
qed

lemma has_flag_ws_set_state [simp]:
  "M_WEBSOCKET_STATE AND k = 0 \<Longrightarrow> has_flag (C_WEBSOCKET_SET_STATE f st) k \<longleftrightarrow> has_flag f k"
  by (simp add: has_flag_def C_WEBSOCKET_SET_STATE_def and_masked_update)

lemma has_flag_telnet_set_state [simp]:
  "M_TELNET_STATE AND k = 0 \<Longrightarrow> has_flag (telnet_set_state f st) k \<longleftrightarrow> has_flag f k"
  by (simp add: has_flag_def telnet_set_state_def and_masked_update)

lemma ws_state_telnet_set_state [simp]:
  "C_WEBSOCKET_STATE (telnet_set_state f st) = C_WEBSOCKET_STATE f"
proof -
  have "M_TELNET_STATE AND M_WEBSOCKET_STATE = 0" by (simp add: flag_defs)
  then show ?thesis by (simp add: C_WEBSOCKET_STATE_def telnet_set_state_def and_masked_update)
qed

lemma telnet_state_set_state [simp]:
  "telnet_set_state f st AND M_TELNET_STATE = st AND M_TELNET_STATE"
proof -
  have "((f AND NOT m) OR (st AND m)) AND m = st AND m" for m :: u32
    by (auto simp: bit_eq_iff bit_and_iff bit_or_iff bit_not_iff)
  then show ?thesis by (simp add: telnet_set_state_def)
qed

lemma ws_state_flag_updates [simp]:
  "m AND M_WEBSOCKET_STATE = 0 \<Longrightarrow> C_WEBSOCKET_STATE (set_flag f m) = C_WEBSOCKET_STATE f"
  "m AND M_WEBSOCKET_STATE = 0 \<Longrightarrow> C_WEBSOCKET_STATE (clear_flag f m) = C_WEBSOCKET_STATE f"
  by (simp_all add: C_WEBSOCKET_STATE_def set_flag_and_other clear_flag_and_other)

end
