(* ===== verification/Slot_Table.thy ===== *)
theory Slot_Table
  imports Comm_Types
begin

text \<open>
  The slot table of \<^verbatim>\<open>lib/comm/abstract.cpp\<close> and \<^verbatim>\<open>abstract.hpp\<close>: allocation and growth of the slot
  array, assignment of BIO pairs to slots, removal and its release of resources, and the slot
  generation that later callbacks are checked against.

  All functions run under \<^verbatim>\<open>comm_slots_mtx\<close>, so each is one function on the table. Memory may
  run out (\<open>alloc_ok\<close> decides for a slot count), and what OpenSSL or the system is asked to release
  is returned as a list of \<open>release\<close> actions in program order. \<open>unix_path b\<close> is what
  \<^verbatim>\<open>getsockname\<close> reports for the socket of BIO \<open>b\<close>: the pathname of a filesystem Unix-domain socket,
  or \<open>None\<close>. Slot counts are natural numbers: the doubling loops are not modelled at \<^verbatim>\<open>size_t\<close>
  width, since an array near that size cannot be allocated.
\<close>

section \<open>State\<close>

record slot_table =
  all_comms :: "comm_abstract list option"
  max_comms :: nat

datatype release = Free_ssl nat | Unlink "byte list" | Free_bio nat | Reset_bio nat

definition RESERVED_SLOTS :: nat where "RESERVED_SLOTS = 1"

definition empty_table :: slot_table where
  "empty_table = \<lparr>all_comms = None, max_comms = 0\<rparr>"

section \<open>Lookup\<close>

definition slot_ptr_unlocked :: "slot_table \<Rightarrow> int \<Rightarrow> comm_abstract option" where
  "slot_ptr_unlocked t slot =
     (case all_comms t of
        None \<Rightarrow> None
      | Some cs \<Rightarrow> if slot < 0 \<or> slot \<ge> int (max_comms t) then None else Some (cs ! nat slot))"

definition resolve_slot_unlocked :: "slot_table \<Rightarrow> int \<Rightarrow> comm_abstract option" where
  "resolve_slot_unlocked t slot =
     (case slot_ptr_unlocked t slot of
        Some c \<Rightarrow> if comm_used c then Some c else None
      | None \<Rightarrow> None)"

definition comm_max_slot :: "slot_table \<Rightarrow> int" where
  "comm_max_slot t = int (max_comms t)"

definition comm_abstract_get :: "slot_table \<Rightarrow> int \<Rightarrow> comm_abstract option" where
  "comm_abstract_get t slot = resolve_slot_unlocked t slot"

definition comm_abstract_generation :: "slot_table \<Rightarrow> int \<Rightarrow> u64" where
  "comm_abstract_generation t slot =
     (case resolve_slot_unlocked t slot of Some c \<Rightarrow> c_generation c | None \<Rightarrow> 0)"

definition comm_get_flags :: "slot_table \<Rightarrow> int \<Rightarrow> u32" where
  "comm_get_flags t slot =
     (case resolve_slot_unlocked t slot of Some c \<Rightarrow> c_flags c | None \<Rightarrow> 0)"

definition comm_abstract_has_rbio :: "slot_table \<Rightarrow> int \<Rightarrow> bool" where
  "comm_abstract_has_rbio t slot =
     (case resolve_slot_unlocked t slot of Some c \<Rightarrow> c_rbio c \<noteq> None | None \<Rightarrow> False)"

definition comm_abstract_has_wbio :: "slot_table \<Rightarrow> int \<Rightarrow> bool" where
  "comm_abstract_has_wbio t slot =
     (case resolve_slot_unlocked t slot of Some c \<Rightarrow> c_wbio c \<noteq> None | None \<Rightarrow> False)"

text \<open>\<open>bio_fd b\<close> is what \<^verbatim>\<open>BIO_get_fd\<close> stores for \<open>b\<close>; failure is any negative value.\<close>

definition comm_bio_get_socket_fd :: "(nat \<Rightarrow> int) \<Rightarrow> nat option \<Rightarrow> int option" where
  "comm_bio_get_socket_fd bio_fd bio =
     (case bio of None \<Rightarrow> None | Some b \<Rightarrow> if bio_fd b < 0 then None else Some (bio_fd b))"

definition comm_abstract_get_rbio_fd :: "(nat \<Rightarrow> int) \<Rightarrow> slot_table \<Rightarrow> int \<Rightarrow> int option" where
  "comm_abstract_get_rbio_fd bio_fd t slot =
     (case resolve_slot_unlocked t slot of
        Some c \<Rightarrow> comm_bio_get_socket_fd bio_fd (c_rbio c) | None \<Rightarrow> None)"

definition comm_abstract_get_wbio_fd :: "(nat \<Rightarrow> int) \<Rightarrow> slot_table \<Rightarrow> int \<Rightarrow> int option" where
  "comm_abstract_get_wbio_fd bio_fd t slot =
     (case resolve_slot_unlocked t slot of
        Some c \<Rightarrow> comm_bio_get_socket_fd bio_fd (c_wbio c) | None \<Rightarrow> None)"

section \<open>Capacity\<close>

text \<open>\<^verbatim>\<open>while (m < required) m *= 2\<close>; the test \<open>0 < m\<close> holds at every call (\<open>m\<close> starts at 64 or more).\<close>

function double_until :: "nat \<Rightarrow> nat \<Rightarrow> nat" where
  "double_until required m = (if m < required \<and> 0 < m then double_until required (2 * m) else m)"
  by pat_completeness auto
termination by (relation "measure (\<lambda>(r, m). r - m)") auto

declare double_until.simps [simp del]

definition ensure_capacity ::
  "(nat \<Rightarrow> bool) \<Rightarrow> slot_table \<Rightarrow> nat \<Rightarrow> bool \<times> slot_table" where
  "ensure_capacity alloc_ok t required_slots =
     (case all_comms t of
        None \<Rightarrow>
          (let m = double_until required_slots 64 in
           if alloc_ok m then (True, \<lparr>all_comms = Some (replicate m zero_comm), max_comms = m\<rparr>)
           else (False, t\<lparr>max_comms := m\<rparr>))
      | Some cs \<Rightarrow>
          if max_comms t \<ge> required_slots then (True, t)
          else (let m = double_until required_slots (2 * max_comms t) in
                if alloc_ok m then
                  (True, \<lparr>all_comms = Some (cs @ replicate (m - max_comms t) zero_comm),
                          max_comms = m\<rparr>)
                else (False, t)))"

function scan_slot :: "comm_abstract list \<Rightarrow> nat \<Rightarrow> nat" where
  "scan_slot cs slot =
     (if slot < length cs \<and> comm_used (cs ! slot) then scan_slot cs (slot + 1) else slot)"
  by pat_completeness auto
termination by (relation "measure (\<lambda>(cs, slot). length cs - slot)") auto

declare scan_slot.simps [simp del]

definition find_slot :: "(nat \<Rightarrow> bool) \<Rightarrow> slot_table \<Rightarrow> nat \<times> slot_table" where
  "find_slot alloc_ok t =
     (let slot = scan_slot (case all_comms t of Some cs \<Rightarrow> cs | None \<Rightarrow> []) RESERVED_SLOTS in
      if slot \<ge> max_comms t then (slot, snd (ensure_capacity alloc_ok t (slot + 1)))
      else (slot, t))"

section \<open>Assignment and removal\<close>

definition next_generation :: "u64 \<Rightarrow> u64" where
  "next_generation g = (let g1 = g + 1 in if g1 = 0 then g1 + 1 else g1)"

definition set_slot :: "int \<Rightarrow> comm_abstract \<Rightarrow> slot_table \<Rightarrow> slot_table" where
  "set_slot slot c t = t\<lparr>all_comms := map_option (\<lambda>cs. cs[nat slot := c]) (all_comms t)\<rparr>"

definition comm_free_inbound_buffers :: "comm_abstract \<Rightarrow> comm_abstract" where
  "comm_free_inbound_buffers c = c\<lparr>c_inbound := []\<rparr>"

definition comm_free_outbound_buffers :: "comm_abstract \<Rightarrow> comm_abstract" where
  "comm_free_outbound_buffers c = c\<lparr>c_outbound := [], c_websocket_upgrade_barrier := []\<rparr>"

definition comm_websocket_free_state :: "comm_abstract \<Rightarrow> comm_abstract" where
  "comm_websocket_free_state c = c\<lparr>c_websocket := None\<rparr>"

definition release_actions :: "(nat \<Rightarrow> byte list option) \<Rightarrow> comm_abstract \<Rightarrow> release list" where
  "release_actions unix_path c =
     opt_list Free_ssl (c_ssl c) @
     (if comm_has_flag c C_SOCKET_LISTENING
      then opt_list Unlink (Option.bind (c_rbio c) unix_path) else []) @
     opt_list Free_bio (c_rbio c) @
     (if c_wbio c \<noteq> c_rbio c then opt_list Free_bio (c_wbio c) else [])"

definition removed_comm :: "comm_abstract \<Rightarrow> comm_abstract" where
  "removed_comm c =
     (comm_websocket_free_state (comm_free_outbound_buffers (comm_free_inbound_buffers c)))
       \<lparr>c_ssl := None, c_flags := 0, c_rbio := None, c_wbio := None\<rparr>"

definition comm_abstract_remove ::
  "(nat \<Rightarrow> byte list option) \<Rightarrow> slot_table \<Rightarrow> int \<Rightarrow> release list \<times> slot_table" where
  "comm_abstract_remove unix_path t slot =
     (case resolve_slot_unlocked t slot of
        None \<Rightarrow> ([], t)
      | Some c \<Rightarrow> (release_actions unix_path c, set_slot slot (removed_comm c) t))"

text \<open>The choice of the slot: the first free one, or the given one, cleared if it is in use.\<close>

definition add_bio_slot ::
  "(nat \<Rightarrow> bool) \<Rightarrow> (nat \<Rightarrow> byte list option) \<Rightarrow> slot_table \<Rightarrow> int \<Rightarrow>
   int \<times> release list \<times> slot_table" where
  "add_bio_slot alloc_ok unix_path t slot =
     (if slot < 0 \<or> slot \<ge> comm_max_slot t then
        (let (s, t') = find_slot alloc_ok t in (int s, [], t'))
      else (case comm_abstract_get t slot of
              Some _ \<Rightarrow> (let (rel, t') = comm_abstract_remove unix_path t slot in (slot, rel, t'))
            | None \<Rightarrow> (slot, [], t)))"

definition comm_abstract_add_bio ::
  "(nat \<Rightarrow> bool) \<Rightarrow> (nat \<Rightarrow> byte list option) \<Rightarrow> slot_table \<Rightarrow>
   nat option \<Rightarrow> nat option \<Rightarrow> int \<Rightarrow> u32 \<Rightarrow> int \<times> release list \<times> slot_table" where
  "comm_abstract_add_bio alloc_ok unix_path t rbio wbio slot flags =
     (if rbio = None \<and> wbio = None then (-1, [], t)
      else let (ok, t1) = ensure_capacity alloc_ok t 2 in
      if \<not> ok then (-1, [], t1)
      else let (slot', rel, t2) = add_bio_slot alloc_ok unix_path t1 slot in
      case slot_ptr_unlocked t2 slot' of
        None \<Rightarrow> (-1, rel, t2)
      | Some c \<Rightarrow>
          (slot', rel,
           set_slot slot' (c\<lparr>c_rbio := rbio, c_wbio := wbio, c_flags := flags,
                             c_generation := next_generation (c_generation c)\<rparr>) t2))"

text \<open>
  \<^verbatim>\<open>comm_abstract_add_file\<close>: \<open>bio_in\<close> and \<open>bio_out\<close> are what the BIO constructors return. The released
  BIOs of a failed call come last.
\<close>

definition comm_abstract_add_file ::
  "(nat \<Rightarrow> bool) \<Rightarrow> (nat \<Rightarrow> byte list option) \<Rightarrow> slot_table \<Rightarrow>
   nat option \<Rightarrow> nat option \<Rightarrow> int \<Rightarrow> u32 \<Rightarrow> int \<times> release list \<times> slot_table" where
  "comm_abstract_add_file alloc_ok unix_path t bio_in bio_out slot flags =
     (case bio_in of
        None \<Rightarrow> (-1, [], t)
      | Some i \<Rightarrow>
          (case bio_out of
             None \<Rightarrow> (-1, [Free_bio i], t)
           | Some out \<Rightarrow>
               (let (ret, rel, t') = comm_abstract_add_bio alloc_ok unix_path t bio_in bio_out slot flags
                in if ret < 0 then (-1, rel @ [Free_bio i, Free_bio out], t')
                   else (ret, rel, t'))))"

definition comm_abstract_disconnect :: "slot_table \<Rightarrow> int \<Rightarrow> int \<times> release list" where
  "comm_abstract_disconnect t slot =
     (case resolve_slot_unlocked t slot of
        None \<Rightarrow> (-1, [])
      | Some c \<Rightarrow>
          (0, opt_list Reset_bio (c_rbio c) @
              (if c_wbio c \<noteq> c_rbio c then opt_list Reset_bio (c_wbio c) else [])))"

fun remove_slots ::
  "(nat \<Rightarrow> byte list option) \<Rightarrow> slot_table \<Rightarrow> nat list \<Rightarrow> release list \<times> slot_table" where
  "remove_slots unix_path t [] = ([], t)"
| "remove_slots unix_path t (i # is) =
     (let (rel, t1) = comm_abstract_remove unix_path t (int i);
          (rels, t2) = remove_slots unix_path t1 is
      in (rel @ rels, t2))"

definition comm_abstract_remove_all ::
  "(nat \<Rightarrow> byte list option) \<Rightarrow> slot_table \<Rightarrow> release list \<times> slot_table" where
  "comm_abstract_remove_all unix_path t =
     (case all_comms t of
        None \<Rightarrow> ([], t)
      | Some _ \<Rightarrow> (fst (remove_slots unix_path t [0..<max_comms t]), empty_table))"

section \<open>Invariant\<close>

text \<open>
  An unused slot holds no resource and no flag. \<^verbatim>\<open>comm_abstract_add_bio\<close> relies on it: it writes
  only the BIO pair, the flags and the generation.
\<close>

definition comm_clean :: "comm_abstract \<Rightarrow> bool" where
  "comm_clean c \<longleftrightarrow> c_ssl c = None \<and> c_inbound c = [] \<and> c_outbound c = [] \<and>
     c_websocket_upgrade_barrier c = [] \<and> c_websocket c = None"

definition slot_ok :: "comm_abstract \<Rightarrow> bool" where
  "slot_ok c \<longleftrightarrow> (if comm_used c then c_generation c \<noteq> 0 else comm_clean c \<and> c_flags c = 0)"

definition table_wf :: "slot_table \<Rightarrow> bool" where
  "table_wf t \<longleftrightarrow>
     (case all_comms t of
        None \<Rightarrow> True
      | Some cs \<Rightarrow> length cs = max_comms t \<and> 64 \<le> max_comms t \<and> (\<forall>c \<in> set cs. slot_ok c))"

lemma slot_ok_zero [simp]: "slot_ok zero_comm" "\<not> comm_used zero_comm"
  by (simp_all add: slot_ok_def zero_comm_def comm_used_def comm_clean_def)

lemma slot_ok_removed [simp]: "slot_ok (removed_comm c)" "\<not> comm_used (removed_comm c)"
  by (simp_all add: removed_comm_def slot_ok_def comm_used_def comm_clean_def
      comm_free_inbound_buffers_def comm_free_outbound_buffers_def comm_websocket_free_state_def)

lemma removed_generation [simp]: "c_generation (removed_comm c) = c_generation c"
  by (simp add: removed_comm_def comm_free_inbound_buffers_def comm_free_outbound_buffers_def
      comm_websocket_free_state_def)

lemma removed_caps [simp]: "c_caps (removed_comm c) = c_caps c"
  by (simp add: removed_comm_def comm_free_inbound_buffers_def comm_free_outbound_buffers_def
      comm_websocket_free_state_def)

lemma empty_table_wf: "table_wf empty_table"
  by (simp add: table_wf_def empty_table_def)

lemma slot_ptr_ok: "table_wf t \<Longrightarrow> slot_ptr_unlocked t s = Some c \<Longrightarrow> slot_ok c"
  by (auto simp: table_wf_def slot_ptr_unlocked_def split: option.splits if_splits)

lemma slot_ptr_set_slot:
  assumes "table_wf t" "slot_ptr_unlocked t s = Some c"
  shows "slot_ptr_unlocked (set_slot s c' t) s' =
           (if s' = s then Some c' else slot_ptr_unlocked t s')"
  using assms
  by (auto simp: slot_ptr_unlocked_def set_slot_def table_wf_def nth_list_update eq_nat_nat_iff
      split: option.splits if_splits)

lemma set_slot_wf:
  assumes "table_wf t" "slot_ok c'"
  shows "table_wf (set_slot s c' t)"
  using assms set_update_subset_insert by (fastforce simp: table_wf_def set_slot_def split: option.splits)

lemma resolve_set_slot:
  assumes "table_wf t" "slot_ptr_unlocked t s = Some c"
  shows "resolve_slot_unlocked (set_slot s c' t) s' =
           (if s' = s then (if comm_used c' then Some c' else None) else resolve_slot_unlocked t s')"
  using slot_ptr_set_slot [OF assms] by (simp add: resolve_slot_unlocked_def)

lemma resolve_ptr:
  "resolve_slot_unlocked t s = Some c \<Longrightarrow> slot_ptr_unlocked t s = Some c \<and> comm_used c"
  by (simp add: resolve_slot_unlocked_def split: option.splits if_splits)

section \<open>Growth\<close>

lemma double_until_ge: "0 < m \<Longrightarrow> required \<le> double_until required m \<and> m \<le> double_until required m"
proof (induction required m rule: double_until.induct)
  case (1 required m)
  then show ?case by (subst (1 2) double_until.simps) fastforce
qed

text \<open>
  Growing keeps every slot: inside the old range a slot is unchanged, and a slot that appears is
  the zero slot.
\<close>

definition extends_table :: "slot_table \<Rightarrow> slot_table \<Rightarrow> bool" where
  "extends_table t t' \<longleftrightarrow>
     (\<forall>s. slot_ptr_unlocked t' s = slot_ptr_unlocked t s \<or>
          slot_ptr_unlocked t s = None \<and> slot_ptr_unlocked t' s = Some zero_comm)"

lemma extends_table_refl [simp]: "extends_table t t"
  by (simp add: extends_table_def)

lemma extends_table_trans: "extends_table t u \<Longrightarrow> extends_table u v \<Longrightarrow> extends_table t v"
  unfolding extends_table_def by (metis option.distinct(1))

lemma extends_resolve:
  "extends_table t t' \<Longrightarrow> resolve_slot_unlocked t' s = resolve_slot_unlocked t s"
  unfolding extends_table_def resolve_slot_unlocked_def
  by (metis (mono_tags, lifting) option.simps(4) option.simps(5) slot_ok_zero(2))

lemma ensure_capacity_spec:
  assumes wf: "table_wf t" and r: "ensure_capacity alloc_ok t n = (ok, t')"
  shows "table_wf t' \<and> extends_table t t' \<and> (ok \<longrightarrow> all_comms t' \<noteq> None \<and> n \<le> max_comms t')"
proof (cases "all_comms t")
  case None
  then show ?thesis
    using r double_until_ge [of 64 n]
    by (auto simp: ensure_capacity_def Let_def table_wf_def extends_table_def
        slot_ptr_unlocked_def split: if_splits)
next
  case (Some cs)
  have "0 < 2 * max_comms t" using wf Some by (simp add: table_wf_def)
  from double_until_ge [OF this, of n]
  have "table_wf t'" "ok \<longrightarrow> all_comms t' \<noteq> None \<and> n \<le> max_comms t'"
    using r wf Some by (auto simp: ensure_capacity_def Let_def table_wf_def split: if_splits)
  moreover have "extends_table t t'"
    using r wf Some \<open>n \<le> _ \<and> _ \<le> _\<close>
    by (auto simp: ensure_capacity_def Let_def table_wf_def extends_table_def
        slot_ptr_unlocked_def nth_append split: if_splits)
  ultimately show ?thesis by blast
qed

lemma scan_slot_spec:
  "s \<le> scan_slot cs s \<and> (\<forall>i. s \<le> i \<and> i < scan_slot cs s \<longrightarrow> i < length cs \<and> comm_used (cs ! i)) \<and>
   (scan_slot cs s < length cs \<longrightarrow> \<not> comm_used (cs ! scan_slot cs s))"
proof (induction cs s rule: scan_slot.induct)
  case (1 cs s)
  show ?case
  proof (cases "s < length cs \<and> comm_used (cs ! s)")
    case True
    then have "scan_slot cs s = scan_slot cs (s + 1)" by (subst scan_slot.simps) simp
    then show ?thesis using 1 [OF True] True
      by (metis Suc_eq_plus1 Suc_leD le_neq_implies_less Suc_leI)
  next
    case False
    then have "scan_slot cs s = s" by (subst scan_slot.simps) auto
    then show ?thesis using False by auto
  qed
qed

lemma find_slot_spec:
  assumes wf: "table_wf t" and some: "all_comms t = Some cs"
    and r: "find_slot alloc_ok t = (s, t')"
  shows "table_wf t' \<and> extends_table t t' \<and> 1 \<le> s \<and> resolve_slot_unlocked t (int s) = None \<and>
     (\<forall>i. 1 \<le> i \<and> i < s \<longrightarrow> resolve_slot_unlocked t (int i) \<noteq> None)"
proof -
  have s: "s = scan_slot cs 1" using r some
    by (auto simp: find_slot_def RESERVED_SLOTS_def Let_def split: if_splits)
  have t': "t' = t \<or> t' = snd (ensure_capacity alloc_ok t (s + 1))" using r
    by (auto simp: find_slot_def Let_def split: if_splits)
  then have "table_wf t' \<and> extends_table t t'"
    using ensure_capacity_spec [OF wf, of alloc_ok "s + 1"] wf
    by (metis extends_table_refl prod.collapse)
  moreover have "length cs = max_comms t" using wf some by (simp add: table_wf_def)
  ultimately show ?thesis
    using scan_slot_spec [of 1 cs] some
    by (auto simp: s resolve_slot_unlocked_def slot_ptr_unlocked_def)
qed

section \<open>Contracts of assignment and removal\<close>

text \<open>What the array holds at a slot, growth included: a slot beyond the array is the zero slot.\<close>

definition raw_slot :: "slot_table \<Rightarrow> int \<Rightarrow> comm_abstract" where
  "raw_slot t s = (case slot_ptr_unlocked t s of Some c \<Rightarrow> c | None \<Rightarrow> zero_comm)"

definition assigned_comm ::
  "nat option \<Rightarrow> nat option \<Rightarrow> u32 \<Rightarrow> comm_abstract \<Rightarrow> comm_abstract" where
  "assigned_comm rbio wbio flags c =
     (if comm_used c then removed_comm c else c)
       \<lparr>c_rbio := rbio, c_wbio := wbio, c_flags := flags,
        c_generation := next_generation (c_generation c)\<rparr>"

lemma next_generation_nonzero [simp]: "next_generation g \<noteq> 0"
  by (auto simp: next_generation_def Let_def)

lemma raw_slot_ok: "table_wf t \<Longrightarrow> slot_ok (raw_slot t s)"
  by (auto simp: raw_slot_def intro: slot_ptr_ok split: option.splits)

lemma extends_raw: "extends_table t t' \<Longrightarrow> raw_slot t' s = raw_slot t s"
  unfolding extends_table_def raw_slot_def by (metis option.simps(4) option.simps(5))

lemma raw_resolve:
  "resolve_slot_unlocked t s = (if comm_used (raw_slot t s) then Some (raw_slot t s) else None)"
  by (simp add: resolve_slot_unlocked_def raw_slot_def split: option.splits)

lemma raw_set_slot:
  "table_wf t \<Longrightarrow> slot_ptr_unlocked t s = Some c \<Longrightarrow>
     raw_slot (set_slot s c' t) s' = (if s' = s then c' else raw_slot t s')"
  by (simp add: raw_slot_def slot_ptr_set_slot)

lemma assigned_used [simp]:
  "rbio \<noteq> None \<or> wbio \<noteq> None \<Longrightarrow> comm_used (assigned_comm rbio wbio flags c)"
  by (auto simp: assigned_comm_def comm_used_def)

lemma assigned_ok [simp]:
  "rbio \<noteq> None \<or> wbio \<noteq> None \<Longrightarrow> slot_ok (assigned_comm rbio wbio flags c)"
  by (simp add: slot_ok_def) (simp add: assigned_comm_def)

lemma assigned_clean: "slot_ok c \<Longrightarrow> comm_clean (assigned_comm rbio wbio flags c)"
  using slot_ok_removed [of c]
  by (auto simp: slot_ok_def assigned_comm_def comm_clean_def split: if_splits)

lemma remove_spec:
  assumes wf: "table_wf t" and r: "comm_abstract_remove unix_path t s = (rel, t')"
  shows "table_wf t' \<and>
    rel = (if comm_used (raw_slot t s) then release_actions unix_path (raw_slot t s) else []) \<and>
    (\<forall>s'. raw_slot t' s' = (if s' = s \<and> comm_used (raw_slot t s)
                            then removed_comm (raw_slot t s) else raw_slot t s'))"
proof (cases "resolve_slot_unlocked t s")
  case None
  then show ?thesis using r wf
    by (auto simp: comm_abstract_remove_def raw_resolve split: if_splits)
next
  case (Some c)
  then have c: "slot_ptr_unlocked t s = Some c" "comm_used c" "raw_slot t s = c"
    using resolve_ptr [OF Some] by (auto simp: raw_slot_def)
  have t': "t' = set_slot s (removed_comm c) t" "rel = release_actions unix_path c"
    using r Some by (auto simp: comm_abstract_remove_def)
  then show ?thesis using c set_slot_wf [OF wf] by (simp add: raw_set_slot [OF wf c(1)])
qed

lemma assign_at_spec:
  assumes wf: "table_wf t" and c: "slot_ptr_unlocked t s = Some c" "\<not> comm_used c"
    and bio: "rbio \<noteq> None \<or> wbio \<noteq> None"
    and t': "t' = set_slot s (c\<lparr>c_rbio := rbio, c_wbio := wbio, c_flags := flags,
                               c_generation := next_generation (c_generation c)\<rparr>) t"
  shows "table_wf t' \<and>
    (\<forall>s'. raw_slot t' s' = (if s' = s then assigned_comm rbio wbio flags c else raw_slot t s'))"
proof -
  have "t' = set_slot s (assigned_comm rbio wbio flags c) t"
    using c(2) by (simp add: t' assigned_comm_def)
  then show ?thesis using set_slot_wf [OF wf] bio by (simp add: raw_set_slot [OF wf c(1)])
qed

lemma first_free_slot_spec:
  assumes wf: "table_wf t" and ac: "all_comms t = Some cs" and out: "slot < 0 \<or> slot \<ge> comm_max_slot t"
    and r: "add_bio_slot alloc_ok unix_path t slot = (s, rel, t')"
  shows "table_wf t' \<and> extends_table t t' \<and> rel = [] \<and> 1 \<le> s \<and> \<not> comm_used (raw_slot t s) \<and>
    (\<forall>i. 1 \<le> i \<and> i < s \<longrightarrow> comm_used (raw_slot t i))"
proof -
  obtain n where f: "find_slot alloc_ok t = (n, t')" "s = int n" "rel = []"
    using r out by (auto simp: add_bio_slot_def split: prod.splits)
  note spec = find_slot_spec [OF wf ac f(1)]
  have "comm_used (raw_slot t i)" if "1 \<le> i" "i < s" for i
  proof -
    have "1 \<le> nat i \<and> nat i < n" using that f by linarith
    with spec have "resolve_slot_unlocked t (int (nat i)) \<noteq> None" by blast
    then show ?thesis using that by (auto simp: raw_resolve split: if_splits)
  qed
  then show ?thesis using spec f by (auto simp: raw_resolve split: if_splits)
qed

lemma given_slot_spec:
  assumes wf: "table_wf t" and ac: "all_comms t = Some cs" and "in": "0 \<le> slot" "slot < comm_max_slot t"
    and r: "add_bio_slot alloc_ok unix_path t slot = (s, rel, t')"
  shows "s = slot \<and> table_wf t' \<and> slot_ptr_unlocked t' slot \<noteq> None \<and>
    rel = (if comm_used (raw_slot t slot) then release_actions unix_path (raw_slot t slot) else []) \<and>
    (\<forall>v. raw_slot t' v = (if v = slot \<and> comm_used (raw_slot t slot)
                          then removed_comm (raw_slot t slot) else raw_slot t v))"
proof -
  have m: "s = slot" "comm_abstract_remove unix_path t slot = (rel, t')"
    using r "in" by (auto simp: add_bio_slot_def comm_abstract_get_def comm_abstract_remove_def
        split: option.splits)
  have "slot_ptr_unlocked t' slot \<noteq> None"
    using m(2) "in" ac
    by (auto simp: comm_abstract_remove_def slot_ptr_unlocked_def set_slot_def comm_max_slot_def
        split: option.splits)
  with m remove_spec [OF wf m(2)] show ?thesis by blast
qed

text \<open>
  Success of \<open>comm_abstract_add_bio\<close> assigns exactly one slot and failure keeps the contents of
  every slot. A slot chosen by the function is the first free one after the reserved ones.
\<close>

lemma add_bio_spec:
  assumes wf: "table_wf t"
    and r: "comm_abstract_add_bio alloc_ok unix_path t rbio wbio slot flags = (ret, rel, t')"
  shows "table_wf t' \<and>
    (if ret < 0 then ret = -1 \<and> rel = [] \<and> (\<forall>s. raw_slot t' s = raw_slot t s)
     else (rbio \<noteq> None \<or> wbio \<noteq> None) \<and>
       rel = (if comm_used (raw_slot t ret) then release_actions unix_path (raw_slot t ret) else []) \<and>
       (\<forall>s. raw_slot t' s =
          (if s = ret then assigned_comm rbio wbio flags (raw_slot t ret) else raw_slot t s)) \<and>
       (ret = slot \<or> 1 \<le> ret \<and> \<not> comm_used (raw_slot t ret) \<and>
          (\<forall>i. 1 \<le> i \<and> i < ret \<longrightarrow> comm_used (raw_slot t i))))"
proof (cases "rbio = None \<and> wbio = None")
  case True
  then show ?thesis using r wf by (auto simp: comm_abstract_add_bio_def)
next
  case bio: False
  obtain ok t1 where e: "ensure_capacity alloc_ok t 2 = (ok, t1)" by fastforce
  note t1 = ensure_capacity_spec [OF wf e]
  then have raw1: "raw_slot t1 v = raw_slot t v" for v by (simp add: extends_raw)
  show ?thesis
  proof (cases ok)
    case False
    then show ?thesis using r bio e t1 raw1 by (auto simp: comm_abstract_add_bio_def)
  next
    case ok: True
    then obtain cs where cs: "all_comms t1 = Some cs" using t1 by blast
    obtain s rl t2 where a: "add_bio_slot alloc_ok unix_path t1 slot = (s, rl, t2)"
      by (metis prod_cases3)
    have wf2: "table_wf t2" and nonneg: "0 \<le> s"
      and none: "slot_ptr_unlocked t2 s = None \<Longrightarrow> rl = [] \<and> (\<forall>v. raw_slot t2 v = raw_slot t v)"
      and rl: "rl = (if comm_used (raw_slot t s) then release_actions unix_path (raw_slot t s) else [])"
      and raw2: "\<forall>v. raw_slot t2 v = (if v = s \<and> comm_used (raw_slot t s)
                          then removed_comm (raw_slot t s) else raw_slot t v)"
      and which: "s = slot \<or> 1 \<le> s \<and> \<not> comm_used (raw_slot t s) \<and>
                    (\<forall>i. 1 \<le> i \<and> i < s \<longrightarrow> comm_used (raw_slot t i))"
      using first_free_slot_spec [OF conjunct1 [OF t1] cs _ a]
        given_slot_spec [OF conjunct1 [OF t1] cs _ _ a]
      by (cases "slot < 0 \<or> slot \<ge> comm_max_slot t1"; auto simp: raw1 extends_raw)+
    show ?thesis
    proof (cases "slot_ptr_unlocked t2 s")
      case None
      then show ?thesis using r bio e ok a none wf2 by (auto simp: comm_abstract_add_bio_def)
    next
      case (Some c)
      then have c: "c = raw_slot t2 s" by (simp add: raw_slot_def)
      then have nu: "\<not> comm_used c" using raw2 by simp
      have eq: "assigned_comm rbio wbio flags c = assigned_comm rbio wbio flags (raw_slot t s)"
        using raw2 by (auto simp: c assigned_comm_def)
      have t': "ret = s" "rel = rl"
        "t' = set_slot s (c\<lparr>c_rbio := rbio, c_wbio := wbio, c_flags := flags,
                c_generation := next_generation (c_generation c)\<rparr>) t2"
        using r bio e ok a Some by (auto simp: comm_abstract_add_bio_def)
      have "rbio \<noteq> None \<or> wbio \<noteq> None" using bio by simp
      with assign_at_spec [OF wf2 Some nu this t'(3)] show ?thesis
        using nonneg rl which raw2 t'(1,2) eq by simp
    qed
  qed
qed

section \<open>Generations over whole runs\<close>

text \<open>
  A sequence of assignments and removals; the run returns the slots that were assigned, in order.
\<close>

datatype table_op = Add "nat option" "nat option" int u32 | Remove int

fun table_step ::
  "(nat \<Rightarrow> bool) \<Rightarrow> (nat \<Rightarrow> byte list option) \<Rightarrow> slot_table \<Rightarrow> table_op \<Rightarrow> int list \<times> slot_table" where
  "table_step alloc_ok unix_path t (Add rbio wbio slot flags) =
     (let (ret, rel, t') = comm_abstract_add_bio alloc_ok unix_path t rbio wbio slot flags
      in (if ret < 0 then [] else [ret], t'))"
| "table_step alloc_ok unix_path t (Remove slot) =
     ([], snd (comm_abstract_remove unix_path t slot))"

fun table_run ::
  "(nat \<Rightarrow> bool) \<Rightarrow> (nat \<Rightarrow> byte list option) \<Rightarrow> slot_table \<Rightarrow> table_op list \<Rightarrow> int list \<times> slot_table"
where
  "table_run alloc_ok unix_path t [] = ([], t)"
| "table_run alloc_ok unix_path t (x # xs) =
     (let (a, t1) = table_step alloc_ok unix_path t x;
          (as, t2) = table_run alloc_ok unix_path t1 xs in (a @ as, t2))"

lemma table_step_spec:
  assumes wf: "table_wf t" and r: "table_step alloc_ok unix_path t x = (as, t')"
  shows "table_wf t' \<and>
    c_generation (raw_slot t' s) = (next_generation ^^ count_list as s) (c_generation (raw_slot t s))"
proof (cases x)
  case (Add rbio wbio slot flags)
  obtain ret rel t1 where
    a: "comm_abstract_add_bio alloc_ok unix_path t rbio wbio slot flags = (ret, rel, t1)"
    by (metis prod_cases3)
  then show ?thesis using add_bio_spec [OF wf a] r Add
    by (auto simp: assigned_comm_def split: if_splits)
next
  case (Remove slot)
  obtain rel t1 where m: "comm_abstract_remove unix_path t slot = (rel, t1)" by fastforce
  then show ?thesis using remove_spec [OF wf m] r Remove by auto
qed

lemma table_run_spec:
  "table_wf t \<Longrightarrow> table_run alloc_ok unix_path t xs = (as, t') \<Longrightarrow>
     table_wf t' \<and>
     c_generation (raw_slot t' s) = (next_generation ^^ count_list as s) (c_generation (raw_slot t s))"
proof (induction xs arbitrary: t as)
  case (Cons x xs)
  obtain a t1 where st: "table_step alloc_ok unix_path t x = (a, t1)" by fastforce
  obtain bs where rn: "table_run alloc_ok unix_path t1 xs = (bs, t')" "as = a @ bs"
    using Cons.prems(2) st by (auto split: prod.splits)
  show ?case
    using table_step_spec [OF Cons.prems(1) st, of s] Cons.IH [OF _ rn(1)]
    by (simp add: rn(2) add.commute [of "count_list a s"] funpow_add)
qed simp

lemma unat_less_2p64: "unat (g :: u64) < 2 ^ 64"
proof -
  have "unat g < 2 ^ LENGTH(64)" by (rule unsigned_less)
  then show ?thesis by simp
qed

lemma unat_next_generation: "unat (next_generation g) = unat g mod (2 ^ 64 - 1) + 1"
proof (cases "g = - 1")
  case True
  then show ?thesis by (simp add: next_generation_def unsigned_minus_1_eq_mask mask_eq_exp_minus_1)
next
  case False
  then have "g + 1 \<noteq> 0" by (metis add.commute add_left_imp_eq add.right_inverse)
  then have u: "unat (g + 1) = unat g + 1" "next_generation g = g + 1"
    using unatSuc [of g] by (simp_all add: next_generation_def add.commute)
  have "unat (g + 1) < 2 ^ 64" by (rule unat_less_2p64)
  then show ?thesis using u by simp
qed

lemma unat_next_generation_pow:
  "unat ((next_generation ^^ Suc k) g) = (unat g + k) mod (2 ^ 64 - 1) + 1"
proof (induction k)
  case 0
  then show ?case by (simp only: funpow.simps comp_apply id_apply unat_next_generation add_0_right)
next
  case (Suc k)
  have "unat ((next_generation ^^ Suc (Suc k)) g)
      = unat ((next_generation ^^ Suc k) g) mod (2 ^ 64 - 1) + 1"
    by (simp only: funpow.simps(2) [of "Suc k"] comp_apply unat_next_generation)
  also have "\<dots> = (unat g + Suc k) mod (2 ^ 64 - 1) + 1"
    by (simp only: Suc.IH mod_add_left_eq) (simp only: add.assoc add_Suc_right One_nat_def add_0_right)
  finally show ?case .
qed

lemma generation_cycle:
  assumes "g \<noteq> 0" "0 < k" "k < 2 ^ 64 - 1"
  shows "(next_generation ^^ k) g \<noteq> g"
proof
  assume eq: "(next_generation ^^ k) g = g"
  obtain j where k: "k = Suc j" using assms(2) gr0_implies_Suc by blast
  obtain x where x: "unat g = Suc x" using assms(1) by (metis not0_implies_Suc unat_eq_zero)
  have "(Suc x + j) mod (2 ^ 64 - 1) + 1 = Suc x"
    using unat_next_generation_pow [of j g] eq k x by metis
  then have "(x + k) mod (2 ^ 64 - 1) = x" by (simp add: k)
  moreover have "x < 2 ^ 64 - 1" using x unat_less_2p64 [of g] by simp
  ultimately have "(x + k) mod (2 ^ 64 - 1) = (x + 0) mod (2 ^ 64 - 1)" by simp
  then have "(2 ^ 64 - 1) dvd k" by (metis add_diff_cancel_left' le_add1 mod_eq_dvd_iff_nat add_0_right)
  with assms show False by (auto dest: dvd_imp_le)
qed

section \<open>Removal of the whole table\<close>

definition slot_releases :: "(nat \<Rightarrow> byte list option) \<Rightarrow> comm_abstract \<Rightarrow> release list" where
  "slot_releases unix_path c = (if comm_used c then release_actions unix_path c else [])"

lemma remove_slots_spec:
  "table_wf t \<Longrightarrow> distinct is \<Longrightarrow>
     fst (remove_slots unix_path t is) =
     concat (map (\<lambda>i. slot_releases unix_path (raw_slot t (int i))) is)"
proof (induction "is" arbitrary: t)
  case (Cons i "is")
  obtain rel t1 where m: "comm_abstract_remove unix_path t (int i) = (rel, t1)" by fastforce
  note spec = remove_spec [OF Cons.prems(1) m]
  have "map (\<lambda>j. slot_releases unix_path (raw_slot t1 (int j))) is =
        map (\<lambda>j. slot_releases unix_path (raw_slot t (int j))) is"
    using spec Cons.prems(2) by (auto intro!: map_cong)
  moreover have "rel = slot_releases unix_path (raw_slot t (int i))"
    using spec by (simp add: slot_releases_def)
  ultimately show ?case using Cons.IH [OF conjunct1 [OF spec]] Cons.prems(2)
    by (simp add: m split_beta cong: map_cong)
qed simp

lemma remove_all_spec:
  assumes "table_wf t" "all_comms t = Some cs"
  shows "comm_abstract_remove_all unix_path t =
    (concat (map (slot_releases unix_path) cs), empty_table)"
proof -
  have len: "length cs = max_comms t" using assms by (simp add: table_wf_def)
  then have "map (\<lambda>i. slot_releases unix_path (raw_slot t (int i))) [0..<max_comms t]
      = map (slot_releases unix_path) cs"
    using assms(2) by (auto intro!: nth_equalityI simp: raw_slot_def slot_ptr_unlocked_def)
  then show ?thesis
    using assms remove_slots_spec [OF assms(1), of "[0..<max_comms t]" unix_path]
    by (simp add: comm_abstract_remove_all_def)
qed

section \<open>Properties\<close>


text \<open>
  C19. Removing a connection asks for the release of each of its resources exactly once: its TLS
  object, its BIOs (once when reading and writing share one BIO) and the pathname of a Unix-domain
  listener, and of nothing else. Afterwards the slot is unused, holds no buffer and no flag, and no
  other slot has changed.
\<close>

theorem remove_releases_each_resource_once:
  assumes "table_wf t" and "comm_abstract_get t slot = Some c"
    and "comm_abstract_remove unix_path t slot = (rel, t')"
  shows "distinct rel \<and>
    (\<forall>x. Free_ssl x \<in> set rel \<longleftrightarrow> c_ssl c = Some x) \<and>
    (\<forall>b. Free_bio b \<in> set rel \<longleftrightarrow> c_rbio c = Some b \<or> c_wbio c = Some b) \<and>
    (\<forall>p. Unlink p \<in> set rel \<longleftrightarrow>
       has_flag (c_flags c) C_SOCKET_LISTENING \<and> (\<exists>b. c_rbio c = Some b \<and> unix_path b = Some p)) \<and>
    table_wf t' \<and> comm_abstract_get t' slot = None \<and> comm_get_flags t' slot = 0 \<and>
    comm_clean (raw_slot t' slot) \<and> (\<forall>s. s \<noteq> slot \<longrightarrow> comm_abstract_get t' s = comm_abstract_get t s)"
proof -
  have c: "raw_slot t slot = c" "comm_used c"
    using assms(2) by (auto simp: comm_abstract_get_def raw_resolve split: if_splits)
  note spec = remove_spec [OF assms(1,3), unfolded c(1)]
  have rel: "rel = release_actions unix_path c" using spec c(2) by simp
  have rest: "table_wf t' \<and> comm_abstract_get t' slot = None \<and> comm_get_flags t' slot = 0 \<and>
    comm_clean (raw_slot t' slot) \<and> (\<forall>s. s \<noteq> slot \<longrightarrow> comm_abstract_get t' s = comm_abstract_get t s)"
    using spec c(2) slot_ok_removed [of c]
    by (simp add: comm_abstract_get_def comm_get_flags_def raw_resolve slot_ok_def)
  have d: "distinct rel"
    by (auto simp: rel release_actions_def)
  have x: "Free_ssl x \<in> set rel \<longleftrightarrow> c_ssl c = Some x" for x
    by (auto simp: rel release_actions_def)
  have b: "Free_bio b \<in> set rel \<longleftrightarrow> c_rbio c = Some b \<or> c_wbio c = Some b" for b
    by (auto simp: rel release_actions_def)
  have p: "Unlink p \<in> set rel \<longleftrightarrow>
      has_flag (c_flags c) C_SOCKET_LISTENING \<and> (\<exists>b. c_rbio c = Some b \<and> unix_path b = Some p)" for p
    by (auto simp: rel release_actions_def mux_simps bind_eq_Some_conv)
  show ?thesis by (intro conjI allI d x b p) (use rest in \<open>blast+\<close>)
qed

text \<open>
  C14. A pair of a slot number and its generation is never mistaken for a later connection: if a
  slot with generation \<open>g\<close> has been assigned again at least once, in fewer than \<open>2 ^ 64 - 1\<close>
  assignments of the whole table, the slot's generation is not \<open>g\<close>, whatever assignments and
  removals happened in between (the 64-bit counter wraps and skips 0).
\<close>

theorem stale_generation_detected:
  assumes "table_wf t" and "comm_abstract_generation t slot = g" and "g \<noteq> 0"
    and "table_run alloc_ok unix_path t xs = (assigned, t')"
    and "slot \<in> set assigned" and "length assigned < 2 ^ 64 - 1"
  shows "comm_abstract_generation t' slot \<noteq> g"
proof -
  have g: "c_generation (raw_slot t slot) = g"
    using assms(2,3) by (auto simp: comm_abstract_generation_def raw_resolve split: if_splits)
  have "c_generation (raw_slot t' slot) = (next_generation ^^ count_list assigned slot) g"
    using table_run_spec [OF assms(1,4)] g by blast
  moreover have "0 < count_list assigned slot" using assms(5) by (simp add: count_list_0_iff gr0_conv_Suc not0_implies_Suc)
  moreover have "count_list assigned slot < 2 ^ 64 - 1"
    using count_le_length [of assigned slot] assms(6) by linarith
  ultimately show ?thesis
    using generation_cycle [OF assms(3)] assms(3)
    by (simp add: comm_abstract_generation_def raw_resolve split: if_splits)
qed

text \<open>
  A reassigned slot keeps the client capabilities of the previous connection: neither
  \<^verbatim>\<open>comm_abstract_remove\<close> nor \<^verbatim>\<open>comm_abstract_add_bio\<close> resets \<^verbatim>\<open>caps\<close>.
\<close>

lemma capabilities_survive_reassignment:
  assumes "table_wf t" and "comm_abstract_remove unix_path t slot = (rel1, t1)"
    and "comm_abstract_add_bio alloc_ok unix_path t1 rbio wbio slot flags = (slot, rel2, t2)"
    and "0 \<le> slot"
  shows "c_caps (raw_slot t2 slot) = c_caps (raw_slot t slot)"
proof -
  note m = remove_spec [OF assms(1,2)]
  have "c_caps (raw_slot t2 slot) = c_caps (raw_slot t1 slot)"
    using add_bio_spec [OF conjunct1 [OF m] assms(3)] assms(4) by (simp add: assigned_comm_def)
  then show ?thesis using m by simp
qed

section \<open>Examples\<close>

text \<open>A first connection, added to the table that the program starts with.\<close>

definition example_comm :: comm_abstract where
  "example_comm = zero_comm\<lparr>c_rbio := Some 5, c_wbio := Some 5, c_flags := 7, c_generation := 1\<rparr>"

definition example_table :: slot_table where
  "example_table = \<lparr>all_comms = Some ((replicate 64 zero_comm)[1 := example_comm]), max_comms = 64\<rparr>"

lemma example_add:
  "comm_abstract_add_bio (\<lambda>_. True) (\<lambda>_. None) empty_table (Some 5) (Some 5) (-1) 7
   = (1, [], example_table)"
proof -
  have d: "double_until 2 64 = 64" by (simp add: double_until.simps)
  have s: "scan_slot (replicate 64 zero_comm) 1 = 1" by (subst scan_slot.simps) simp
  show ?thesis
    by (simp add: comm_abstract_add_bio_def empty_table_def ensure_capacity_def d add_bio_slot_def
        comm_max_slot_def find_slot_def RESERVED_SLOTS_def s [simplified] slot_ptr_unlocked_def
        set_slot_def example_table_def example_comm_def next_generation_def)
      (simp add: zero_comm_def)
qed

lemma example_wf: "table_wf example_table"
  using add_bio_spec [OF empty_table_wf example_add] by blast

lemma example_get: "comm_abstract_get example_table 1 = Some example_comm"
  by (simp add: comm_abstract_get_def resolve_slot_unlocked_def slot_ptr_unlocked_def
      example_table_def comm_used_def example_comm_def)


theorem remove_releases_each_resource_once_witness:
  "\<exists>t'. comm_abstract_remove (\<lambda>_. None) example_table 1 = ([Free_bio 5], t') \<and>
        comm_abstract_get t' 1 = None"
proof -
  obtain rel t' where r: "comm_abstract_remove (\<lambda>_. None) example_table 1 = (rel, t')" by fastforce
  moreover have "rel = [Free_bio 5]"
    using remove_spec [OF example_wf r] example_get
    by (auto simp: comm_abstract_get_def raw_resolve release_actions_def example_comm_def
        zero_comm_def split: if_splits)
  ultimately show ?thesis
    using remove_releases_each_resource_once [OF example_wf example_get r] by blast
qed

theorem stale_generation_detected_witness:
  "comm_abstract_generation example_table 1 = 1 \<and>
   comm_abstract_generation (snd (table_run (\<lambda>_. True) (\<lambda>_. None) example_table
     [Remove 1, Add (Some 6) (Some 6) 1 0])) 1 \<noteq> 1"
proof -
  let ?run = "table_run (\<lambda>_. True) (\<lambda>_. None) example_table [Remove 1, Add (Some 6) (Some 6) 1 0]"
  have g: "comm_abstract_generation example_table 1 = 1"
    using example_get by (simp add: comm_abstract_generation_def comm_abstract_get_def example_comm_def)
  have "fst ?run = [1]"
    by (simp add: comm_abstract_remove_def resolve_slot_unlocked_def slot_ptr_unlocked_def
        example_table_def example_comm_def comm_used_def comm_abstract_add_bio_def
        ensure_capacity_def add_bio_slot_def comm_max_slot_def set_slot_def removed_comm_def
        comm_abstract_get_def comm_websocket_free_state_def comm_free_outbound_buffers_def
        comm_free_inbound_buffers_def)
  then have r: "?run = ([1], snd ?run)" by (metis prod.collapse)
  show ?thesis using stale_generation_detected [OF example_wf g _ r] g by simp
qed

end
