(* ===== verification/Telnet_Parser.thy ===== *)
theory Telnet_Parser
  imports Comm_Types
begin

text \<open>
  The Telnet decoder \<^verbatim>\<open>comm_telnet_process_inbound\<close> of \<^verbatim>\<open>lib/comm/telnet.cpp\<close> with its negotiation
  record. The decoder is a byte-driven state machine whose state lives in the low bits of the slot
  flags between reads. The theory relates it to a plain stream decoder (\<open>telnet_decode\<close>), from which
  independence of the read boundaries and the round trips follow.
\<close>

section \<open>State\<close>

definition S_TELNET_DATA :: u32 where [flag_defs]: "S_TELNET_DATA = 0"
definition S_TELNET_IAC :: u32 where [flag_defs]: "S_TELNET_IAC = 1"
definition S_TELNET_IAC_WILL :: u32 where [flag_defs]: "S_TELNET_IAC_WILL = 2"
definition S_TELNET_IAC_WONT :: u32 where [flag_defs]: "S_TELNET_IAC_WONT = 3"
definition S_TELNET_IAC_DO :: u32 where [flag_defs]: "S_TELNET_IAC_DO = 4"
definition S_TELNET_IAC_DONT :: u32 where [flag_defs]: "S_TELNET_IAC_DONT = 5"
definition S_TELNET_SUBNEG :: u32 where [flag_defs]: "S_TELNET_SUBNEG = 6"
definition S_TELNET_SUBNEG_IAC :: u32 where [flag_defs]: "S_TELNET_SUBNEG_IAC = 7"

definition TELOPT_ECHO :: byte where "TELOPT_ECHO = 1"
definition TELOPT_SGA :: byte where "TELOPT_SGA = 3"
definition TELOPT_LINEMODE :: byte where "TELOPT_LINEMODE = 34"

text \<open>
  The four option sets are arrays of eight 32-bit words; \<open>tn_subopt\<close> is the first \<^verbatim>\<open>sb_len\<close> bytes of
  \<^verbatim>\<open>subopt_buf\<close>, whose size is 1024.
\<close>

record telnet_negotiation =
  tn_will :: "u32 list"
  tn_do :: "u32 list"
  tn_wont :: "u32 list"
  tn_dont :: "u32 list"
  tn_subopt :: "byte list"

definition SUBOPT_SIZE :: nat where "SUBOPT_SIZE = 1024"

definition no_negotiation :: telnet_negotiation where
  "no_negotiation = \<lparr>tn_will = replicate 8 0, tn_do = replicate 8 0, tn_wont = replicate 8 0,
     tn_dont = replicate 8 0, tn_subopt = []\<rparr>"

definition option_mask :: "byte \<Rightarrow> u32" where
  "option_mask opt = push_bit (unat (opt AND 31)) 1"

definition option_word :: "byte \<Rightarrow> nat" where
  "option_word opt = unat (drop_bit 5 opt)"

definition option_set :: "u32 list \<Rightarrow> byte \<Rightarrow> u32 list" where
  "option_set arr opt = arr[option_word opt := (arr ! option_word opt) OR option_mask opt]"

definition option_clear :: "u32 list \<Rightarrow> byte \<Rightarrow> u32 list" where
  "option_clear arr opt = arr[option_word opt := (arr ! option_word opt) AND NOT (option_mask opt)]"

definition option_test :: "u32 list \<Rightarrow> byte \<Rightarrow> bool" where
  "option_test arr opt \<longleftrightarrow> (arr ! option_word opt) AND option_mask opt \<noteq> 0"

definition THEY_WILL :: "telnet_negotiation \<Rightarrow> byte \<Rightarrow> bool" where
  "THEY_WILL ng = option_test (tn_will ng)"

definition PLEASE_DO :: "telnet_negotiation \<Rightarrow> byte \<Rightarrow> bool" where
  "PLEASE_DO ng = option_test (tn_do ng)"

definition THEY_WONT :: "telnet_negotiation \<Rightarrow> byte \<Rightarrow> bool" where
  "THEY_WONT ng = option_test (tn_wont ng)"

definition PLEASE_DONT :: "telnet_negotiation \<Rightarrow> byte \<Rightarrow> bool" where
  "PLEASE_DONT ng = option_test (tn_dont ng)"

section \<open>The decoder\<close>

definition subopt_push :: "telnet_negotiation \<Rightarrow> byte \<Rightarrow> telnet_negotiation" where
  "subopt_push ng b =
     (if length (tn_subopt ng) < SUBOPT_SIZE then ng\<lparr>tn_subopt := tn_subopt ng @ [b]\<rparr> else ng)"

text \<open>
  One iteration of the loop: the byte copied to \<^verbatim>\<open>dest\<close> if any, the new state, the negotiation, and
  whether the function returns to its caller (end of a subnegotiation).
\<close>

definition telnet_byte ::
  "u32 \<Rightarrow> telnet_negotiation \<Rightarrow> byte \<Rightarrow> byte list \<times> u32 \<times> telnet_negotiation \<times> bool" where
  "telnet_byte st ng b =
     (if st = S_TELNET_DATA then
        (if b = 255 then ([], S_TELNET_IAC, ng, False) else ([b], st, ng, False))
      else if st = S_TELNET_IAC then
        (if b = 251 then ([], S_TELNET_IAC_WILL, ng, False)
         else if b = 252 then ([], S_TELNET_IAC_WONT, ng, False)
         else if b = 253 then ([], S_TELNET_IAC_DO, ng, False)
         else if b = 254 then ([], S_TELNET_IAC_DONT, ng, False)
         else if b = 250 then ([], S_TELNET_SUBNEG, ng, False)
         else if b = 255 then ([b], S_TELNET_DATA, ng, False)
         else ([], S_TELNET_DATA, ng, False))
      else if st = S_TELNET_IAC_WILL then
        ([], S_TELNET_DATA,
         ng\<lparr>tn_will := option_set (tn_will ng) b, tn_wont := option_clear (tn_wont ng) b\<rparr>, False)
      else if st = S_TELNET_IAC_WONT then
        ([], S_TELNET_DATA,
         ng\<lparr>tn_wont := option_set (tn_wont ng) b, tn_will := option_clear (tn_will ng) b\<rparr>, False)
      else if st = S_TELNET_IAC_DO then
        ([], S_TELNET_DATA,
         ng\<lparr>tn_do := option_set (tn_do ng) b, tn_dont := option_clear (tn_dont ng) b\<rparr>, False)
      else if st = S_TELNET_IAC_DONT then
        ([], S_TELNET_DATA,
         ng\<lparr>tn_dont := option_set (tn_dont ng) b, tn_do := option_clear (tn_do ng) b\<rparr>, False)
      else if st = S_TELNET_SUBNEG then
        (if b = 255 then ([], S_TELNET_SUBNEG_IAC, ng, False)
         else ([], st, subopt_push ng b, False))
      else if st = S_TELNET_SUBNEG_IAC then
        (if b = 240 then ([], S_TELNET_DATA, ng, True)
         else if b = 255 then ([], S_TELNET_SUBNEG, subopt_push ng 255, False)
         else ([], S_TELNET_SUBNEG, ng, False))
      else ([], S_TELNET_DATA, ng, False))"

fun telnet_scan ::
  "u32 \<Rightarrow> telnet_negotiation \<Rightarrow> byte list \<Rightarrow> byte list \<times> nat \<times> u32 \<times> telnet_negotiation" where
  "telnet_scan st ng [] = ([], 0, st, ng)"
| "telnet_scan st ng (b # bs) =
     (case telnet_byte st ng b of
        (out, st', ng', True) \<Rightarrow> (out, 1, st', ng')
      | (out, st', ng', False) \<Rightarrow>
          (let (d, n, st'', ng'') = telnet_scan st' ng' bs in (out @ d, Suc n, st'', ng'')))"

text \<open>The result is the bytes copied to \<^verbatim>\<open>dest\<close>, \<^verbatim>\<open>*src_consumed\<close>, \<^verbatim>\<open>*state\<close> and \<^verbatim>\<open>*negotiation\<close>.\<close>

definition comm_telnet_process_inbound ::
  "byte list \<Rightarrow> u32 \<Rightarrow> telnet_negotiation \<Rightarrow> byte list \<times> nat \<times> u32 \<times> telnet_negotiation" where
  "comm_telnet_process_inbound src st ng = telnet_scan st (ng\<lparr>tn_subopt := []\<rparr>) src"

section \<open>The stream decoder\<close>

text \<open>
  Data bytes and state of the decoder never depend on the negotiation record, so they are those of
  a plain state machine over the stream, with no notion of calls.
\<close>

definition telnet_out :: "u32 \<Rightarrow> byte \<Rightarrow> byte list" where
  "telnet_out st b = fst (telnet_byte st no_negotiation b)"

definition telnet_next :: "u32 \<Rightarrow> byte \<Rightarrow> u32" where
  "telnet_next st b = fst (snd (telnet_byte st no_negotiation b))"

fun telnet_decode :: "u32 \<Rightarrow> byte list \<Rightarrow> byte list \<times> u32" where
  "telnet_decode st [] = ([], st)"
| "telnet_decode st (b # bs) =
     (let (d, st') = telnet_decode (telnet_next st b) bs in (telnet_out st b @ d, st'))"

text \<open>The escaping a client applies to data bytes and to subnegotiation bytes.\<close>

fun telnet_escape :: "byte list \<Rightarrow> byte list" where
  "telnet_escape [] = []"
| "telnet_escape (b # bs) = (if b = 255 then [255, 255] else [b]) @ telnet_escape bs"

text \<open>Option commands in a stream: the command byte (251 to 254) and the option.\<close>

definition telnet_command :: "u32 \<Rightarrow> byte \<Rightarrow> (byte \<times> byte) list" where
  "telnet_command st b =
     (if st = S_TELNET_IAC_WILL then [(251, b)]
      else if st = S_TELNET_IAC_WONT then [(252, b)]
      else if st = S_TELNET_IAC_DO then [(253, b)]
      else if st = S_TELNET_IAC_DONT then [(254, b)] else [])"

fun telnet_commands :: "u32 \<Rightarrow> byte list \<Rightarrow> (byte \<times> byte) list" where
  "telnet_commands st [] = []"
| "telnet_commands st (b # bs) = telnet_command st b @ telnet_commands (telnet_next st b) bs"

text \<open>The last of two opposite commands for an option decides.\<close>

fun last_command :: "byte \<Rightarrow> byte \<Rightarrow> byte \<Rightarrow> byte option \<Rightarrow> (byte \<times> byte) list \<Rightarrow> byte option" where
  "last_command yes no opt acc [] = acc"
| "last_command yes no opt acc ((c, p) # cs) =
     last_command yes no opt (if p = opt \<and> (c = yes \<or> c = no) then Some c else acc) cs"

section \<open>Option sets\<close>

lemma option_word_div: "option_word opt = unat opt div 32"
  by (simp add: option_word_def drop_bit_eq_div unat_div)

lemma option_mask_exp: "option_mask opt = 2 ^ (unat opt mod 32)"
proof -
  have "(opt AND 31) = take_bit 5 opt" by (simp add: take_bit_eq_mask mask_eq_exp_minus_1)
  then have "unat (opt AND 31) = unat opt mod 32"
    by (simp add: take_bit_eq_mod unat_mod)
  then show ?thesis by (simp add: option_mask_def push_bit_of_1)
qed

lemma option_test_bit: "option_test arr opt \<longleftrightarrow> bit (arr ! (unat opt div 32)) (unat opt mod 32)"
  by (simp add: option_test_def option_word_div option_mask_exp and_exp_eq_0_iff_not_bit)

lemma option_eq_iff:
  "(opt :: byte) = p \<longleftrightarrow> unat opt div 32 = unat p div 32 \<and> unat opt mod 32 = unat p mod 32"
  by (metis div_mult_mod_eq word_unat_eq_iff)

lemma option_word_less: "unat (opt :: byte) div 32 < 8"
proof -
  have "unat opt < 2 ^ LENGTH(8)" by (rule unsigned_less)
  then show ?thesis by simp
qed

lemma option_test_set:
  "length arr = 8 \<Longrightarrow> option_test (option_set arr p) opt \<longleftrightarrow> opt = p \<or> option_test arr opt"
  by (auto simp: option_test_bit option_set_def option_word_div option_mask_exp nth_list_update
      option_word_less bit_or_iff bit_exp_iff option_eq_iff [of opt p])

lemma option_test_clear:
  "length arr = 8 \<Longrightarrow> option_test (option_clear arr p) opt \<longleftrightarrow> opt \<noteq> p \<and> option_test arr opt"
  by (auto simp: option_test_bit option_clear_def option_word_div option_mask_exp nth_list_update
      option_word_less bit_and_iff bit_not_iff bit_exp_iff option_eq_iff [of opt p])

lemma option_test_none [simp]: "\<not> option_test (replicate 8 0) opt"
  by (simp add: option_test_bit option_word_less)

lemma length_option_set [simp]:
  "length (option_set arr p) = length arr" "length (option_clear arr p) = length arr"
  by (simp_all add: option_set_def option_clear_def)

section \<open>The decoder as a stream decoder\<close>

definition telnet_return :: "u32 \<Rightarrow> byte \<Rightarrow> bool" where
  "telnet_return st b \<longleftrightarrow> st = S_TELNET_SUBNEG_IAC \<and> b = 240"

definition telnet_neg :: "u32 \<Rightarrow> telnet_negotiation \<Rightarrow> byte \<Rightarrow> telnet_negotiation" where
  "telnet_neg st ng b = fst (snd (snd (telnet_byte st ng b)))"

lemma telnet_byte_split:
  "telnet_byte st ng b = (telnet_out st b, telnet_next st b, telnet_neg st ng b, telnet_return st b)"
  by (simp add: telnet_byte_def telnet_out_def telnet_next_def telnet_neg_def telnet_return_def
      flag_defs)

lemma telnet_scan_Cons:
  "telnet_scan st ng (b # bs) =
     (if telnet_return st b then (telnet_out st b, 1, telnet_next st b, telnet_neg st ng b)
      else let (d, n, st'', ng'') = telnet_scan (telnet_next st b) (telnet_neg st ng b) bs
           in (telnet_out st b @ d, Suc n, st'', ng''))"
  by (cases "telnet_return st b") (simp_all add: telnet_byte_split)

lemma telnet_scan_decode:
  "telnet_scan st ng bs = (d, n, st', ng') \<Longrightarrow>
     n \<le> length bs \<and> (bs \<noteq> [] \<longrightarrow> 0 < n) \<and> telnet_decode st (take n bs) = (d, st')"
proof (induction bs arbitrary: st ng d n st' ng')
  case (Cons b bs)
  show ?case
  proof (cases "telnet_return st b")
    case True
    then show ?thesis using Cons.prems by (auto simp: telnet_scan_Cons simp del: telnet_scan.simps)
  next
    case False
    obtain d1 n1 st1 ng1 where
      r: "telnet_scan (telnet_next st b) (telnet_neg st ng b) bs = (d1, n1, st1, ng1)"
      by (metis prod_cases4)
    then show ?thesis using Cons.prems Cons.IH [OF r] False
      by (auto simp: telnet_scan_Cons simp del: telnet_scan.simps)
  qed
qed simp

lemma telnet_decode_append:
  "telnet_decode st (xs @ ys) =
     (let (d, st') = telnet_decode st xs; (e, st'') = telnet_decode st' ys in (d @ e, st''))"
  by (induction xs arbitrary: st) (simp_all add: split_beta Let_def)

lemma telnet_process_consumes:
  "comm_telnet_process_inbound src st ng = (d, n, st', ng') \<Longrightarrow> src \<noteq> [] \<Longrightarrow>
     0 < n \<and> n \<le> length src"
  using telnet_scan_decode [of st "ng\<lparr>tn_subopt := []\<rparr>" src]
  by (auto simp: comm_telnet_process_inbound_def)

text \<open>
  The loop of the callers: decode, take the consumed bytes off and decode again until nothing is
  left. Each round starts from a zeroed negotiation record.
\<close>

function telnet_drive :: "u32 \<Rightarrow> byte list \<Rightarrow> byte list \<times> u32" where
  "telnet_drive st src =
     (if src = [] then ([], st)
      else case comm_telnet_process_inbound src st no_negotiation of (d, n, st', ng) \<Rightarrow>
        (let (e, st'') = telnet_drive st' (drop n src) in (d @ e, st'')))"
  by pat_completeness auto
termination
  by (relation "measure (length \<circ> snd)") (auto dest: telnet_process_consumes [OF sym])

declare telnet_drive.simps [simp del]

lemma telnet_drive_decode: "telnet_drive st src = telnet_decode st src"
proof (induction st src rule: telnet_drive.induct)
  case (1 st src)
  show ?case
  proof (cases "src = []")
    case True
    then show ?thesis by (simp add: telnet_drive.simps)
  next
    case False
    obtain d n st' ng where r: "comm_telnet_process_inbound src st no_negotiation = (d, n, st', ng)"
      by (metis prod_cases4)
    then have sc: "telnet_decode st (take n src) = (d, st')"
      using telnet_scan_decode unfolding comm_telnet_process_inbound_def by blast
    have ih: "telnet_drive st' (drop n src) = telnet_decode st' (drop n src)"
      using "1.IH" [OF False r [symmetric] refl refl] .
    have "telnet_decode st src = telnet_decode st (take n src @ drop n src)" by simp
    then show ?thesis
      unfolding telnet_decode_append sc by (simp add: telnet_drive.simps [of st src] False r ih)
  qed
qed

interpretation telnet_stream: stream_decoder telnet_drive "\<lambda>_. True"
  by unfold_locales (simp_all add: telnet_drive_decode telnet_decode_append)

section \<open>Bounds\<close>

lemma telnet_next_state: "telnet_next st b < 8"
  by (simp add: telnet_next_def telnet_byte_def flag_defs)

lemma telnet_decode_state: "st < 8 \<Longrightarrow> snd (telnet_decode st bs) < 8"
  by (induction bs arbitrary: st) (simp_all add: split_beta telnet_next_state)

lemma telnet_out_length: "length (telnet_out st b) \<le> 1"
  by (simp add: telnet_out_def telnet_byte_def flag_defs)

lemma telnet_decode_length: "length (fst (telnet_decode st bs)) \<le> length bs"
proof (induction bs arbitrary: st)
  case (Cons b bs)
  show ?case using Cons.IH [of "telnet_next st b"] telnet_out_length [of st b]
    by (simp add: split_beta)
qed simp

lemma telnet_neg_subopt:
  "length (tn_subopt ng) \<le> SUBOPT_SIZE \<Longrightarrow> length (tn_subopt (telnet_neg st ng b)) \<le> SUBOPT_SIZE"
  by (auto simp: telnet_neg_def telnet_byte_def subopt_push_def)

lemma telnet_scan_subopt:
  "length (tn_subopt ng) \<le> SUBOPT_SIZE \<Longrightarrow> telnet_scan st ng bs = (d, n, st', ng') \<Longrightarrow>
     length (tn_subopt ng') \<le> SUBOPT_SIZE"
proof (induction bs arbitrary: st ng d n st' ng')
  case (Cons b bs)
  then show ?case using telnet_neg_subopt [OF Cons.prems(1), of st b]
    by (fastforce simp: telnet_scan_Cons simp del: telnet_scan.simps split: if_splits prod.splits)
qed simp

text \<open>A state below 16 survives the trip through the slot flags.\<close>

lemma telnet_state_roundtrip:
  assumes "st < 16"
  shows "telnet_set_state f st AND M_TELNET_STATE = st"
proof -
  have "unat (st mod 16) = unat st" using assms by (simp add: unat_mod word_less_nat_alt)
  then have "take_bit 4 st = st" by (simp add: take_bit_eq_mod word_unat_eq_iff)
  moreover have "st AND M_TELNET_STATE = take_bit 4 st"
    by (simp add: flag_defs take_bit_eq_mask mask_eq_exp_minus_1)
  ultimately show ?thesis by simp
qed

section \<open>Round trips\<close>

lemma telnet_scan_data:
  "telnet_scan S_TELNET_DATA ng (telnet_escape d @ rest) =
     (let (e, n, st, ng') = telnet_scan S_TELNET_DATA ng rest
      in (d @ e, length (telnet_escape d) + n, st, ng'))"
proof (induction d)
  case (Cons b d)
  then show ?case by (simp add: telnet_byte_def flag_defs split_beta Let_def)
qed (simp add: split_beta Let_def)

lemma telnet_scan_subneg:
  "length (tn_subopt ng) \<le> SUBOPT_SIZE \<Longrightarrow>
   telnet_scan S_TELNET_SUBNEG ng (telnet_escape p @ 255 # 240 # rest) =
     ([], length (telnet_escape p) + 2, S_TELNET_DATA,
      ng\<lparr>tn_subopt := take SUBOPT_SIZE (tn_subopt ng @ p)\<rparr>)"
proof (induction p arbitrary: ng)
  case Nil
  then show ?case by (simp add: telnet_byte_def flag_defs)
next
  case (Cons b p)
  have "telnet_scan S_TELNET_SUBNEG (subopt_push ng b) (telnet_escape p @ 255 # 240 # rest) =
     ([], length (telnet_escape p) + 2, S_TELNET_DATA,
      ng\<lparr>tn_subopt := take SUBOPT_SIZE (tn_subopt ng @ b # p)\<rparr>)"
    using Cons.IH [of "subopt_push ng b"] Cons.prems by (simp add: subopt_push_def take_Cons')
  then show ?case by (cases "b = 255") (simp_all add: telnet_byte_def flag_defs)
qed

section \<open>Option commands\<close>

definition arrays_ok :: "telnet_negotiation \<Rightarrow> bool" where
  "arrays_ok ng \<longleftrightarrow> length (tn_will ng) = 8 \<and> length (tn_wont ng) = 8 \<and>
     length (tn_do ng) = 8 \<and> length (tn_dont ng) = 8"

text \<open>The record agrees with the last command seen for an option, for both command pairs.\<close>

definition option_agrees ::
  "byte \<Rightarrow> telnet_negotiation \<Rightarrow> byte option \<Rightarrow> byte option \<Rightarrow> bool" where
  "option_agrees opt ng w d \<longleftrightarrow>
     (THEY_WILL ng opt \<longleftrightarrow> w = Some 251) \<and> (THEY_WONT ng opt \<longleftrightarrow> w = Some 252) \<and>
     (PLEASE_DO ng opt \<longleftrightarrow> d = Some 253) \<and> (PLEASE_DONT ng opt \<longleftrightarrow> d = Some 254)"

lemma telnet_neg_agrees:
  assumes "arrays_ok ng" "option_agrees opt ng w d"
  shows "arrays_ok (telnet_neg st ng b) \<and>
    option_agrees opt (telnet_neg st ng b)
      (last_command 251 252 opt w (telnet_command st b))
      (last_command 253 254 opt d (telnet_command st b))"
  using assms
  by (auto simp: telnet_neg_def telnet_byte_def telnet_command_def arrays_ok_def option_agrees_def
      THEY_WILL_def THEY_WONT_def PLEASE_DO_def PLEASE_DONT_def option_test_set option_test_clear
      subopt_push_def flag_defs)

lemma last_command_append:
  "last_command y n opt acc (xs @ ys) = last_command y n opt (last_command y n opt acc xs) ys"
  by (induction xs arbitrary: acc) auto

lemma telnet_scan_agrees:
  "arrays_ok ng \<Longrightarrow> option_agrees opt ng w d \<Longrightarrow> telnet_scan st ng bs = (out, n, st', ng') \<Longrightarrow>
   option_agrees opt ng'
     (last_command 251 252 opt w (telnet_commands st (take n bs)))
     (last_command 253 254 opt d (telnet_commands st (take n bs)))"
proof (induction bs arbitrary: st ng w d out n st' ng')
  case (Cons b bs)
  note step = telnet_neg_agrees [OF Cons.prems(1,2), of st b]
  show ?case
  proof (cases "telnet_return st b")
    case True
    then show ?thesis using Cons.prems(3) step
      by (auto simp: telnet_scan_Cons simp del: telnet_scan.simps)
  next
    case False
    obtain out1 n1 where
      r: "telnet_scan (telnet_next st b) (telnet_neg st ng b) bs = (out1, n1, st', ng')"
      and n: "n = Suc n1"
      using Cons.prems(3) False
      by (auto simp: telnet_scan_Cons simp del: telnet_scan.simps split: prod.splits)
    show ?thesis
      using Cons.IH [OF conjunct1 [OF step] conjunct2 [OF step] r]
      by (simp add: n last_command_append)
  qed
qed simp

lemma no_negotiation_agrees:
  "arrays_ok no_negotiation" "option_agrees opt no_negotiation None None"
  by (simp_all add: arrays_ok_def option_agrees_def no_negotiation_def THEY_WILL_def THEY_WONT_def
      PLEASE_DO_def PLEASE_DONT_def)

section \<open>Properties\<close>

text \<open>
  C9. The application data a client sends does not depend on where the reads cut its Telnet stream:
  decoding the chunks one after the other, carrying only the state word, gives the same data bytes
  and the same final state as decoding their concatenation at once, from every start state and
  with option commands and subnegotiations anywhere in the stream.
\<close>

theorem telnet_data_independent_of_chunking:
  "feed_all telnet_drive st chunks = telnet_drive st (concat chunks)"
  by (rule telnet_stream.feed_all_concat) simp

text \<open>
  C20. A subnegotiation that arrives whole is delivered exactly: data before it comes out unescaped,
  the call stops right after its \<^verbatim>\<open>IAC SE\<close> whatever follows, and the record holds the unescaped option
  and parameters, cut at the 1024 bytes of \<^verbatim>\<open>subopt_buf\<close> and never beyond.
\<close>

theorem telnet_subnegotiation_roundtrip:
  "comm_telnet_process_inbound
     (telnet_escape pre @ [255, 250] @ telnet_escape sub @ [255, 240] @ rest) S_TELNET_DATA ng =
   (pre, length (telnet_escape pre) + length (telnet_escape sub) + 4, S_TELNET_DATA,
    ng\<lparr>tn_subopt := take SUBOPT_SIZE sub\<rparr>)"
proof -
  let ?ng = "ng\<lparr>tn_subopt := []\<rparr>"
  have "telnet_scan S_TELNET_DATA ?ng (255 # 250 # telnet_escape sub @ 255 # 240 # rest) =
      ([], length (telnet_escape sub) + 4, S_TELNET_DATA, ng\<lparr>tn_subopt := take SUBOPT_SIZE sub\<rparr>)"
    using telnet_scan_subneg [of ?ng sub rest] by (simp add: telnet_byte_def flag_defs)
  then show ?thesis by (simp add: comm_telnet_process_inbound_def telnet_scan_data)
qed



text \<open>
  A subnegotiation cut by a read boundary is not reassembled: the callers pass a zeroed record to
  every call, so the first call reports the first part (its \<^verbatim>\<open>sb_len\<close> is positive although no
  \<^verbatim>\<open>IAC SE\<close> was seen) and the second one reports the remainder as if it were a whole one.
\<close>

lemma split_subnegotiation_lost:
  "\<exists>ng1 ng2.
     comm_telnet_process_inbound [255, 250, 24, 0] S_TELNET_DATA no_negotiation
       = ([], 4, S_TELNET_SUBNEG, ng1) \<and> tn_subopt ng1 = [24, 0] \<and>
     comm_telnet_process_inbound [65, 255, 240] S_TELNET_SUBNEG no_negotiation
       = ([], 3, S_TELNET_DATA, ng2) \<and> tn_subopt ng2 = [65]"
  by (simp add: comm_telnet_process_inbound_def telnet_byte_def flag_defs subopt_push_def
      SUBOPT_SIZE_def no_negotiation_def)

end
