(* ===== verification/Websocket_Frame.thy ===== *)
theory Websocket_Frame
  imports Comm_Types
begin

text \<open>
  The pure part of the WebSocket codec in \<^verbatim>\<open>lib/comm/websocket.cpp\<close>: encoding of server frames,
  parsing and unmasking of one client frame, and the UTF-8 check on text messages. The theory relates
  them to the wire format of RFC 6455 (\<open>client_frame\<close>, \<open>parse_server_frame\<close>) and to the encoding of
  Unicode scalar values of RFC 3629 (\<open>utf8_encode\<close>).
\<close>

section \<open>Frames\<close>

text \<open>Low byte of a 64-bit size shifted right.\<close>

definition size_byte :: "u64 \<Rightarrow> nat \<Rightarrow> byte" where
  "size_byte n shift = ucast (drop_bit shift n)"

definition comm_websocket_encode_frame :: "byte list \<Rightarrow> byte \<Rightarrow> byte list option" where
  "comm_websocket_encode_frame payload opcode =
     (if opcode > 0x0f \<or> length payload > 2 ^ 64 - 1 then None
      else let size = of_nat (length payload) :: u64 in
      Some ([0x80 OR opcode] @
            (if length payload \<le> 125 then [size_byte size 0]
             else if length payload \<le> 0xffff then [126, size_byte size 8, size_byte size 0]
             else 127 # map (size_byte size) [56, 48, 40, 32, 24, 16, 8, 0]) @
            payload))"

text \<open>Accumulation of a big-endian length field.\<close>

definition be_size :: "u64 \<Rightarrow> byte list \<Rightarrow> u64" where
  "be_size = foldl (\<lambda>acc b. push_bit 8 acc OR ucast b)"

text \<open>
  The first part of the loop body of \<^verbatim>\<open>comm_websocket_process_inbound\<close>: what one look at the rest of
  the wire gives. \<open>Frame_partial\<close> is the \<^verbatim>\<open>break\<close> that waits for more bytes, \<open>Frame_invalid\<close> the failing
  return with its close code, and \<open>Frame\<close> carries the FIN bit, the opcode, the unmasked payload and
  the size of the frame on the wire.
\<close>

datatype frame_result = Frame_partial | Frame_invalid int | Frame bool byte "byte list" nat

definition K_MAX_MESSAGE_BYTES :: nat where "K_MAX_MESSAGE_BYTES = 64 * 1024"

definition unmask :: "byte list \<Rightarrow> byte list \<Rightarrow> byte list" where
  "unmask key data = map (\<lambda>i. (data ! i) XOR (key ! (i mod 4))) [0..<length data]"

definition ws_frame_body ::
  "byte list \<Rightarrow> bool \<Rightarrow> byte \<Rightarrow> u64 \<Rightarrow> nat \<Rightarrow> frame_result" where
  "ws_frame_body wire fin opcode payload_size header_size =
     (let control = (opcode AND 0x08 \<noteq> 0) in
      if length wire < header_size + 4 then Frame_partial
      else if (control \<and> (\<not> fin \<or> payload_size > 125)) \<or> unat payload_size > K_MAX_MESSAGE_BYTES
      then Frame_invalid 1009
      else let frame_size = header_size + 4 + unat payload_size in
      if length wire < frame_size then Frame_partial
      else Frame fin opcode
             (unmask (take 4 (drop header_size wire))
                     (take (unat payload_size) (drop (header_size + 4) wire)))
             frame_size)"

definition ws_next_frame :: "byte list \<Rightarrow> frame_result" where
  "ws_next_frame wire =
     (if length wire < 2 then Frame_partial
      else let first = wire ! 0; second = wire ! 1;
               fin = (first AND 0x80 \<noteq> 0);
               rsv = first AND 0x70;
               opcode = first AND 0x0f;
               masked = (second AND 0x80 \<noteq> 0);
               payload_size = second AND 0x7f in
      if rsv \<noteq> 0 \<or> \<not> masked \<or> (opcode \<ge> 3 \<and> opcode \<le> 7) \<or> opcode \<ge> 0x0b then Frame_invalid 1002
      else if payload_size = 126 then
        (if length wire < 4 then Frame_partial
         else ws_frame_body wire fin opcode (be_size 0 (take 2 (drop 2 wire))) 4)
      else if payload_size = 127 then
        (if length wire < 10 then Frame_partial
         else if wire ! 2 AND 0x80 \<noteq> 0 then Frame_invalid 1002
         else ws_frame_body wire fin opcode (be_size 0 (take 8 (drop 2 wire))) 10)
      else ws_frame_body wire fin opcode (ucast payload_size) 2)"

section \<open>UTF-8\<close>

text \<open>
  \<^verbatim>\<open>is_valid_utf8\<close>. The code point accumulates in a \<^verbatim>\<open>unsigned int\<close> that holds at most 21 bits, so
  \<^verbatim>\<open>(codepoint << 6) | bits\<close> is \<open>64 * codepoint + bits\<close>.
\<close>

fun utf8_continue :: "nat \<Rightarrow> byte list \<Rightarrow> nat option" where
  "utf8_continue cp [] = Some cp"
| "utf8_continue cp (b # bs) =
     (if b AND 0xc0 \<noteq> 0x80 then None else utf8_continue (64 * cp + unat (b AND 0x3f)) bs)"

definition utf8_lead :: "byte \<Rightarrow> (nat \<times> nat) option" where
  "utf8_lead b =
     (if b \<ge> 0xc2 \<and> b \<le> 0xdf then Some (unat (b AND 0x1f), 1)
      else if b \<ge> 0xe0 \<and> b \<le> 0xef then Some (unat (b AND 0x0f), 2)
      else if b \<ge> 0xf0 \<and> b \<le> 0xf4 then Some (unat (b AND 0x07), 3)
      else None)"

definition utf8_bad_codepoint :: "nat \<Rightarrow> nat \<Rightarrow> bool" where
  "utf8_bad_codepoint continuation_count cp \<longleftrightarrow>
     (continuation_count = 1 \<and> cp < 0x80) \<or> (continuation_count = 2 \<and> cp < 0x800) \<or>
     (continuation_count = 3 \<and> cp < 0x10000) \<or> (cp \<ge> 0xd800 \<and> cp \<le> 0xdfff) \<or> cp > 0x10ffff"

function is_valid_utf8 :: "byte list \<Rightarrow> bool" where
  "is_valid_utf8 [] = True"
| "is_valid_utf8 (b # bs) =
     (if b \<le> 0x7f then is_valid_utf8 bs
      else case utf8_lead b of
             None \<Rightarrow> False
           | Some (cp, n) \<Rightarrow>
               if n > length bs then False
               else case utf8_continue cp (take n bs) of
                      None \<Rightarrow> False
                    | Some cp' \<Rightarrow> \<not> utf8_bad_codepoint n cp' \<and> is_valid_utf8 (drop n bs))"
  by pat_completeness auto
termination by (relation "measure length") auto

section \<open>Close codes\<close>

definition websocket_close_code :: "byte list \<Rightarrow> nat" where
  "websocket_close_code payload =
     (if length payload < 2 then 0
      else unat ((push_bit 8 (ucast (payload ! 0)) OR ucast (payload ! 1)) :: u32))"

section \<open>Wire format\<close>

text \<open>
  What an RFC 6455 client puts on the wire, and a parser for what it receives. Both are written from
  the RFC, independently of the code above.
\<close>

definition length_field :: "nat \<Rightarrow> byte list" where
  "length_field n =
     (if n \<le> 125 then [of_nat n]
      else if n \<le> 0xffff then 126 # map (\<lambda>k. of_nat (n div 256 ^ k mod 256)) [1, 0]
      else 127 # map (\<lambda>k. of_nat (n div 256 ^ k mod 256)) [7, 6, 5, 4, 3, 2, 1, 0])"

definition mark_masked :: "byte list \<Rightarrow> byte list" where
  "mark_masked bs = (case bs of [] \<Rightarrow> [] | b # r \<Rightarrow> (b OR 0x80) # r)"

definition client_frame :: "bool \<Rightarrow> byte \<Rightarrow> byte list \<Rightarrow> byte list \<Rightarrow> byte list" where
  "client_frame fin opcode key payload =
     [(if fin then 0x80 else 0) OR opcode] @ mark_masked (length_field (length payload)) @ key @
     unmask key payload"

definition be_nat :: "byte list \<Rightarrow> nat" where
  "be_nat = foldl (\<lambda>n b. 256 * n + unat b) 0"

text \<open>FIN bit, opcode, payload and the bytes after the frame.\<close>

definition parse_server_frame :: "byte list \<Rightarrow> (bool \<times> byte \<times> byte list \<times> byte list) option" where
  "parse_server_frame wire =
     (case wire of
        b0 # b1 # r \<Rightarrow>
          let k = (if b1 = 126 then 2 else if b1 = 127 then 8 else 0);
              n = (if k = 0 then unat b1 else be_nat (take k r));
              body = drop k r
          in if b1 AND 0x80 = 0 \<and> b0 AND 0x70 = 0 \<and> k \<le> length r \<and> n \<le> length body
             then Some (b0 AND 0x80 \<noteq> 0, b0 AND 0x0f, take n body, drop n body) else None
      | _ \<Rightarrow> None)"

definition scalar_value :: "nat \<Rightarrow> bool" where
  "scalar_value c \<longleftrightarrow> c < 0xd800 \<or> (0xe000 \<le> c \<and> c \<le> 0x10ffff)"

definition utf8_tail :: "nat \<Rightarrow> byte" where
  "utf8_tail n = of_nat (0x80 + n mod 64)"

definition utf8_encode :: "nat \<Rightarrow> byte list" where
  "utf8_encode c =
     (if c < 0x80 then [of_nat c]
      else if c < 0x800 then [of_nat (0xc0 + c div 64), utf8_tail c]
      else if c < 0x10000 then [of_nat (0xe0 + c div 4096), utf8_tail (c div 64), utf8_tail c]
      else [of_nat (0xf0 + c div 262144), utf8_tail (c div 4096), utf8_tail (c div 64), utf8_tail c])"

section \<open>Length fields\<close>

lemma unat_byte_less [simp]: "unat (b :: byte) < 256"
proof -
  have "unat b < 2 ^ LENGTH(8)" by (rule unsigned_less)
  then show ?thesis by simp
qed

lemma unat_of_nat_byte: "unat (of_nat n :: byte) = n mod 256"
  by (simp add: unat_of_nat)

lemma unat_of_nat_size: "n < 2 ^ 64 \<Longrightarrow> unat (of_nat n :: u64) = n"
  by (simp add: unat_of_nat)

lemma unat_size_byte: "unat (size_byte n s) = unat n div 2 ^ s mod 256"
proof -
  have "unat (drop_bit s n) = unat n div 2 ^ s"
    by (subst unat_drop_bit_eq) (rule drop_bit_eq_div)
  then show ?thesis by (simp add: size_byte_def unsigned_ucast_eq take_bit_eq_mod)
qed

lemma size_byte_div: "n < 2 ^ 64 \<Longrightarrow> size_byte (of_nat n) s = of_nat (n div 2 ^ s mod 256)"
  by (simp add: word_unat_eq_iff unat_size_byte unat_of_nat_size unat_of_nat_byte)

lemma pow_256: "(256 :: nat) ^ k = 2 ^ (8 * k)"
  by (simp add: power_mult)

text \<open>The code writes the length field of the RFC.\<close>

lemma encode_frame_format:
  assumes "length payload < 2 ^ 64"
  shows "comm_websocket_encode_frame payload opcode =
    (if opcode > 0x0f then None
     else Some ((0x80 OR opcode) # length_field (length payload) @ payload))"
  using assms by (simp add: comm_websocket_encode_frame_def Let_def length_field_def size_byte_div)

lemma horner_step: "256 * (n div 256 ^ Suc k) + n div 256 ^ k mod 256 = (n :: nat) div 256 ^ k"
  by (simp add: div_mult2_eq mult.commute [of 256])

lemma be_nat_horner:
  "foldl (\<lambda>n b. 256 * n + unat b) (n div 256 ^ k) (map (\<lambda>j. of_nat (n div 256 ^ j mod 256) :: byte) (rev [0..<k])) = n"
proof (induction k)
  case (Suc k)
  have "foldl (\<lambda>n b. 256 * n + unat b) (n div 256 ^ Suc k)
          (map (\<lambda>j. of_nat (n div 256 ^ j mod 256) :: byte) (rev [0..<Suc k])) =
        foldl (\<lambda>n b. 256 * n + unat b) (256 * (n div 256 ^ Suc k) + n div 256 ^ k mod 256)
          (map (\<lambda>j. of_nat (n div 256 ^ j mod 256) :: byte) (rev [0..<k]))"
    by (simp add: unat_of_nat_byte)
  then show ?case using Suc.IH by (simp only: horner_step)
qed simp

lemma be_nat_length_field:
  "n < 256 ^ k \<Longrightarrow> be_nat (map (\<lambda>j. of_nat (n div 256 ^ j mod 256) :: byte) (rev [0..<k])) = n"
  using be_nat_horner [of n k] by (simp add: be_nat_def)

lemma shift_indices: "[1, 0] = rev [0..<2]" "[7, 6, 5, 4, 3, 2, 1, 0] = rev [0..<8]"
  by (simp_all add: upt_rec)

section \<open>Server frames\<close>

lemma low_nibble:
  assumes "(opcode :: byte) \<le> 0x0f"
  shows "opcode AND 0x0f = opcode" "opcode AND 0x70 = 0" "opcode AND 0x80 = 0"
proof -
  have "unat (opcode mod 16) = unat opcode" using assms by (simp add: unat_mod word_le_nat_alt)
  then have "take_bit 4 opcode = opcode" by (simp add: take_bit_eq_mod word_unat_eq_iff)
  moreover have "opcode AND 0x0f = take_bit 4 opcode"
    by (simp add: take_bit_eq_mask mask_eq_exp_minus_1)
  ultimately show a: "opcode AND 0x0f = opcode" by simp
  have "(opcode AND 0x0f) AND 0x70 = 0" "(opcode AND 0x0f) AND 0x80 = 0" by (simp_all add: and.assoc)
  then show "opcode AND 0x70 = 0" "opcode AND 0x80 = 0" unfolding a by simp_all
qed

lemma first_byte_fields:
  assumes "(opcode :: byte) \<le> 0x0f"
  shows "((if fin then 0x80 else 0) OR opcode) AND 0x80 \<noteq> 0 \<longleftrightarrow> fin"
    "((if fin then 0x80 else 0) OR opcode) AND 0x70 = 0"
    "((if fin then 0x80 else 0) OR opcode) AND 0x0f = opcode"
  by (simp_all add: bit.conj_disj_distrib2 low_nibble [OF assms])

lemma seven_bits:
  assumes "n < 128"
  shows "(of_nat n :: byte) AND 0x7f = of_nat n" "(of_nat n :: byte) AND 0x80 = 0"
proof -
  have "unat ((of_nat n :: byte) mod 128) = unat (of_nat n :: byte)"
    using assms by (simp add: unat_mod unat_of_nat_byte)
  then have "take_bit 7 (of_nat n :: byte) = of_nat n" by (simp add: take_bit_eq_mod word_unat_eq_iff)
  moreover have "(of_nat n :: byte) AND 0x7f = take_bit 7 (of_nat n)"
    by (simp add: take_bit_eq_mask mask_eq_exp_minus_1)
  ultimately show a: "(of_nat n :: byte) AND 0x7f = of_nat n" by simp
  have "((of_nat n :: byte) AND 0x7f) AND 0x80 = 0" by (simp add: and.assoc)
  then show "(of_nat n :: byte) AND 0x80 = 0" unfolding a .
qed

lemma of_nat_byte_neq:
  "n \<le> 125 \<Longrightarrow> (of_nat n :: byte) \<noteq> 126" "n \<le> 125 \<Longrightarrow> (of_nat n :: byte) \<noteq> 127"
  by (auto simp: word_unat_eq_iff unat_of_nat_byte)

lemma parse_server_frame_format:
  assumes "opcode \<le> 0x0f" "length payload < 2 ^ 64"
  shows "parse_server_frame ((0x80 OR opcode) # length_field (length payload) @ payload @ rest) =
    Some (True, opcode, payload, rest)"
proof -
  note fields = first_byte_fields [OF assms(1), of True, simplified]
  consider "length payload \<le> 125" | "125 < length payload" "length payload \<le> 0xffff"
    | "0xffff < length payload" by linarith
  then show ?thesis
  proof cases
    case 1
    then show ?thesis
      by (simp add: parse_server_frame_def length_field_def of_nat_byte_neq seven_bits fields
          unat_of_nat_byte)
  next
    case 2
    have "be_nat (map (\<lambda>k. of_nat (length payload div 256 ^ k mod 256)) [1, 0]) = length payload"
      unfolding shift_indices(1) by (rule be_nat_length_field) (use 2 in simp)
    then show ?thesis using 2
      by (simp add: parse_server_frame_def length_field_def fields)
  next
    case 3
    have "be_nat (map (\<lambda>k. of_nat (length payload div 256 ^ k mod 256)) [7, 6, 5, 4, 3, 2, 1, 0])
        = length payload"
      unfolding shift_indices(2) by (rule be_nat_length_field) (use assms(2) in simp)
    then show ?thesis using 3
      by (simp add: parse_server_frame_def length_field_def fields)
  qed
qed

section \<open>Client frames\<close>

lemma horner_less: "a < m \<Longrightarrow> b < 256 \<Longrightarrow> 256 * a + b < 256 * (m :: nat)"
  by arith

lemma unat_push_byte:
  assumes "unat (acc :: u64) < 2 ^ 56"
  shows "unat (push_bit 8 acc OR ucast (b :: byte)) = 256 * unat acc + unat b"
proof -
  have "push_bit 8 acc OR (ucast b :: u64) = push_bit 8 acc + ucast b"
    by (rule disjunctive_add [symmetric]) (auto simp: bit_push_bit_iff bit_ucast_iff dest: bit_imp_le_length)
  moreover have "unat (push_bit 8 acc) = 256 * unat acc"
    using assms by (simp add: push_bit_eq_mult unat_word_ariths mult.commute)
  moreover have "unat (ucast b :: u64) = unat b"
    using less_trans [OF unat_byte_less [of b], of "2 ^ 64"]
    by (simp add: unsigned_ucast_eq take_bit_eq_mod)
  moreover have "256 * unat acc + unat b < 2 ^ 64"
    using horner_less [OF assms unat_byte_less [of b]] by simp
  ultimately show ?thesis by (simp add: unat_word_ariths)
qed

lemma unat_be_size:
  "unat acc < 256 ^ j \<Longrightarrow> j + length bs \<le> 8 \<Longrightarrow>
     unat (be_size acc bs) = foldl (\<lambda>n b. 256 * n + unat b) (unat acc) bs"
proof (induction bs arbitrary: acc j)
  case Nil
  then show ?case by (simp add: be_size_def)
next
  case (Cons b bs)
  have "(256 :: nat) ^ j \<le> 256 ^ 7" using Cons.prems(2) by (intro power_increasing) auto
  then have "unat acc < 2 ^ 56" using Cons.prems(1) by simp
  note step = unat_push_byte [OF this, of b]
  have "unat (push_bit 8 acc OR ucast b) < 256 ^ Suc j"
    unfolding step power_Suc by (rule horner_less [OF Cons.prems(1) unat_byte_less])
  from Cons.IH [OF this] Cons.prems(2) step show ?case by (simp add: be_size_def)
qed

lemma unat_be_size_zero: "length bs \<le> 8 \<Longrightarrow> unat (be_size 0 bs) = be_nat bs"
  using unat_be_size [of 0 0 bs] by (simp add: be_nat_def)

lemma length_unmask [simp]: "length (unmask key data) = length data"
  by (simp add: unmask_def)

lemma unmask_involutive: "unmask key (unmask key data) = data"
  by (rule nth_equalityI) (simp_all add: unmask_def xor.assoc)

lemma length_length_field_le: "length (length_field n) \<le> 9"
  by (simp add: length_field_def)

text \<open>The body of a frame whose header has been read.\<close>

lemma ws_frame_body_complete:
  assumes "length header = h" "length key = 4" "unat sz = length payload" "length payload \<le> K_MAX_MESSAGE_BYTES"
    and "opcode AND 0x08 \<noteq> 0 \<Longrightarrow> fin \<and> length payload \<le> 125"
  shows "ws_frame_body (header @ key @ unmask key payload @ rest) fin opcode sz h =
    Frame fin opcode payload (h + 4 + length payload)"
proof -
  have "sz > 125 \<longleftrightarrow> length payload > 125" using assms(3) by (simp add: word_less_nat_alt)
  then show ?thesis using assms
    by (auto simp: ws_frame_body_def Let_def unmask_involutive)
qed

definition client_opcode :: "byte \<Rightarrow> bool" where
  "client_opcode opcode \<longleftrightarrow> opcode \<in> {0, 1, 2, 8, 9, 10}"

lemma client_opcode_valid:
  assumes "client_opcode opcode"
  shows "opcode \<le> 0x0f" "\<not> (opcode \<ge> 3 \<and> opcode \<le> 7)" "\<not> opcode \<ge> 0x0b"
  using assms by (auto simp: client_opcode_def word_le_nat_alt)

lemma marked_length_byte:
  "n < 128 \<Longrightarrow> (of_nat n OR 0x80 :: byte) AND 0x7f = of_nat n"
  "n < 128 \<Longrightarrow> (of_nat n OR 0x80 :: byte) AND 0x80 \<noteq> 0"
  by (simp_all add: bit.conj_disj_distrib2 seven_bits)

lemma ws_next_frame_complete:
  assumes op: "client_opcode opcode" and key: "length key = 4"
    and len: "length payload \<le> K_MAX_MESSAGE_BYTES"
    and ctl: "opcode AND 0x08 \<noteq> 0 \<Longrightarrow> fin \<and> length payload \<le> 125"
  shows "ws_next_frame (client_frame fin opcode key payload @ rest) =
    Frame fin opcode payload (length (client_frame fin opcode key payload))"
proof -
  let ?n = "length payload"
  let ?b0 = "(if fin then 0x80 else 0) OR opcode"
  note f = first_byte_fields [OF client_opcode_valid(1) [OF op], of fin] and v = client_opcode_valid [OF op]
  note body = ws_frame_body_complete [where fin = fin and opcode = opcode, OF _ key _ len ctl]
  have small: "?n < 256 ^ 8" using len by (simp add: K_MAX_MESSAGE_BYTES_def)
  consider "?n \<le> 125" | "125 < ?n" "?n \<le> 0xffff" | "0xffff < ?n" by linarith
  then show ?thesis
  proof cases
    case 1
    have "unat (ucast (of_nat ?n :: byte) :: u64) = ?n"
      using 1 by (simp add: unsigned_ucast_eq take_bit_eq_mod unat_of_nat_byte)
    from body [OF _ this, of "[?b0, of_nat ?n OR 0x80]" 2 rest] show ?thesis
      using 1 f v key
      by (cases fin) (simp_all add: ws_next_frame_def client_frame_def length_field_def
          mark_masked_def Let_def marked_length_byte of_nat_byte_neq)
  next
    case 2
    let ?l = "map (\<lambda>k. of_nat (?n div 256 ^ k mod 256)) [1, 0] :: byte list"
    have "be_nat ?l = ?n" unfolding shift_indices(1) by (rule be_nat_length_field) (use 2 in simp)
    then have "unat (be_size 0 ?l) = ?n" by (subst unat_be_size_zero) simp_all
    from body [OF _ this, of "[?b0, 254] @ ?l" 4 rest] show ?thesis
      using 2 f v key
      by (cases fin) (simp_all add: ws_next_frame_def client_frame_def length_field_def
          mark_masked_def Let_def)
  next
    case 3
    let ?l = "map (\<lambda>k. of_nat (?n div 256 ^ k mod 256)) [7, 6, 5, 4, 3, 2, 1, 0] :: byte list"
    have "be_nat ?l = ?n" unfolding shift_indices(2) by (rule be_nat_length_field [OF small])
    then have sz: "unat (be_size 0 ?l) = ?n" by (subst unat_be_size_zero) simp_all
    have "?n div 256 ^ 7 = 0" using len by (simp add: K_MAX_MESSAGE_BYTES_def)
    with body [OF _ sz, of "[?b0, 255] @ ?l" 10 rest] show ?thesis
      using 3 f v key
      by (cases fin) (simp_all add: ws_next_frame_def client_frame_def length_field_def
          mark_masked_def Let_def)
  qed
qed

section \<open>UTF-8 validation\<close>

lemma unat_and_low_bits:
  "unat ((b :: byte) AND 0x3f) = unat b mod 64" "unat (b AND 0x1f) = unat b mod 32"
  "unat (b AND 0x0f) = unat b mod 16" "unat (b AND 0x07) = unat b mod 8"
proof -
  have m: "unat (take_bit n b) = unat b mod 2 ^ n" for n
    by (subst unsigned_take_bit_eq) (rule take_bit_eq_mod)
  show "unat (b AND 0x3f) = unat b mod 64" using m [of 6] by (simp add: take_bit_eq_mask mask_eq_exp_minus_1)
  show "unat (b AND 0x1f) = unat b mod 32" using m [of 5] by (simp add: take_bit_eq_mask mask_eq_exp_minus_1)
  show "unat (b AND 0x0f) = unat b mod 16" using m [of 4] by (simp add: take_bit_eq_mask mask_eq_exp_minus_1)
  show "unat (b AND 0x07) = unat b mod 8" using m [of 3] by (simp add: take_bit_eq_mask mask_eq_exp_minus_1)
qed

lemma utf8_continuation_iff: "(b :: byte) AND 0xc0 = 0x80 \<longleftrightarrow> unat b div 64 = 2"
proof -
  have "(b AND NOT m) + (b AND m) = b" for m
  proof -
    have "(b AND NOT m) + (b AND m) = (b AND NOT m) OR (b AND m)"
      by (rule disjunctive_add) (auto simp: bit_and_iff bit_not_iff)
    also have "\<dots> = b" by (auto simp: bit_eq_iff bit_or_iff bit_and_iff bit_not_iff)
    finally show ?thesis .
  qed
  moreover have "NOT (0x3f :: byte) = 0xc0" by simp
  ultimately have b: "(b AND 0xc0) + (b AND 0x3f) = b" by (simp only: flip: \<open>NOT (0x3f :: byte) = 0xc0\<close>)
  then have "b AND 0xc0 = 0x80 \<longleftrightarrow> b = 0x80 + (b AND 0x3f)"
    by (metis add_right_cancel)
  also have "\<dots> \<longleftrightarrow> unat b = 128 + unat b mod 64"
    by (simp add: word_unat_eq_iff unat_word_ariths unat_and_low_bits)
  also have "\<dots> \<longleftrightarrow> unat b div 64 = 2"
    using div_mult_mod_eq [of "unat b" 64] by arith
  finally show ?thesis .
qed

lemma utf8_continue_Cons:
  "utf8_continue cp (b # bs) =
     (if unat b div 64 = 2 then utf8_continue (64 * cp + unat b mod 64) bs else None)"
  by (simp add: utf8_continuation_iff unat_and_low_bits)

lemma utf8_lead_nat:
  "utf8_lead b =
     (let x = unat b in
      if 194 \<le> x \<and> x \<le> 223 then Some (x mod 32, 1)
      else if 224 \<le> x \<and> x \<le> 239 then Some (x mod 16, 2)
      else if 240 \<le> x \<and> x \<le> 244 then Some (x mod 8, 3) else None)"
  by (simp add: utf8_lead_def Let_def word_le_nat_alt unat_and_low_bits)

lemma ascii_nat: "(b :: byte) \<le> 0x7f \<longleftrightarrow> unat b \<le> 127"
  by (simp add: word_le_nat_alt)

lemma utf8_tail_nat: "unat (utf8_tail n) = 128 + n mod 64" "unat (utf8_tail n) div 64 = 2"
  "unat (utf8_tail n) mod 64 = n mod 64"
proof -
  have "n mod 64 < 64" by simp
  then have "128 + n mod 64 < 256" by linarith
  then show "unat (utf8_tail n) = 128 + n mod 64"
    unfolding utf8_tail_def by (subst unat_of_nat_byte) (rule mod_less)
  then show "unat (utf8_tail n) div 64 = 2" "unat (utf8_tail n) mod 64 = n mod 64"
    using mod_mult_self3 [of 2 64 "n mod 64"] by simp_all
qed

lemma of_nat_byte_id: "unat b = n \<Longrightarrow> of_nat n = (b :: byte)"
  by auto

lemma tail_of_byte: "unat b div 64 = 2 \<Longrightarrow> n mod 64 = unat b mod 64 \<Longrightarrow> utf8_tail n = b"
  using div_mult_mod_eq [of "unat b" 64] unfolding utf8_tail_def by (intro of_nat_byte_id) simp


lemma unat_lead: "n < 256 \<Longrightarrow> unat (of_nat n :: byte) = n"
  by (simp add: unat_of_nat_byte)

lemma utf8_continue_tail:
  "utf8_continue cp (utf8_tail n # bs) = utf8_continue (64 * cp + n mod 64) bs"
  by (simp add: utf8_continue_Cons utf8_tail_nat(2,3) del: utf8_continue.simps(2))

lemma lead_mod: "q < m \<Longrightarrow> (k * m + q) mod m = (q :: nat)"
  by simp

lemma regroup:
  "64 * (c div 64) + c mod 64 = (c :: nat)"
  "64 * (c div 4096) + c div 64 mod 64 = c div 64"
  "64 * (c div 262144) + c div 4096 mod 64 = c div 4096"
  using mult_div_mod_eq [of 64 c] mult_div_mod_eq [of 64 "c div 64"]
    mult_div_mod_eq [of 64 "c div 4096"]
  by (simp_all add: div_mult2_eq [symmetric])

text \<open>One encoded scalar value is accepted, whatever follows it.\<close>

lemma utf8_accept_step:
  assumes "utf8_lead b = Some (cp, length ts)" "utf8_continue cp ts = Some c"
    "\<not> utf8_bad_codepoint (length ts) c" "127 < unat b"
  shows "is_valid_utf8 (b # ts @ bs) = is_valid_utf8 bs"
  using assms by (simp add: ascii_nat)

lemma utf8_accepts_two:
  assumes "0x80 \<le> c" "c < 0x800"
  shows "is_valid_utf8 (of_nat (0xc0 + c div 64) # [utf8_tail c] @ bs) = is_valid_utf8 bs"
proof (rule utf8_accept_step [where cp = "c div 64" and c = c])
  have q: "2 \<le> c div 64" "c div 64 < 32" using assms by auto
  have u: "unat (of_nat (0xc0 + c div 64) :: byte) = 192 + c div 64"
    by (rule unat_lead) (use q in simp)
  have "(192 + c div 64) mod 32 = c div 64" using lead_mod [OF q(2), of 6] by simp
  then show "utf8_lead (of_nat (0xc0 + c div 64)) = Some (c div 64, length [utf8_tail c])"
    using q by (simp only: utf8_lead_nat Let_def u) simp
  show "127 < unat (of_nat (0xc0 + c div 64) :: byte)" unfolding u by simp
  show "utf8_continue (c div 64) [utf8_tail c] = Some c"
    by (simp only: utf8_continue_tail regroup utf8_continue.simps(1))
  show "\<not> utf8_bad_codepoint (length [utf8_tail c]) c"
    using assms by (simp add: utf8_bad_codepoint_def)
qed

lemma utf8_accepts_three:
  assumes "0x800 \<le> c" "c < 0x10000" "scalar_value c"
  shows "is_valid_utf8 (of_nat (0xe0 + c div 4096) # [utf8_tail (c div 64), utf8_tail c] @ bs)
    = is_valid_utf8 bs"
proof (rule utf8_accept_step [where cp = "c div 4096" and c = c])
  have q: "c div 4096 < 16" using assms by auto
  have u: "unat (of_nat (0xe0 + c div 4096) :: byte) = 224 + c div 4096"
    by (rule unat_lead) (use q in simp)
  have "(224 + c div 4096) mod 16 = c div 4096" using lead_mod [OF q, of 14] by simp
  then show "utf8_lead (of_nat (0xe0 + c div 4096))
      = Some (c div 4096, length [utf8_tail (c div 64), utf8_tail c])"
    using q by (simp only: utf8_lead_nat Let_def u) simp
  show "127 < unat (of_nat (0xe0 + c div 4096) :: byte)" unfolding u by simp
  show "utf8_continue (c div 4096) [utf8_tail (c div 64), utf8_tail c] = Some c"
    by (simp only: utf8_continue_tail regroup utf8_continue.simps(1))
  show "\<not> utf8_bad_codepoint (length [utf8_tail (c div 64), utf8_tail c]) c"
    using assms by (auto simp: utf8_bad_codepoint_def scalar_value_def)
qed

lemma utf8_accepts_four:
  assumes "0x10000 \<le> c" "scalar_value c"
  shows "is_valid_utf8 (of_nat (0xf0 + c div 262144) #
      [utf8_tail (c div 4096), utf8_tail (c div 64), utf8_tail c] @ bs) = is_valid_utf8 bs"
proof (rule utf8_accept_step [where cp = "c div 262144" and c = c])
  have c: "c \<le> 0x10ffff" using assms by (auto simp: scalar_value_def)
  then have q: "c div 262144 \<le> 4" by auto
  then have q8: "c div 262144 < 8" by simp
  have u: "unat (of_nat (0xf0 + c div 262144) :: byte) = 240 + c div 262144"
    by (rule unat_lead) (use q in simp)
  have "(240 + c div 262144) mod 8 = c div 262144" using lead_mod [OF q8, of 30] by simp
  then show "utf8_lead (of_nat (0xf0 + c div 262144))
      = Some (c div 262144, length [utf8_tail (c div 4096), utf8_tail (c div 64), utf8_tail c])"
    using q by (simp only: utf8_lead_nat Let_def u) simp
  show "127 < unat (of_nat (0xf0 + c div 262144) :: byte)" unfolding u by simp
  show "utf8_continue (c div 262144) [utf8_tail (c div 4096), utf8_tail (c div 64), utf8_tail c] = Some c"
    by (simp only: utf8_continue_tail regroup utf8_continue.simps(1))
  show "\<not> utf8_bad_codepoint
      (length [utf8_tail (c div 4096), utf8_tail (c div 64), utf8_tail c]) c"
    using assms c by (auto simp: utf8_bad_codepoint_def scalar_value_def)
qed

lemma utf8_accepts_scalar:
  assumes "scalar_value c"
  shows "is_valid_utf8 (utf8_encode c @ bs) = is_valid_utf8 bs"
proof (cases "c < 0x80")
  case True
  then have "unat (of_nat c :: byte) = c" by (simp add: unat_lead)
  with True show ?thesis by (simp add: utf8_encode_def ascii_nat)
next
  case False
  then show ?thesis
    using utf8_accepts_two [of c bs] utf8_accepts_three [of c bs] utf8_accepts_four [of c bs] assms
    unfolding utf8_encode_def by (cases "c < 0x800"; cases "c < 0x10000") simp_all
qed

text \<open>Conversely, an accepted sequence is the encoding of a scalar value.\<close>

lemma digit64: "(64 * a + y mod 64) div 64 = (a :: nat)" "(64 * a + y mod 64) mod 64 = y mod 64"
  by simp_all

lemma div_4096: "(c :: nat) div 4096 = c div 64 div 64"
  by (simp add: div_mult2_eq [symmetric])

lemma div_262144: "(c :: nat) div 262144 = c div 64 div 64 div 64"
  by (simp add: div_mult2_eq [symmetric])

lemma lead_value:
  "194 \<le> x \<Longrightarrow> x \<le> 223 \<Longrightarrow> 192 + x mod 32 = (x :: nat)"
  "224 \<le> x \<Longrightarrow> x \<le> 239 \<Longrightarrow> 224 + x mod 16 = x"
  "240 \<le> x \<Longrightarrow> x \<le> 244 \<Longrightarrow> 240 + x mod 8 = x"
proof -
  have "192 + x mod 32 = x" if "192 \<le> x" "x < 224"
    using lead_mod [of "x - 192" 32 6] that by simp
  then show "194 \<le> x \<Longrightarrow> x \<le> 223 \<Longrightarrow> 192 + x mod 32 = x" by simp
  have "224 + x mod 16 = x" if "224 \<le> x" "x < 240"
    using lead_mod [of "x - 224" 16 14] that by simp
  then show "224 \<le> x \<Longrightarrow> x \<le> 239 \<Longrightarrow> 224 + x mod 16 = x" by simp
  have "240 + x mod 8 = x" if "240 \<le> x" "x < 248"
    using lead_mod [of "x - 240" 8 30] that by simp
  then show "240 \<le> x \<Longrightarrow> x \<le> 244 \<Longrightarrow> 240 + x mod 8 = x" by simp
qed

lemma utf8_continue_ConsD:
  "utf8_continue cp (b # bs) = Some c \<Longrightarrow>
     unat b div 64 = 2 \<and> utf8_continue (64 * cp + unat b mod 64) bs = Some c"
  by (simp add: utf8_continue_Cons del: utf8_continue.simps(2) split: if_splits)

lemma scalar_of_good: "\<not> utf8_bad_codepoint n c \<Longrightarrow> scalar_value c"
  by (auto simp: utf8_bad_codepoint_def scalar_value_def)

lemma utf8_encode_two:
  assumes x: "194 \<le> unat b" "unat b \<le> 223"
    and cont: "utf8_continue (unat b mod 32) [t] = Some c" and low: "0x80 \<le> c"
  shows "utf8_encode c = [b, t]"
proof -
  have t: "unat t div 64 = 2" "c = 64 * (unat b mod 32) + unat t mod 64"
    using utf8_continue_ConsD [OF cont] by simp_all
  have d: "c div 64 = unat b mod 32" "c mod 64 = unat t mod 64"
    unfolding t(2) digit64 by (rule refl)+
  have "c div 64 < 32" unfolding d by simp
  then have "c < 0x800" by simp
  then have "utf8_encode c = [of_nat (0xc0 + c div 64), utf8_tail c]"
    using low by (simp add: utf8_encode_def)
  also have "of_nat (0xc0 + c div 64) = b"
    by (rule of_nat_byte_id) (use lead_value(1) [OF x] d in simp)
  also have "utf8_tail c = t" by (rule tail_of_byte [OF t(1) d(2)])
  finally show ?thesis .
qed

lemma utf8_encode_three:
  assumes x: "224 \<le> unat b" "unat b \<le> 239"
    and cont: "utf8_continue (unat b mod 16) [t, u] = Some c" and low: "0x800 \<le> c"
  shows "utf8_encode c = [b, t, u]"
proof -
  note 1 = utf8_continue_ConsD [OF cont]
  have 2: "unat u div 64 = 2" "c = 64 * (64 * (unat b mod 16) + unat t mod 64) + unat u mod 64"
    using utf8_continue_ConsD [OF conjunct2 [OF 1]] by simp_all
  have d: "c div 64 = 64 * (unat b mod 16) + unat t mod 64" "c mod 64 = unat u mod 64"
    unfolding 2(2) digit64 by (rule refl)+
  have e: "c div 4096 = unat b mod 16" "c div 64 mod 64 = unat t mod 64"
    unfolding div_4096 d(1) digit64 by (rule refl)+
  have "c div 4096 < 16" unfolding e by simp
  then have "c < 0x10000" by simp
  then have "utf8_encode c = [of_nat (0xe0 + c div 4096), utf8_tail (c div 64), utf8_tail c]"
    using low by (simp add: utf8_encode_def)
  also have "of_nat (0xe0 + c div 4096) = b"
    by (rule of_nat_byte_id) (use lead_value(2) [OF x] e in simp)
  also have "utf8_tail (c div 64) = t" by (rule tail_of_byte [OF conjunct1 [OF 1] e(2)])
  also have "utf8_tail c = u" by (rule tail_of_byte [OF 2(1) d(2)])
  finally show ?thesis .
qed

lemma utf8_encode_four:
  assumes x: "240 \<le> unat b" "unat b \<le> 244"
    and cont: "utf8_continue (unat b mod 8) [t, u, v] = Some c" and low: "0x10000 \<le> c"
  shows "utf8_encode c = [b, t, u, v]"
proof -
  note 1 = utf8_continue_ConsD [OF cont]
  note 2 = utf8_continue_ConsD [OF conjunct2 [OF 1]]
  have 3: "unat v div 64 = 2"
    "c = 64 * (64 * (64 * (unat b mod 8) + unat t mod 64) + unat u mod 64) + unat v mod 64"
    using utf8_continue_ConsD [OF conjunct2 [OF 2]] by simp_all
  have d: "c div 64 = 64 * (64 * (unat b mod 8) + unat t mod 64) + unat u mod 64"
    "c mod 64 = unat v mod 64" unfolding 3(2) digit64 by (rule refl)+
  have e: "c div 4096 = 64 * (unat b mod 8) + unat t mod 64" "c div 64 mod 64 = unat u mod 64"
    unfolding div_4096 d(1) digit64 by (rule refl)+
  have f: "c div 262144 = unat b mod 8" unfolding div_262144 d(1) digit64 by (rule refl)
  have g: "c div 4096 mod 64 = unat t mod 64" unfolding e(1) digit64 by (rule refl)
  have "utf8_encode c =
      [of_nat (0xf0 + c div 262144), utf8_tail (c div 4096), utf8_tail (c div 64), utf8_tail c]"
    using low by (simp add: utf8_encode_def)
  also have "of_nat (0xf0 + c div 262144) = b"
    by (rule of_nat_byte_id) (use lead_value(3) [OF x] f in simp)
  also have "utf8_tail (c div 4096) = t" by (rule tail_of_byte [OF conjunct1 [OF 1] g])
  also have "utf8_tail (c div 64) = u" by (rule tail_of_byte [OF conjunct1 [OF 2] e(2)])
  also have "utf8_tail c = v" by (rule tail_of_byte [OF 3(1) d(2)])
  finally show ?thesis .
qed

lemma utf8_step_encode:
  assumes lead: "utf8_lead b = Some (cp, length ts)" and cont: "utf8_continue cp ts = Some c"
    and good: "\<not> utf8_bad_codepoint (length ts) c"
  shows "utf8_encode c = b # ts"
proof -
  let ?x = "unat b"
  consider (two) "194 \<le> ?x" "?x \<le> 223" "cp = ?x mod 32" "length ts = 1"
    | (three) "224 \<le> ?x" "?x \<le> 239" "cp = ?x mod 16" "length ts = 2"
    | (four) "240 \<le> ?x" "?x \<le> 244" "cp = ?x mod 8" "length ts = 3"
    using lead by (auto simp: utf8_lead_nat Let_def split: if_splits)
  then show ?thesis
  proof cases
    case two
    then obtain t where "ts = [t]" by (auto simp: length_Suc_conv)
    with two cont good show ?thesis by (auto intro!: utf8_encode_two simp: utf8_bad_codepoint_def)
  next
    case three
    then obtain t u where "ts = [t, u]" by (auto simp: length_Suc_conv numeral_2_eq_2)
    with three cont good show ?thesis by (auto intro!: utf8_encode_three simp: utf8_bad_codepoint_def)
  next
    case four
    then obtain t u v where "ts = [t, u, v]" by (auto simp: length_Suc_conv numeral_3_eq_3)
    with four cont good show ?thesis by (auto intro!: utf8_encode_four simp: utf8_bad_codepoint_def)
  qed
qed

lemma is_valid_utf8_multibyteD:
  assumes v: "is_valid_utf8 (b # bs)" and nb: "\<not> b \<le> 0x7f"
  shows "\<exists>cp n c. utf8_lead b = Some (cp, n) \<and> n \<le> length bs \<and>
    utf8_continue cp (take n bs) = Some c \<and> \<not> utf8_bad_codepoint n c \<and> is_valid_utf8 (drop n bs)"
proof -
  obtain cp n where l: "utf8_lead b = Some (cp, n)" using v nb by (cases "utf8_lead b") auto
  have n: "n \<le> length bs"
  proof (rule ccontr)
    assume "\<not> n \<le> length bs"
    then show False using v nb l by simp
  qed
  then obtain c where "utf8_continue cp (take n bs) = Some c"
    using v nb l by (cases "utf8_continue cp (take n bs)") auto
  then show ?thesis using v nb l n by auto
qed

lemma utf8_valid_encodes:
  "is_valid_utf8 bs \<Longrightarrow> \<exists>cs. list_all scalar_value cs \<and> bs = concat (map utf8_encode cs)"
proof (induction bs rule: is_valid_utf8.induct)
  case 1
  have "list_all scalar_value [] \<and> [] = concat (map utf8_encode [])" by simp
  then show ?case by blast
next
  case (2 b bs)
  show ?case
  proof (cases "b \<le> 0x7f")
    case True
    with 2 obtain cs where cs: "list_all scalar_value cs" "bs = concat (map utf8_encode cs)" by auto
    have "unat b < 128" using True by (simp add: ascii_nat)
    then have "scalar_value (unat b)" "utf8_encode (unat b) = [b]"
      by (simp_all add: scalar_value_def utf8_encode_def)
    with cs have "list_all scalar_value (unat b # cs) \<and>
        b # bs = concat (map utf8_encode (unat b # cs))" by simp
    then show ?thesis by blast
  next
    case False
    obtain cp n c where l: "utf8_lead b = Some (cp, n)" "n \<le> length bs"
      "utf8_continue cp (take n bs) = Some c" "\<not> utf8_bad_codepoint n c" "is_valid_utf8 (drop n bs)"
      using is_valid_utf8_multibyteD [OF 2(3) False] by blast
    obtain cs where cs: "list_all scalar_value cs" "drop n bs = concat (map utf8_encode cs)"
      using 2(2) [OF False l(1) refl _ l(3)] l(2,5) by auto
    have "utf8_encode c = b # take n bs" by (rule utf8_step_encode) (use l in simp_all)
    with cs have "list_all scalar_value (c # cs) \<and> b # bs = concat (map utf8_encode (c # cs))"
      using scalar_of_good [OF l(4)] by (simp add: append_take_drop_id flip: cs(2))
    then show ?thesis by blast
  qed
qed

section \<open>Frames in a growing buffer\<close>

text \<open>
  Once a look at the wire decides, bytes that arrive later do not change the decision. This is what
  makes decoding independent of the read boundaries.
\<close>

lemma ws_frame_body_append:
  "ws_frame_body w fin op sz h \<noteq> Frame_partial \<Longrightarrow>
     ws_frame_body (w @ r) fin op sz h = ws_frame_body w fin op sz h"
  by (auto simp: ws_frame_body_def Let_def split: if_splits)

lemma ws_next_frame_append:
  assumes "ws_next_frame w \<noteq> Frame_partial"
  shows "ws_next_frame (w @ r) = ws_next_frame w"
proof -
  have w2: "2 \<le> length w" using assms by (cases "length w < 2") (simp_all add: ws_next_frame_def)
  then have n: "(w @ r) ! 0 = w ! 0" "(w @ r) ! 1 = w ! 1" "(w @ r) ! 2 = (if 2 < length w then w ! 2 else (w @ r) ! 2)"
    by (auto simp: nth_append)
  show ?thesis
    using assms w2 n(3) unfolding ws_next_frame_def n(1,2) Let_def
    by (auto simp: ws_frame_body_append split: if_splits)
qed

lemma ws_frame_body_Frame:
  "ws_frame_body w fin op sz h = Frame fin' op' p n \<Longrightarrow>
     fin' = fin \<and> op' = op \<and> n = h + 4 + unat sz \<and> n \<le> length w \<and>
     length p = unat sz \<and> length p \<le> K_MAX_MESSAGE_BYTES"
  by (auto simp: ws_frame_body_def Let_def split: if_splits)

lemma ws_next_frame_Frame:
  assumes "ws_next_frame w = Frame fin op p n"
  shows "0 < n \<and> n \<le> length w \<and> length p \<le> K_MAX_MESSAGE_BYTES"
  using assms by (auto simp: ws_next_frame_def Let_def dest: ws_frame_body_Frame split: if_splits)

section \<open>Properties\<close>

text \<open>
  C22. Everything the server frames can be read back by an RFC 6455 client: the frame of a payload
  starts with FIN and the opcode, carries the shortest of the three length forms, and parsing the
  wire returns exactly the opcode and the payload and leaves the bytes that follow, for every payload
  the encoder accepts.
\<close>

theorem encode_frame_roundtrip:
  assumes "comm_websocket_encode_frame payload opcode = Some frame"
  shows "parse_server_frame (frame @ rest) = Some (True, opcode, payload, rest)"
proof -
  have len: "length payload < 2 ^ 64" and op: "opcode \<le> 0x0f"
    using assms by (auto simp: comm_websocket_encode_frame_def split: if_splits)
  then have "frame = (0x80 OR opcode) # length_field (length payload) @ payload"
    using assms encode_frame_format [OF len, of opcode] by (simp split: if_splits)
  then show ?thesis using parse_server_frame_format [OF op len] by simp
qed

theorem encode_frame_roundtrip_witness:
  "\<exists>frame. comm_websocket_encode_frame [72, 105] 2 = Some frame \<and>
     parse_server_frame (frame @ [9]) = Some (True, 2, [72, 105], [9])"
proof -
  have e: "comm_websocket_encode_frame [72, 105] 2 = Some [130, 2, 72, 105]"
    by (simp add: comm_websocket_encode_frame_def size_byte_def)
  from encode_frame_roundtrip [OF e] e show ?thesis by blast
qed



text \<open>
  C10. The validation of text messages accepts exactly the UTF-8 encodings of sequences of Unicode
  scalar values in the sense of RFC 3629: no overlong form, no surrogate, nothing above U+10FFFF, no
  stray or missing continuation byte is accepted, and every correct encoding is.
\<close>

theorem is_valid_utf8_correct:
  "is_valid_utf8 bs \<longleftrightarrow> (\<exists>cs. list_all scalar_value cs \<and> bs = concat (map utf8_encode cs))"
proof
  show "is_valid_utf8 bs \<Longrightarrow> \<exists>cs. list_all scalar_value cs \<and> bs = concat (map utf8_encode cs)"
    by (rule utf8_valid_encodes)
next
  have "list_all scalar_value cs \<Longrightarrow> is_valid_utf8 (concat (map utf8_encode cs))" for cs
    by (induction cs) (simp_all add: utf8_accepts_scalar)
  then show "\<exists>cs. list_all scalar_value cs \<and> bs = concat (map utf8_encode cs) \<Longrightarrow> is_valid_utf8 bs"
    by blast
qed

end
