(* ===== verification/Outbound.thy ===== *)
theory Outbound
  imports Slot_Table Websocket_Frame
begin

text \<open>
  The outbound side of a slot, \<^verbatim>\<open>lib/comm/outbound.cpp\<close>: normalisation of newlines for Telnet clients,
  the bounded chain of outbound buffers, the upgrade barrier that holds application output back until
  the HTTP 101 response has been sent, the write path that chooses between raw bytes and WebSocket
  frames, and the loop of \<^verbatim>\<open>comm_flush\<close> that hands the chain to the transport.

  Functions that take a \<^verbatim>\<open>comm_abstract_ptr\<close> are functions on the slot record; they are only called
  with a resolved slot. \<open>arm wbio\<close> tells whether asking the event loop for writable events on that BIO
  succeeds (\<^verbatim>\<open>comm_bio_get_socket_fd\<close>, \<^verbatim>\<open>async_get_current_runtime\<close> and \<^verbatim>\<open>async_runtime_modify\<close> all
  succeed).
\<close>

definition MAX_OUTBOUND_BUFFERS_PER_SLOT :: nat where "MAX_OUTBOUND_BUFFERS_PER_SLOT = 16"

section \<open>Telnet newlines\<close>

function normalize_telnet_newlines :: "byte list \<Rightarrow> byte list" where
  "normalize_telnet_newlines [] = []"
| "normalize_telnet_newlines (ch # r) =
     (if ch = 13 then
        (let (out1, r1) = (if r \<noteq> [] \<and> hd r = 10 then ([10], tl r) else ([], r));
             (out2, r2) = (if r1 \<noteq> [] \<and> hd r1 = 0 then ([10], tl r1) else ([], r1))
         in 13 # out1 @ out2 @ normalize_telnet_newlines r2)
      else if ch = 10 then 13 # 10 # normalize_telnet_newlines r
      else ch # normalize_telnet_newlines r)"
  by pat_completeness auto
termination by (relation "measure length") (auto split: if_splits)

section \<open>Buffered writes\<close>

text \<open>
  The loop that fills the tail buffer and appends new ones; \<open>count\<close> is \<^verbatim>\<open>buffer_count\<close> and the result
  replaces the tail. Once sixteen buffers are full the remaining data is dropped.
\<close>

function raw_fill :: "nat \<Rightarrow> outbound_buffer \<Rightarrow> byte list \<Rightarrow> outbound_buffer list" where
  "raw_fill count obb data =
     (let space = BUFFER_SIZE - length (ob_data obb) in
      if length data > space then
        (let obb' = obb\<lparr>ob_data := ob_data obb @ take space data\<rparr> in
         if count + 1 > MAX_OUTBOUND_BUFFERS_PER_SLOT then [obb']
         else obb' # raw_fill (count + 1) empty_outbound_buffer (drop space data))
      else [obb\<lparr>ob_data := ob_data obb @ data\<rparr>])"
  by pat_completeness auto
termination
  by (relation "measure (\<lambda>(count, obb, data). MAX_OUTBOUND_BUFFERS_PER_SLOT - count)") auto

declare raw_fill.simps [simp del]

definition comm_buffered_write_raw_comm ::
  "(nat option \<Rightarrow> bool) \<Rightarrow> byte list \<Rightarrow> comm_abstract \<Rightarrow> comm_abstract" where
  "comm_buffered_write_raw_comm arm buf c =
     (if c_wbio c = None \<or> buf = [] then c
      else if length buf > BUFFER_SIZE * MAX_OUTBOUND_BUFFERS_PER_SLOT then c
      else let chain = (if c_outbound c = [] then [empty_outbound_buffer] else c_outbound c) in
      if length chain \<ge> MAX_OUTBOUND_BUFFERS_PER_SLOT then c
      else let c1 = comm_set_flag C_BUFFERED_WRITE
                 (c\<lparr>c_outbound := butlast chain @ raw_fill (length chain) (last chain) buf\<rparr>)
           in if \<not> comm_has_flag c1 C_SOCKET_WRITABLE \<and> arm (c_wbio c1)
              then comm_set_flag C_SOCKET_WRITABLE c1 else c1)"

section \<open>Upgrade barrier\<close>

function barrier_fill :: "nat \<Rightarrow> outbound_buffer \<Rightarrow> byte list \<Rightarrow> bool \<times> outbound_buffer list" where
  "barrier_fill count obb data =
     (if data = [] then (True, [obb])
      else let space = BUFFER_SIZE - length (ob_data obb) in
      if space = 0 then
        (if count + 1 > MAX_OUTBOUND_BUFFERS_PER_SLOT then (False, [obb])
         else let (ok, bs) = barrier_fill (count + 1) empty_outbound_buffer data in (ok, obb # bs))
      else barrier_fill count (obb\<lparr>ob_data := ob_data obb @ take (min space (length data)) data\<rparr>)
             (drop (min space (length data)) data))"
  by pat_completeness auto
termination
  by (relation "measures [\<lambda>(count, obb, data). MAX_OUTBOUND_BUFFERS_PER_SLOT - count,
                          \<lambda>(count, obb, data). length data]") (auto simp: min_def)

declare barrier_fill.simps [simp del]

definition append_websocket_upgrade_barrier ::
  "byte list \<Rightarrow> comm_abstract \<Rightarrow> bool \<times> comm_abstract" where
  "append_websocket_upgrade_barrier data c =
     (if data = [] then (False, c)
      else let chain = (if c_websocket_upgrade_barrier c = [] then [empty_outbound_buffer]
                        else c_websocket_upgrade_barrier c) in
      if length chain \<ge> MAX_OUTBOUND_BUFFERS_PER_SLOT then (False, c)
      else let (ok, bs) = barrier_fill (length chain) (last chain) data
           in (ok, c\<lparr>c_websocket_upgrade_barrier := butlast chain @ bs\<rparr>))"

section \<open>Application output\<close>

definition comm_buffered_write_comm_impl ::
  "(nat option \<Rightarrow> bool) \<Rightarrow> byte list \<Rightarrow> bool \<Rightarrow> comm_abstract \<Rightarrow> comm_abstract" where
  "comm_buffered_write_comm_impl arm buf normalize_text c =
     (if buf = [] then c
      else let out = (if normalize_text \<and> comm_has_flag c C_ENABLE_TELNET
                      then normalize_telnet_newlines buf else buf) in
      if C_WEBSOCKET_IS_READY (c_flags c) \<and> C_WEBSOCKET_STATE (c_flags c) = WS_CLOSE_SENT then c
      else if comm_has_flag c C_ENABLE_WEBSOCKET \<and> \<not> C_WEBSOCKET_IS_READY (c_flags c) then
        (case comm_websocket_encode_frame out 0x2 of
           None \<Rightarrow> c
         | Some frame \<Rightarrow> snd (append_websocket_upgrade_barrier frame c))
      else if C_WEBSOCKET_IS_READY (c_flags c) then
        (case comm_websocket_encode_frame out 0x2 of
           None \<Rightarrow> c
         | Some frame \<Rightarrow> comm_buffered_write_raw_comm arm frame c)
      else comm_buffered_write_raw_comm arm out c)"

definition comm_buffered_write_comm ::
  "(nat option \<Rightarrow> bool) \<Rightarrow> byte list \<Rightarrow> comm_abstract \<Rightarrow> comm_abstract" where
  "comm_buffered_write_comm arm buf = comm_buffered_write_comm_impl arm buf True"

definition comm_buffered_write_comm_no_telnet_normalize ::
  "(nat option \<Rightarrow> bool) \<Rightarrow> byte list \<Rightarrow> comm_abstract \<Rightarrow> comm_abstract" where
  "comm_buffered_write_comm_no_telnet_normalize arm buf = comm_buffered_write_comm_impl arm buf False"

text \<open>\<^verbatim>\<open>comm_websocket_queue_close\<close> of \<^verbatim>\<open>websocket.cpp\<close>.\<close>

definition comm_websocket_queue_close ::
  "(nat option \<Rightarrow> bool) \<Rightarrow> byte list \<Rightarrow> comm_abstract \<Rightarrow> bool \<times> comm_abstract" where
  "comm_websocket_queue_close arm payload c =
     (if C_WEBSOCKET_STATE (c_flags c) = WS_CLOSE_SENT \<or>
         C_WEBSOCKET_STATE (c_flags c) = WS_CLOSE_RECEIVED then (True, c)
      else case comm_websocket_encode_frame payload 0x8 of
             None \<Rightarrow> (False, c)
           | Some frame \<Rightarrow>
               (let c1 = comm_buffered_write_raw_comm arm frame c
                in (True, c1\<lparr>c_flags := C_WEBSOCKET_SET_STATE (c_flags c1) WS_CLOSE_SENT\<rparr>)))"

section \<open>Handing the chain to the transport\<close>

text \<open>
  One write attempt on the transport, \<^verbatim>\<open>SSL_write_ex\<close> or \<^verbatim>\<open>BIO_write\<close>: some bytes are taken, the
  transport asks to be tried again, or it has failed. The transport is a parameter: \<open>send e data\<close>
  gives the outcome of the attempt and the next state of the transport.
\<close>

datatype write_outcome = Took nat | Again | Failed

datatype flush_status = Drained | Stalled | Broken

text \<open>
  The loop of \<^verbatim>\<open>comm_flush\<close> over the chain. \<open>fuel\<close> bounds the number of write attempts; the bytes taken
  by the transport are returned in order. \<open>Took 0\<close> retries the same bytes, as the code does.
\<close>

fun flush_chain ::
  "('e \<Rightarrow> byte list \<Rightarrow> write_outcome \<times> 'e) \<Rightarrow> nat \<Rightarrow> 'e \<Rightarrow> outbound_buffer list \<Rightarrow>
   (flush_status \<times> byte list \<times> outbound_buffer list \<times> 'e) option" where
  "flush_chain send fuel e [] = Some (Drained, [], [], e)"
| "flush_chain send 0 e (obb # bs) = None"
| "flush_chain send (Suc fuel) e (obb # bs) =
     (if ob_unsent obb = [] then flush_chain send fuel e bs
      else (case send e (ob_unsent obb) of
              (Took n, e') \<Rightarrow>
                (let obb' = obb\<lparr>ob_start := ob_start obb + n\<rparr> in
                 map_option (\<lambda>(st, sent, rest, e''). (st, take n (ob_unsent obb) @ sent, rest, e''))
                   (flush_chain send fuel e'
                      (if ob_start obb' < length (ob_data obb') then obb' # bs else bs)))
            | (Again, e') \<Rightarrow> Some (Stalled, [], obb # bs, e')
            | (Failed, e') \<Rightarrow> Some (Broken, [], [], e')))"

section \<open>The chain as a bounded byte queue\<close>

definition chain_wf :: "outbound_buffer list \<Rightarrow> bool" where
  "chain_wf bs \<longleftrightarrow> length bs \<le> MAX_OUTBOUND_BUFFERS_PER_SLOT \<and> list_all ob_wf bs"

text \<open>How many bytes the next write can still add: none once the chain has sixteen buffers.\<close>

definition tail_room :: "nat \<Rightarrow> outbound_buffer \<Rightarrow> nat" where
  "tail_room count obb = (BUFFER_SIZE - length (ob_data obb)) +
     BUFFER_SIZE * (MAX_OUTBOUND_BUFFERS_PER_SLOT - count)"

definition chain_room :: "outbound_buffer list \<Rightarrow> nat" where
  "chain_room bs =
     (if bs = [] then BUFFER_SIZE * MAX_OUTBOUND_BUFFERS_PER_SLOT
      else if length bs \<ge> MAX_OUTBOUND_BUFFERS_PER_SLOT then 0
      else tail_room (length bs) (last bs))"

lemma ob_unsent_append:
  "ob_wf b \<Longrightarrow> ob_unsent (b\<lparr>ob_data := ob_data b @ xs\<rparr>) = ob_unsent b @ xs"
  by (simp add: ob_unsent_def ob_wf_def)

lemma ob_wf_append:
  "ob_wf b \<Longrightarrow> length xs \<le> BUFFER_SIZE - length (ob_data b) \<Longrightarrow> ob_wf (b\<lparr>ob_data := ob_data b @ xs\<rparr>)"
  by (auto simp: ob_wf_def)

lemma ob_unsent_empty [simp]: "ob_unsent empty_outbound_buffer = []"
  by (simp add: ob_unsent_def empty_outbound_buffer_def)

lemma ob_data_empty [simp]: "ob_data empty_outbound_buffer = []"
  by (simp add: empty_outbound_buffer_def)

lemma raw_fill_spec:
  "ob_wf obb \<Longrightarrow> 1 \<le> count \<Longrightarrow> count \<le> MAX_OUTBOUND_BUFFERS_PER_SLOT \<Longrightarrow>
     outbound_bytes (raw_fill count obb data) = ob_unsent obb @ take (tail_room count obb) data \<and>
     list_all ob_wf (raw_fill count obb data) \<and> raw_fill count obb data \<noteq> [] \<and>
     count + length (raw_fill count obb data) \<le> MAX_OUTBOUND_BUFFERS_PER_SLOT + 1"
proof (induction count obb data rule: raw_fill.induct)
  case (1 count obb data)
  let ?sp = "BUFFER_SIZE - length (ob_data obb)"
  show ?case
  proof (cases "length data > ?sp")
    case False
    then show ?thesis using 1(2-4)
      by (subst (1 2 3 4) raw_fill.simps)
        (simp add: Let_def ob_unsent_append ob_wf_append tail_room_def)
  next
    case big: True
    let ?obb = "obb\<lparr>ob_data := ob_data obb @ take ?sp data\<rparr>"
    have w: "ob_wf ?obb" "ob_unsent ?obb = ob_unsent obb @ take ?sp data"
      using 1(2) by (auto intro: ob_wf_append simp: ob_unsent_append)
    show ?thesis
    proof (cases "count + 1 > MAX_OUTBOUND_BUFFERS_PER_SLOT")
      case True
      then have "raw_fill count obb data = [?obb]" using big by (subst raw_fill.simps) simp
      then show ?thesis using True 1(4) w by (simp add: tail_room_def)
    next
      case False
      then have r: "raw_fill count obb data =
          ?obb # raw_fill (count + 1) empty_outbound_buffer (drop ?sp data)"
        using big by (subst raw_fill.simps) (simp add: Let_def)
      have "tail_room count obb = ?sp + tail_room (count + 1) empty_outbound_buffer"
      proof -
        have "MAX_OUTBOUND_BUFFERS_PER_SLOT - count = Suc (MAX_OUTBOUND_BUFFERS_PER_SLOT - (count + 1))"
          using False by simp
        then show ?thesis by (simp add: tail_room_def)
      qed
      then have "take (tail_room count obb) data =
          take ?sp data @ take (tail_room (count + 1) empty_outbound_buffer) (drop ?sp data)"
        by (simp only: take_add)
      then show ?thesis
        using 1(1) [OF refl big refl False] False w unfolding r by simp
    qed
  qed
qed

lemma chain_split: "bs \<noteq> [] \<Longrightarrow> outbound_bytes bs = outbound_bytes (butlast bs) @ ob_unsent (last bs)"
  by (subst append_butlast_last_id [of bs, symmetric]) (simp_all del: append_butlast_last_id)

lemma butlast_wf: "bs \<noteq> [] \<Longrightarrow> list_all ob_wf bs \<Longrightarrow> list_all ob_wf (butlast bs) \<and> ob_wf (last bs)"
  by (auto simp: list_all_iff dest: in_set_butlastD)

text \<open>The effect of a raw write on the chain.\<close>

definition written_chain :: "byte list \<Rightarrow> outbound_buffer list \<Rightarrow> outbound_buffer list" where
  "written_chain buf bs =
     (let chain = (if bs = [] then [empty_outbound_buffer] else bs)
      in butlast chain @ raw_fill (length chain) (last chain) buf)"

lemma written_chain_spec:
  assumes wf: "chain_wf bs" and len: "length bs < MAX_OUTBOUND_BUFFERS_PER_SLOT"
  shows "outbound_bytes (written_chain buf bs) = outbound_bytes bs @ take (chain_room bs) buf \<and>
    chain_wf (written_chain buf bs) \<and> written_chain buf bs \<noteq> []"
proof (cases "bs = []")
  case True
  have "tail_room 1 empty_outbound_buffer = BUFFER_SIZE * MAX_OUTBOUND_BUFFERS_PER_SLOT"
    by (simp add: tail_room_def MAX_OUTBOUND_BUFFERS_PER_SLOT_def)
  then show ?thesis
    using raw_fill_spec [of empty_outbound_buffer 1 buf] True
    by (simp add: written_chain_def chain_wf_def chain_room_def MAX_OUTBOUND_BUFFERS_PER_SLOT_def)
next
  case False
  have p: "list_all ob_wf (butlast bs)" "ob_wf (last bs)"
    using butlast_wf [OF False] wf by (auto simp: chain_wf_def)
  have one: "1 \<le> length bs" using False by (simp add: Suc_leI)
  note fill = raw_fill_spec [OF p(2) one, of buf]
  then have "length bs + length (raw_fill (length bs) (last bs) buf) \<le> MAX_OUTBOUND_BUFFERS_PER_SLOT + 1"
    using len by simp
  then have "length (butlast bs @ raw_fill (length bs) (last bs) buf) \<le> MAX_OUTBOUND_BUFFERS_PER_SLOT"
    using one unfolding length_append length_butlast by linarith
  then show ?thesis using fill len p(1) False
    by (simp add: written_chain_def chain_wf_def chain_room_def chain_split [OF False])
qed

lemma raw_write_cases:
  "comm_buffered_write_raw_comm arm buf c =
     (if c_wbio c = None \<or> buf = [] \<or> length buf > BUFFER_SIZE * MAX_OUTBOUND_BUFFERS_PER_SLOT \<or>
         length (c_outbound c) \<ge> MAX_OUTBOUND_BUFFERS_PER_SLOT then c
      else c\<lparr>c_outbound := written_chain buf (c_outbound c),
             c_flags := (let f = set_flag (c_flags c) C_BUFFERED_WRITE
                         in if \<not> has_flag f C_SOCKET_WRITABLE \<and> arm (c_wbio c)
                            then set_flag f C_SOCKET_WRITABLE else f)\<rparr>)"
  by (auto simp: comm_buffered_write_raw_comm_def written_chain_def Let_def mux_simps
      MAX_OUTBOUND_BUFFERS_PER_SLOT_def)

lemma barrier_fill_spec:
  "ob_wf obb \<Longrightarrow> 1 \<le> count \<Longrightarrow> count \<le> MAX_OUTBOUND_BUFFERS_PER_SLOT \<Longrightarrow>
   barrier_fill count obb data = (ok, bs) \<Longrightarrow>
     (ok \<longleftrightarrow> length data \<le> tail_room count obb) \<and>
     outbound_bytes bs = ob_unsent obb @ take (tail_room count obb) data \<and>
     list_all ob_wf bs \<and> bs \<noteq> [] \<and> count + length bs \<le> MAX_OUTBOUND_BUFFERS_PER_SLOT + 1"
proof (induction count obb data arbitrary: ok bs rule: barrier_fill.induct)
  case (1 count obb data)
  let ?sp = "BUFFER_SIZE - length (ob_data obb)"
  consider (nil) "data = []" | (full) "data \<noteq> []" "?sp = 0" | (copy) "data \<noteq> []" "?sp \<noteq> 0" by blast
  then show ?case
  proof cases
    case nil
    then show ?thesis using 1(3-6) by (auto simp: barrier_fill.simps)
  next
    case full
    show ?thesis
    proof (cases "count + 1 > MAX_OUTBOUND_BUFFERS_PER_SLOT")
      case True
      then show ?thesis using 1(3-6) full
        by (auto simp: barrier_fill.simps [of count obb data] tail_room_def)
    next
      case False
      obtain ok' bs' where r: "barrier_fill (count + 1) empty_outbound_buffer data = (ok', bs')"
        by fastforce
      have "MAX_OUTBOUND_BUFFERS_PER_SLOT - count = Suc (MAX_OUTBOUND_BUFFERS_PER_SLOT - (count + 1))"
        using False by simp
      then have "tail_room count obb = tail_room (count + 1) empty_outbound_buffer"
        using full by (simp add: tail_room_def)
      moreover have "ok = ok'" "bs = obb # bs'"
        using 1(6) full False r by (auto simp: barrier_fill.simps [of count obb data])
      ultimately show ?thesis
        using 1(1) [OF full(1) refl full(2) False _ _ _ r] False 1(3) by simp
    qed
  next
    case copy
    let ?k = "min ?sp (length data)"
    let ?obb = "obb\<lparr>ob_data := ob_data obb @ take ?k data\<rparr>"
    have w: "ob_wf ?obb" "ob_unsent ?obb = ob_unsent obb @ take ?k data"
      using 1(3) by (auto intro: ob_wf_append simp: ob_unsent_append)
    have tr: "tail_room count obb = ?k + tail_room count ?obb" by (simp add: tail_room_def)
    have r: "barrier_fill count ?obb (drop ?k data) = (ok, bs)"
      using 1(6) copy by (simp add: barrier_fill.simps [of count obb data] Let_def)
    have "take (tail_room count obb) data = take ?k data @ take (tail_room count ?obb) (drop ?k data)"
      unfolding tr by (rule take_add)
    moreover have "length data \<le> tail_room count obb \<longleftrightarrow>
        length (drop ?k data) \<le> tail_room count ?obb" unfolding tr by auto
    ultimately show ?thesis
      using 1(2) [OF copy(1) refl copy(2) w(1) 1(4,5) r] w(2) by simp
  qed
qed

section \<open>Newline normalisation\<close>

text \<open>Every line feed follows a carriage return; \<open>prev\<close> is the byte sent before.\<close>

fun no_bare_lf :: "byte \<Rightarrow> byte list \<Rightarrow> bool" where
  "no_bare_lf prev [] = True"
| "no_bare_lf prev (b # bs) = ((b = 10 \<longrightarrow> prev = 13) \<and> no_bare_lf b bs)"

lemma normalize_cr:
  "0 \<notin> set r \<Longrightarrow> normalize_telnet_newlines (13 # r) =
     (if r \<noteq> [] \<and> hd r = 10 then 13 # 10 # normalize_telnet_newlines (tl r)
      else 13 # normalize_telnet_newlines r)"
  by (cases r; cases "tl r") auto

lemma normalize_other:
  "ch \<noteq> 13 \<Longrightarrow> normalize_telnet_newlines (ch # r) =
     (if ch = 10 then 13 # 10 # normalize_telnet_newlines r else ch # normalize_telnet_newlines r)"
  by simp

declare normalize_telnet_newlines.simps(2) [simp del]

text \<open>Induction over a text without NUL bytes, with the three cases of the loop.\<close>

lemma text_induct [consumes 1, case_names Nil CRLF CR LF Char]:
  assumes "0 \<notin> set bs" and "P []"
    and "\<And>r. 0 \<notin> set r \<Longrightarrow> P r \<Longrightarrow> P (13 # 10 # r)"
    and "\<And>r. 0 \<notin> set r \<Longrightarrow> \<not> (r \<noteq> [] \<and> hd r = 10) \<Longrightarrow> P r \<Longrightarrow> P (13 # r)"
    and "\<And>r. 0 \<notin> set r \<Longrightarrow> P r \<Longrightarrow> P (10 # r)"
    and "\<And>ch r. 0 \<notin> set r \<Longrightarrow> ch \<noteq> 0 \<Longrightarrow> ch \<noteq> 10 \<Longrightarrow> ch \<noteq> 13 \<Longrightarrow> P r \<Longrightarrow> P (ch # r)"
  shows "P bs"
  using assms(1)
proof (induction bs rule: length_induct)
  case (1 bs)
  show ?case
  proof (cases bs)
    case Nil
    then show ?thesis using assms(2) by simp
  next
    case (Cons ch r)
    have ih: "P xs" if "length xs < length bs" "0 \<notin> set xs" for xs using 1 that by blast
    show ?thesis
    proof (cases "ch = 13 \<and> r \<noteq> [] \<and> hd r = 10")
      case True
      then obtain r' where "r = 10 # r'" by (cases r) auto
      then show ?thesis using True Cons 1(2) assms(3) ih by auto
    next
      case False
      then show ?thesis using Cons 1(2) assms(4,5,6) ih by (cases "ch = 13"; cases "ch = 10") auto
    qed
  qed
qed

lemma normalize_simps:
  "0 \<notin> set r \<Longrightarrow> normalize_telnet_newlines (13 # 10 # r) = 13 # 10 # normalize_telnet_newlines r"
  "0 \<notin> set r \<Longrightarrow> \<not> (r \<noteq> [] \<and> hd r = 10) \<Longrightarrow>
     normalize_telnet_newlines (13 # r) = 13 # normalize_telnet_newlines r"
  "normalize_telnet_newlines (10 # r) = 13 # 10 # normalize_telnet_newlines r"
  "ch \<noteq> 10 \<Longrightarrow> ch \<noteq> 13 \<Longrightarrow> normalize_telnet_newlines (ch # r) = ch # normalize_telnet_newlines r"
  using normalize_cr [of "10 # r"] normalize_cr [of r] by (auto simp: normalize_other)

lemma normalize_no_nul: "0 \<notin> set bs \<Longrightarrow> 0 \<notin> set (normalize_telnet_newlines bs)"
  by (induction bs rule: text_induct) (simp_all add: normalize_simps)

lemma normalize_hd:
  "0 \<notin> set bs \<Longrightarrow> \<not> (normalize_telnet_newlines bs \<noteq> [] \<and> hd (normalize_telnet_newlines bs) = 10)"
  by (induction bs rule: text_induct) (simp_all add: normalize_simps)

lemma normalize_no_bare_lf: "0 \<notin> set bs \<Longrightarrow> no_bare_lf prev (normalize_telnet_newlines bs)"
  by (induction bs arbitrary: prev rule: text_induct) (simp_all add: normalize_simps)

lemma normalize_idem:
  "0 \<notin> set bs \<Longrightarrow>
     normalize_telnet_newlines (normalize_telnet_newlines bs) = normalize_telnet_newlines bs"
  by (induction bs rule: text_induct)
    (simp_all add: normalize_simps normalize_no_nul normalize_hd)

lemma normalize_text:
  "0 \<notin> set bs \<Longrightarrow> filter (\<lambda>b. b \<noteq> 13) (normalize_telnet_newlines bs) = filter (\<lambda>b. b \<noteq> 13) bs"
  by (induction bs rule: text_induct) (simp_all add: normalize_simps)

text \<open>
  The two tests after a carriage return are not exclusive: \<^verbatim>\<open>CR LF NUL\<close> loses its NUL and gains a
  bare line feed.
\<close>

lemma normalize_crlf_nul: "normalize_telnet_newlines [13, 10, 0] = [13, 10, 10]"
  by (simp add: normalize_telnet_newlines.simps)

section \<open>Flushing\<close>

text \<open>
  What \<^verbatim>\<open>SSL_write_ex\<close> and \<^verbatim>\<open>BIO_write\<close> document: a successful write of a non-empty buffer takes at least
  one byte and at most all of them.
\<close>

definition transport_ok :: "('e \<Rightarrow> byte list \<Rightarrow> write_outcome \<times> 'e) \<Rightarrow> bool" where
  "transport_ok send \<longleftrightarrow>
     (\<forall>e data n e'. data \<noteq> [] \<longrightarrow> send e data = (Took n, e') \<longrightarrow> 0 < n \<and> n \<le> length data)"

lemma transport_okD:
  "transport_ok send \<Longrightarrow> data \<noteq> [] \<Longrightarrow> send e data = (Took n, e') \<Longrightarrow> 0 < n \<and> n \<le> length data"
  by (simp add: transport_ok_def) blast

lemma ob_unsent_advance:
  "ob_wf b \<Longrightarrow> n \<le> length (ob_unsent b) \<Longrightarrow>
     ob_unsent (b\<lparr>ob_start := ob_start b + n\<rparr>) = drop n (ob_unsent b) \<and>
     ob_wf (b\<lparr>ob_start := ob_start b + n\<rparr>) \<and>
     (ob_start b + n < length (ob_data b) \<longleftrightarrow> n < length (ob_unsent b))"
  by (auto simp: ob_unsent_def ob_wf_def add.commute)

lemma flush_chain_total:
  "transport_ok send \<Longrightarrow> list_all ob_wf bs \<Longrightarrow> length (outbound_bytes bs) + length bs \<le> fuel \<Longrightarrow>
    flush_chain send fuel e bs \<noteq> None"
proof (induction send fuel e bs rule: flush_chain.induct)
  case (3 send fuel e obb bs)
  show ?case
  proof (cases "ob_unsent obb = []")
    case True
    then show ?thesis using 3 by simp
  next
    case False
    obtain oc e' where w: "send e (ob_unsent obb) = (oc, e')" by fastforce
    show ?thesis
    proof (cases oc)
      case (Took n)
      have n: "0 < n" "n \<le> length (ob_unsent obb)" using transport_okD [OF "3.prems"(1) False] w Took by auto
      have "ob_wf obb" using "3.prems"(2) by simp
      note adv = ob_unsent_advance [OF this n(2)]
      have "flush_chain send fuel e' (if ob_start obb + n < length (ob_data obb)
          then obb\<lparr>ob_start := ob_start obb + n\<rparr> # bs else bs) \<noteq> None"
        using "3.IH"(2) [OF False w [symmetric] Took refl] "3.prems" adv n
        by (auto split: if_splits)
      then show ?thesis using w Took False by simp
    qed (use w False in auto)
  qed
qed auto

lemma flush_chain_stream:
  "transport_ok send \<Longrightarrow> list_all ob_wf bs \<Longrightarrow> flush_chain send fuel e bs = Some (st, sent, rest, e') \<Longrightarrow>
    list_all ob_wf rest \<and> length rest \<le> length bs \<and>
    (case st of
       Drained \<Rightarrow> rest = [] \<and> sent = outbound_bytes bs
     | Stalled \<Rightarrow> rest \<noteq> [] \<and> sent @ outbound_bytes rest = outbound_bytes bs
     | Broken \<Rightarrow> rest = [] \<and> (\<exists>lost. sent @ lost = outbound_bytes bs))"
proof (induction send fuel e bs arbitrary: st sent rest e' rule: flush_chain.induct)
  case (3 send fuel e obb bs)
  show ?case
  proof (cases "ob_unsent obb = []")
    case True
    have "list_all ob_wf bs" "flush_chain send fuel e bs = Some (st, sent, rest, e')"
      using "3.prems" True by simp_all
    from "3.IH"(1) [OF True "3.prems"(1) this] True show ?thesis by (auto split: flush_status.splits)
  next
    case False
    obtain oc e1 where w: "send e (ob_unsent obb) = (oc, e1)" by fastforce
    show ?thesis
    proof (cases oc)
      case (Took n)
      have n: "0 < n" "n \<le> length (ob_unsent obb)" using transport_okD [OF "3.prems"(1) False] w Took by auto
      have "ob_wf obb" using "3.prems"(2) by simp
      note adv = ob_unsent_advance [OF this n(2)]
      let ?bs = "if ob_start obb + n < length (ob_data obb)
          then obb\<lparr>ob_start := ob_start obb + n\<rparr> # bs else bs"
      obtain sent1 where r: "flush_chain send fuel e1 ?bs = Some (st, sent1, rest, e')"
        "sent = take n (ob_unsent obb) @ sent1"
        using "3.prems"(3) w Took False by auto
      have wf: "list_all ob_wf ?bs" using "3.prems"(2) adv by simp
      have "outbound_bytes (obb # bs) = take n (ob_unsent obb) @ outbound_bytes ?bs"
        using adv by simp
      then show ?thesis
        using "3.IH"(2) [OF False w [symmetric] Took refl, simplified, OF "3.prems"(1) wf r(1)] r(2)
        by (auto split: flush_status.splits if_splits)
    qed (use "3.prems" w False in \<open>auto\<close>)
  qed
qed auto

section \<open>Properties\<close>




text \<open>
  C11. Flushing loses, repeats and reorders nothing. For every transport that takes between one byte and
  all bytes of a successful write, the loop ends, and the bytes handed to the transport followed by
  the bytes still queued are the bytes that were queued: nothing remains after a full flush, and a
  stalled flush resumes exactly where it stopped. Only a failed write discards the remainder.
\<close>

theorem flush_preserves_stream:
  assumes "transport_ok send" and "chain_wf bs"
    and "length (outbound_bytes bs) + length bs \<le> fuel"
  shows "\<exists>st sent rest e'. flush_chain send fuel e bs = Some (st, sent, rest, e') \<and> chain_wf rest \<and>
    (case st of
       Drained \<Rightarrow> rest = [] \<and> sent = outbound_bytes bs
     | Stalled \<Rightarrow> rest \<noteq> [] \<and> sent @ outbound_bytes rest = outbound_bytes bs
     | Broken \<Rightarrow> rest = [] \<and> (\<exists>lost. sent @ lost = outbound_bytes bs))"
proof -
  have wf: "list_all ob_wf bs" using assms(2) by (simp add: chain_wf_def)
  obtain st sent rest e' where r: "flush_chain send fuel e bs = Some (st, sent, rest, e')"
    using flush_chain_total [OF assms(1) wf assms(3), of e] by (metis not_None_eq prod_cases4)
  from flush_chain_stream [OF assms(1) wf r] r show ?thesis
    using assms(2) unfolding chain_wf_def by (intro exI conjI) auto
qed

text \<open>A transport that takes two bytes at a time and stalls on its third call.\<close>

definition slow_send :: "nat \<Rightarrow> byte list \<Rightarrow> write_outcome \<times> nat" where
  "slow_send e data = (if e \<ge> 2 then Again else Took (min 2 (length data)), e + 1)"

definition five_bytes :: "outbound_buffer list" where
  "five_bytes = [\<lparr>ob_start = 1, ob_data = [0, 1, 2, 3, 4, 5]\<rparr>]"

theorem flush_preserves_stream_witness:
  "flush_chain slow_send 6 0 five_bytes =
     Some (Stalled, [1, 2, 3, 4], [\<lparr>ob_start = 5, ob_data = [0, 1, 2, 3, 4, 5]\<rparr>], 3) \<and>
   (\<exists>st sent rest e'. flush_chain slow_send 6 0 five_bytes = Some (st, sent, rest, e') \<and> chain_wf rest)"
proof -
  have "transport_ok slow_send" by (auto simp: transport_ok_def slow_send_def)
  moreover have "chain_wf five_bytes"
    by (simp add: chain_wf_def five_bytes_def ob_wf_def BUFFER_SIZE_def
        MAX_OUTBOUND_BUFFERS_PER_SLOT_def)
  moreover have "length (outbound_bytes five_bytes) + length five_bytes \<le> 6"
    by (simp add: five_bytes_def ob_unsent_def)
  ultimately show ?thesis
    using flush_preserves_stream [of slow_send five_bytes 6 0]
    by (auto simp: five_bytes_def ob_unsent_def slow_send_def eval_nat_numeral)
qed


end
