(* ===== verification/Websocket_Inbound.thy ===== *)
theory Websocket_Inbound
  imports Outbound
begin

text \<open>
  \<^verbatim>\<open>comm_websocket_process_inbound\<close> of \<^verbatim>\<open>lib/comm/websocket.cpp\<close>: the loop that takes complete client
  frames off the buffered wire, answers pings, performs the close handshake, reassembles fragmented
  messages and validates text. The theory shows that reassembly is exact and that the messages do not
  depend on the read boundaries.
\<close>

section \<open>Handling one frame\<close>

text \<open>
  What the loop does with a frame: go on, deliver a message, or fail with a close code (0 for a close
  that the peer initiated). The slot record is updated in every case.
\<close>

datatype frame_action = Go_on | Deliver "byte list" | Stop int

definition websocket_of :: "comm_abstract \<Rightarrow> comm_websocket_state" where
  "websocket_of c = (case c_websocket c of Some w \<Rightarrow> w | None \<Rightarrow> new_websocket_state)"

definition set_fragment :: "byte \<Rightarrow> byte list \<Rightarrow> comm_abstract \<Rightarrow> comm_abstract" where
  "set_fragment opcode payload c =
     c\<lparr>c_websocket := Some ((websocket_of c)\<lparr>fragmented_opcode := opcode, fragmented_payload := payload\<rparr>)\<rparr>"

definition ws_handle_frame ::
  "(nat option \<Rightarrow> bool) \<Rightarrow> bool \<Rightarrow> byte \<Rightarrow> byte list \<Rightarrow> comm_abstract \<Rightarrow> frame_action \<times> comm_abstract"
where
  "ws_handle_frame arm fin opcode payload c =
     (if opcode = 0x8 then
        (if length payload = 1 then (Stop 1002, c)
         else let c1 = snd (comm_websocket_queue_close arm payload c)
              in (Stop 0, c1\<lparr>c_flags := C_WEBSOCKET_SET_STATE (c_flags c1) WS_CLOSE_RECEIVED\<rparr>))
      else if opcode = 0x9 then
        (case comm_websocket_encode_frame payload 0xA of
           Some pong \<Rightarrow> (Go_on, comm_buffered_write_raw_comm arm pong c)
         | None \<Rightarrow> (Go_on, c))
      else if opcode = 0xA then (Go_on, c)
      else if opcode = 0x0 then
        (let w = websocket_of c; data = fragmented_payload w @ payload;
             c1 = set_fragment (fragmented_opcode w) data c in
         if fragmented_opcode w = 0 then (Stop 1002, c)
         else if length data > K_MAX_MESSAGE_BYTES then (Stop 1009, c1)
         else if fin then
           (if fragmented_opcode w = 0x1 \<and> \<not> is_valid_utf8 data then (Stop 1007, c1)
            else (Deliver data, set_fragment 0 [] c))
         else (Go_on, c1))
      else if opcode = 0x1 \<or> opcode = 0x2 then
        (if fragmented_opcode (websocket_of c) \<noteq> 0 then (Stop 1002, c)
         else if fin then
           (if opcode = 0x1 \<and> \<not> is_valid_utf8 payload then (Stop 1007, c) else (Deliver payload, c))
         else (Go_on, set_fragment opcode payload c))
      else (Go_on, c))"

section \<open>The loop\<close>

text \<open>
  \<open>limit\<close> is the number of messages still wanted (\<open>None\<close> for \<^verbatim>\<open>SIZE_MAX\<close>). The result is the return
  value with the close code of a failure, the number of bytes consumed by the loop, the messages and
  the slot. As in the code, a failing call reports no consumed bytes: \<open>comm_websocket_process_inbound\<close>
  below sets \<^verbatim>\<open>*consumed\<close> only on success.
\<close>

function ws_loop ::
  "(nat option \<Rightarrow> bool) \<Rightarrow> nat option \<Rightarrow> comm_abstract \<Rightarrow> byte list \<Rightarrow>
   int option \<times> nat \<times> byte list list \<times> comm_abstract" where
  "ws_loop arm limit c wire =
     (case ws_next_frame wire of
        Frame_partial \<Rightarrow> (None, 0, [], c)
      | Frame_invalid code \<Rightarrow> (Some code, 0, [], c)
      | Frame fin opcode payload n \<Rightarrow>
          (case ws_handle_frame arm fin opcode payload c of
             (Stop code, c1) \<Rightarrow> (Some code, n, [], c1)
           | (Go_on, c1) \<Rightarrow>
               (let (r, k, ms, c2) = ws_loop arm limit c1 (drop n wire) in (r, n + k, ms, c2))
           | (Deliver m, c1) \<Rightarrow>
               (if limit \<noteq> None \<and> the limit \<le> 1 then (None, n, [m], c1)
                else let (r, k, ms, c2) =
                       ws_loop arm (map_option (\<lambda>j. j - 1) limit) c1 (drop n wire)
                     in (r, n + k, m # ms, c2))))"
  by pat_completeness auto
termination
  by (relation "measure (\<lambda>(arm, limit, c, wire). length wire)")
    (auto dest!: ws_next_frame_Frame)

declare ws_loop.simps [simp del]

definition comm_websocket_process_inbound ::
  "(nat option \<Rightarrow> bool) \<Rightarrow> nat option \<Rightarrow> comm_abstract \<Rightarrow> byte list \<Rightarrow>
   bool \<times> nat \<times> byte list list \<times> int \<times> comm_abstract" where
  "comm_websocket_process_inbound arm limit c wire =
     (let c0 = c\<lparr>c_websocket := Some (websocket_of c)\<rparr> in
      case ws_loop arm limit c0 wire of
        (None, k, ms, c1) \<Rightarrow> (True, k, ms, 1002, c1)
      | (Some code, k, ms, c1) \<Rightarrow> (False, 0, ms, code, c1))"

definition comm_websocket_has_pending_input :: "comm_abstract \<Rightarrow> bool" where
  "comm_websocket_has_pending_input c =
     (case c_websocket c of
        None \<Rightarrow> False
      | Some w \<Rightarrow> fragmented_opcode w \<noteq> 0 \<or> fragmented_payload w \<noteq> [] \<or>
                  pending_wire w \<noteq> [] \<or> decoded_input w \<noteq> [])"

definition comm_websocket_preferred_protocols :: "comm_abstract \<Rightarrow> byte list" where
  "comm_websocket_preferred_protocols c =
     (case c_websocket c of Some w \<Rightarrow> preferred_protocols w | None \<Rightarrow> [])"

section \<open>Feeding a connection\<close>

text \<open>
  The decoder as its caller runs it: bytes that do not make a complete frame wait for the next read,
  and nothing is decoded after a failure or a close.
\<close>

datatype ws_conn = Open comm_abstract "byte list" | Closed int comm_abstract

fun ws_feed :: "(nat option \<Rightarrow> bool) \<Rightarrow> ws_conn \<Rightarrow> byte list \<Rightarrow> byte list list \<times> ws_conn" where
  "ws_feed arm (Open c pending) data =
     (case ws_loop arm None c (pending @ data) of
        (None, k, ms, c1) \<Rightarrow> (ms, Open c1 (drop k (pending @ data)))
      | (Some code, k, ms, c1) \<Rightarrow> (ms, Closed code c1))"
| "ws_feed arm (Closed code c) data = ([], Closed code c)"

text \<open>The bytes that wait are no complete frame.\<close>

fun ws_conn_ok :: "ws_conn \<Rightarrow> bool" where
  "ws_conn_ok (Open c pending) = (ws_next_frame pending = Frame_partial)"
| "ws_conn_ok (Closed code c) = True"

section \<open>Read boundaries\<close>

lemma ws_loop_partial: "ws_next_frame wire = Frame_partial \<Longrightarrow> ws_loop arm limit c wire = (None, 0, [], c)"
  by (simp add: ws_loop.simps)

lemma ws_loop_invalid:
  "ws_next_frame wire = Frame_invalid code \<Longrightarrow> ws_loop arm limit c wire = (Some code, 0, [], c)"
  by (simp add: ws_loop.simps)

lemma ws_loop_frame:
  "ws_next_frame wire = Frame fin opcode payload n \<Longrightarrow>
   ws_loop arm None c wire =
     (case ws_handle_frame arm fin opcode payload c of
        (Stop code, c1) \<Rightarrow> (Some code, n, [], c1)
      | (Go_on, c1) \<Rightarrow>
          (let (r, k, ms, c2) = ws_loop arm None c1 (drop n wire) in (r, n + k, ms, c2))
      | (Deliver m, c1) \<Rightarrow>
          (let (r, k, ms, c2) = ws_loop arm None c1 (drop n wire) in (r, n + k, m # ms, c2)))"
  by (simp add: ws_loop.simps [of arm None c wire] split: frame_action.split prod.split)

lemma ws_loop_rest_partial:
  "ws_loop arm None c wire = (None, k, ms, c1) \<Longrightarrow>
     ws_next_frame (drop k wire) = Frame_partial \<and> k \<le> length wire"
proof (induction arm "None :: nat option" c wire arbitrary: k ms c1 rule: ws_loop.induct)
  case (1 arm c wire)
  show ?case
  proof (cases "ws_next_frame wire")
    case Frame_partial
    then show ?thesis using 1(3) by (simp add: ws_loop_partial)
  next
    case (Frame_invalid code)
    then show ?thesis using 1(3) by (simp add: ws_loop_invalid)
  next
    case (Frame fin opcode payload n)
    have n: "n \<le> length wire" using ws_next_frame_Frame [OF Frame] by simp
    obtain act c' where h: "ws_handle_frame arm fin opcode payload c = (act, c')" by fastforce
    obtain r j ms' c'' where l: "ws_loop arm None c' (drop n wire) = (r, j, ms', c'')"
      by (metis prod_cases4)
    have r: "r = None" "k = n + j" "c'' = c1" "act \<noteq> Stop x" for x
      using 1(3) Frame h l by (auto simp: ws_loop_frame split: frame_action.splits)
    have "ws_next_frame (drop j (drop n wire)) = Frame_partial \<and> j \<le> length (drop n wire)"
    proof (cases act)
      case Go_on
      then show ?thesis using 1(1) [OF Frame h [symmetric]] l r(1) by simp
    next
      case (Deliver m)
      then show ?thesis using 1(2) [OF Frame h [symmetric]] l r(1) by simp
    qed (use r in blast)
    then show ?thesis using r(2) n by (auto simp: add.commute)
  qed
qed

lemma ws_loop_append:
  "ws_loop arm None c wire = (r, k, ms, c1) \<Longrightarrow>
   ws_loop arm None c (wire @ later) =
     (case r of
        Some code \<Rightarrow> (r, k, ms, c1)
      | None \<Rightarrow> (let (r2, k2, ms2, c2) = ws_loop arm None c1 (drop k wire @ later)
                 in (r2, k + k2, ms @ ms2, c2)))"
proof (induction arm "None :: nat option" c wire arbitrary: r k ms c1 rule: ws_loop.induct)
  case (1 arm c wire)
  show ?case
  proof (cases "ws_next_frame wire")
    case Frame_partial
    then show ?thesis using 1(3) by (auto simp: ws_loop_partial split_beta)
  next
    case (Frame_invalid code)
    then have "ws_next_frame (wire @ later) = Frame_invalid code" by (simp add: ws_next_frame_append)
    then show ?thesis using 1(3) Frame_invalid by (auto simp: ws_loop_invalid)
  next
    case (Frame fin opcode payload n)
    have n: "n \<le> length wire" using ws_next_frame_Frame [OF Frame] by simp
    have f: "ws_next_frame (wire @ later) = Frame fin opcode payload n"
      using Frame by (simp add: ws_next_frame_append)
    obtain act c' where h: "ws_handle_frame arm fin opcode payload c = (act, c')" by fastforce
    obtain r' j ms' c'' where l: "ws_loop arm None c' (drop n wire) = (r', j, ms', c'')"
      by (metis prod_cases4)
    have d: "n - length wire = 0" using n by simp
    show ?thesis
    proof (cases act)
      case (Stop code)
      then show ?thesis using 1(3) Frame f h by (auto simp: ws_loop_frame)
    next
      case Go_on
      note ih = 1(1) [OF Frame h [symmetric] Go_on, simplified, OF l]
      show ?thesis using 1(3) Frame f h l Go_on ih
        by (auto simp: ws_loop_frame d add_ac split: option.splits prod.splits)
    next
      case (Deliver m)
      note ih = 1(2) [OF Frame h [symmetric] Deliver, simplified, OF l]
      show ?thesis using 1(3) Frame f h l Deliver ih
        by (auto simp: ws_loop_frame d add_ac split: option.splits prod.splits)
    qed
  qed
qed

lemma drop_add_append: "k \<le> length w \<Longrightarrow> drop (k + j) (w @ ys) = drop j (drop k w @ ys)"
proof -
  assume "k \<le> length w"
  then have "drop k (w @ ys) = drop k w @ ys" by simp
  moreover have "drop (k + j) (w @ ys) = drop j (drop k (w @ ys))"
    by (simp only: drop_drop add.commute)
  ultimately show ?thesis by simp
qed

interpretation ws_stream: stream_decoder "ws_feed arm" ws_conn_ok for arm
proof
  fix s :: ws_conn and xs ys :: "byte list"
  assume ok: "ws_conn_ok s"
  show "ws_feed arm s [] = ([], s)" using ok by (cases s) (simp_all add: ws_loop_partial)
  show "ws_conn_ok (snd (ws_feed arm s xs))"
    using ok by (cases s) (auto dest: ws_loop_rest_partial split: prod.split option.split)
  show "ws_feed arm s (xs @ ys) = (let (m, s1) = ws_feed arm s xs; (n, s2) = ws_feed arm s1 ys in (m @ n, s2))"
  proof (cases s)
    case (Open c pending)
    obtain r k ms c1 where l: "ws_loop arm None c (pending @ xs) = (r, k, ms, c1)" by (metis prod_cases4)
    show ?thesis
    proof (cases r)
      case None
      obtain r2 k2 ms2 c2 where l2: "ws_loop arm None c1 (drop k (pending @ xs) @ ys) = (r2, k2, ms2, c2)"
        by (metis prod_cases4)
      have k: "k \<le> length (pending @ xs)" using l None ws_loop_rest_partial by blast
      then have d: "drop (k + k2) (pending @ xs @ ys) = drop k2 (drop k (pending @ xs) @ ys)"
        using drop_add_append [OF k, of k2 ys] by simp
      have "ws_loop arm None c (pending @ xs @ ys) = (r2, k + k2, ms @ ms2, c2)"
        using ws_loop_append [OF l, of ys] None l2 by simp
      then show ?thesis using Open l None l2 d by (simp split: option.split)
    next
      case (Some code)
      then show ?thesis using Open l ws_loop_append [OF l, of ys] by simp
    qed
  qed simp
qed

section \<open>Reassembly\<close>

text \<open>
  A data message as a client may send it: fragments, each with its own masking key, and any number of
  pings before each of them.
\<close>

type_synonym fragment = "(byte list \<times> byte list) list \<times> byte list \<times> byte list"

definition ping_wire :: "(byte list \<times> byte list) list \<Rightarrow> byte list" where
  "ping_wire ps = concat (map (\<lambda>(key, p). client_frame True 9 key p) ps)"

fun message_wire :: "byte \<Rightarrow> fragment list \<Rightarrow> byte list" where
  "message_wire opcode [] = []"
| "message_wire opcode ((pings, key, p) # r) =
     ping_wire pings @ client_frame (r = []) opcode key p @ message_wire 0 r"

definition message_payload :: "fragment list \<Rightarrow> byte list" where
  "message_payload fs = concat (map (\<lambda>(pings, key, p). p) fs)"

definition ping_ok :: "byte list \<times> byte list \<Rightarrow> bool" where
  "ping_ok x \<longleftrightarrow> length (fst x) = 4 \<and> length (snd x) \<le> 125"

definition fragment_ok :: "fragment \<Rightarrow> bool" where
  "fragment_ok f \<longleftrightarrow> list_all ping_ok (fst f) \<and> length (fst (snd f)) = 4"

lemma message_payload_simps [simp]:
  "message_payload [] = []"
  "message_payload ((pings, key, p) # r) = p @ message_payload r"
  by (simp_all add: message_payload_def)

definition advance ::
  "nat \<Rightarrow> byte list list \<Rightarrow> int option \<times> nat \<times> byte list list \<times> comm_abstract \<Rightarrow>
   int option \<times> nat \<times> byte list list \<times> comm_abstract" where
  "advance n ms x = (case x of (r, k, ms', c) \<Rightarrow> (r, n + k, ms @ ms', c))"

lemma advance_advance [simp]: "advance n ms (advance m ms' x) = advance (n + m) (ms @ ms') x"
  by (cases x) (simp add: advance_def)

lemma advance_let: "(let (r, k, ms, c) = x in (r, n + k, ms, c)) = advance n [] x"
  "(let (r, k, ms, c) = x in (r, n + k, m # ms, c)) = advance n [m] x"
  by (simp_all add: advance_def split: prod.split)

text \<open>Running the loop over one complete frame.\<close>

lemma ws_loop_client_frame:
  assumes "client_opcode opcode" "length key = 4" "length payload \<le> K_MAX_MESSAGE_BYTES"
    "opcode AND 0x08 \<noteq> 0 \<Longrightarrow> fin \<and> length payload \<le> 125"
  shows "ws_loop arm None c (client_frame fin opcode key payload @ rest) =
     (let n = length (client_frame fin opcode key payload) in
      case ws_handle_frame arm fin opcode payload c of
        (Stop code, c1) \<Rightarrow> (Some code, n, [], c1)
      | (Go_on, c1) \<Rightarrow> advance n [] (ws_loop arm None c1 rest)
      | (Deliver m, c1) \<Rightarrow> advance n [m] (ws_loop arm None c1 rest))"
proof -
  have d: "drop (length (client_frame fin opcode key payload)) (client_frame fin opcode key payload @ rest)
    = rest" by simp
  have f: "ws_next_frame (client_frame fin opcode key payload @ rest) =
      Frame fin opcode payload (length (client_frame fin opcode key payload))"
    by (rule ws_next_frame_complete) (use assms in auto)
  show ?thesis unfolding ws_loop_frame [OF f, of arm c] d advance_let Let_def [of "length _"]
    by (rule refl)
qed

lemma raw_write_websocket [simp]: "c_websocket (comm_buffered_write_raw_comm arm buf c) = c_websocket c"
  by (simp add: raw_write_cases)

lemma ws_loop_pings:
  "list_all ping_ok ps \<Longrightarrow> \<exists>c'. c_websocket c' = c_websocket c \<and>
     ws_loop arm None c (ping_wire ps @ rest) = advance (length (ping_wire ps)) [] (ws_loop arm None c' rest)"
proof (induction ps arbitrary: c)
  case Nil
  then show ?case by (auto simp: ping_wire_def advance_def split: prod.split intro!: exI [of _ c])
next
  case (Cons x ps)
  obtain key p where x: "x = (key, p)" by fastforce
  obtain c1 where h: "ws_handle_frame arm True 9 p c = (Go_on, c1)" "c_websocket c1 = c_websocket c"
    by (cases "comm_websocket_encode_frame p 10") (simp_all add: ws_handle_frame_def)
  obtain c' where c': "c_websocket c' = c_websocket c1"
    "ws_loop arm None c1 (ping_wire ps @ rest) = advance (length (ping_wire ps)) [] (ws_loop arm None c' rest)"
    using Cons by fastforce
  have "ws_loop arm None c (client_frame True 9 key p @ ping_wire ps @ rest) =
      advance (length (client_frame True 9 key p)) [] (ws_loop arm None c1 (ping_wire ps @ rest))"
    using Cons.prems x
    by (subst ws_loop_client_frame)
      (auto simp: client_opcode_def ping_ok_def K_MAX_MESSAGE_BYTES_def h Let_def)
  then show ?case using c' h(2) x by (auto simp: ping_wire_def intro!: exI [of _ c'])
qed

lemma websocket_of_cong: "c_websocket c' = c_websocket c \<Longrightarrow> websocket_of c' = websocket_of c"
  by (simp add: websocket_of_def)

lemma websocket_of_set_fragment [simp]:
  "fragmented_opcode (websocket_of (set_fragment opcode p c)) = opcode"
  "fragmented_payload (websocket_of (set_fragment opcode p c)) = p"
  by (simp_all add: websocket_of_def set_fragment_def)

lemma ws_loop_continuation:
  "parts \<noteq> [] \<Longrightarrow> list_all fragment_ok parts \<Longrightarrow>
   fragmented_opcode (websocket_of c) = op \<Longrightarrow> op \<noteq> 0 \<Longrightarrow> fragmented_payload (websocket_of c) = acc \<Longrightarrow>
   length (acc @ message_payload parts) \<le> K_MAX_MESSAGE_BYTES \<Longrightarrow>
   (op = 1 \<Longrightarrow> is_valid_utf8 (acc @ message_payload parts)) \<Longrightarrow>
   \<exists>c'. fragmented_opcode (websocket_of c') = 0 \<and>
     ws_loop arm None c (message_wire 0 parts @ rest) =
     advance (length (message_wire 0 parts)) [acc @ message_payload parts] (ws_loop arm None c' rest)"
proof (induction parts arbitrary: c acc)
  case (Cons x r)
  obtain pings key p where x: "x = (pings, key, p)" by (metis prod_cases3)
  let ?f = "client_frame (r = []) 0 key p"
  obtain c1 where c1: "c_websocket c1 = c_websocket c"
    "ws_loop arm None c (ping_wire pings @ ?f @ message_wire 0 r @ rest) =
     advance (length (ping_wire pings)) [] (ws_loop arm None c1 (?f @ message_wire 0 r @ rest))"
    using ws_loop_pings [of pings c arm] Cons.prems(2) x by (fastforce simp: fragment_ok_def)
  note w = websocket_of_cong [OF c1(1)]
  have fr: "ws_loop arm None c1 (?f @ message_wire 0 r @ rest) =
     (case ws_handle_frame arm (r = []) 0 p c1 of
        (Stop code, c1) \<Rightarrow> (Some code, length ?f, [], c1)
      | (Go_on, c1) \<Rightarrow> advance (length ?f) [] (ws_loop arm None c1 (message_wire 0 r @ rest))
      | (Deliver m, c1) \<Rightarrow> advance (length ?f) [m] (ws_loop arm None c1 (message_wire 0 r @ rest)))"
    using Cons.prems(2,6) x
    by (subst ws_loop_client_frame) (auto simp: client_opcode_def fragment_ok_def Let_def)
  show ?case
  proof (cases "r = []")
    case True
    then have "ws_handle_frame arm (r = []) 0 p c1 = (Deliver (acc @ p), set_fragment 0 [] c1)"
      using Cons.prems x by (auto simp: ws_handle_frame_def Let_def w)
    then show ?thesis using c1(2) fr True x by (auto intro!: exI [of _ "set_fragment 0 [] c1"])
  next
    case False
    then have h: "ws_handle_frame arm (r = []) 0 p c1 = (Go_on, set_fragment op (acc @ p) c1)"
      using Cons.prems x by (auto simp: ws_handle_frame_def Let_def w)
    obtain c' where "fragmented_opcode (websocket_of c') = 0"
      "ws_loop arm None (set_fragment op (acc @ p) c1) (message_wire 0 r @ rest) =
       advance (length (message_wire 0 r)) [(acc @ p) @ message_payload r] (ws_loop arm None c' rest)"
      using Cons.IH [of "set_fragment op (acc @ p) c1" "acc @ p"] Cons.prems False x by auto
    then show ?thesis using c1(2) fr h x by (auto intro!: exI [of _ c'] simp: add_ac)
  qed
qed simp

lemma ws_loop_message:
  assumes "parts \<noteq> []" "list_all fragment_ok parts" "op = 1 \<or> op = 2"
    and idle: "fragmented_opcode (websocket_of c) = 0"
    and len: "length (message_payload parts) \<le> K_MAX_MESSAGE_BYTES"
    and utf8: "op = 1 \<Longrightarrow> is_valid_utf8 (message_payload parts)"
  shows "\<exists>c'. fragmented_opcode (websocket_of c') = 0 \<and>
     ws_loop arm None c (message_wire op parts @ rest) =
     advance (length (message_wire op parts)) [message_payload parts] (ws_loop arm None c' rest)"
proof -
  obtain pings key p r where parts: "parts = (pings, key, p) # r"
    using assms(1) by (metis list.exhaust prod_cases3)
  let ?f = "client_frame (r = []) op key p"
  obtain c1 where c1: "c_websocket c1 = c_websocket c"
    "ws_loop arm None c (ping_wire pings @ ?f @ message_wire 0 r @ rest) =
     advance (length (ping_wire pings)) [] (ws_loop arm None c1 (?f @ message_wire 0 r @ rest))"
    using ws_loop_pings [of pings c arm] assms(2) parts by (fastforce simp: fragment_ok_def)
  note w = websocket_of_cong [OF c1(1)]
  have fr: "ws_loop arm None c1 (?f @ message_wire 0 r @ rest) =
     (case ws_handle_frame arm (r = []) op p c1 of
        (Stop code, c1) \<Rightarrow> (Some code, length ?f, [], c1)
      | (Go_on, c1) \<Rightarrow> advance (length ?f) [] (ws_loop arm None c1 (message_wire 0 r @ rest))
      | (Deliver m, c1) \<Rightarrow> advance (length ?f) [m] (ws_loop arm None c1 (message_wire 0 r @ rest)))"
    using assms(2,3) len parts
    by (subst ws_loop_client_frame) (auto simp: client_opcode_def fragment_ok_def Let_def)
  show ?thesis
  proof (cases "r = []")
    case True
    then have "ws_handle_frame arm (r = []) op p c1 = (Deliver p, c1)"
      using assms(3) utf8 idle parts by (auto simp: ws_handle_frame_def w)
    then show ?thesis using c1(2) fr True parts idle by (auto intro!: exI [of _ c1] simp: w)
  next
    case False
    then have h: "ws_handle_frame arm (r = []) op p c1 = (Go_on, set_fragment op p c1)"
      using assms(3) idle by (auto simp: ws_handle_frame_def w)
    obtain c' where "fragmented_opcode (websocket_of c') = 0"
      "ws_loop arm None (set_fragment op p c1) (message_wire 0 r @ rest) =
       advance (length (message_wire 0 r)) [p @ message_payload r] (ws_loop arm None c' rest)"
      using ws_loop_continuation [of r "set_fragment op p c1" op p arm rest] assms False parts by auto
    then show ?thesis using c1(2) fr h parts by (auto intro!: exI [of _ c'] simp: add_ac)
  qed
qed

section \<open>Properties\<close>



end
