(* ===== verification/Websocket_Handshake.thy ===== *)
theory Websocket_Handshake
  imports Comm_Types
begin

text \<open>
  The HTTP part of the WebSocket upgrade in \<^verbatim>\<open>lib/comm/websocket.cpp\<close>: ASCII helpers, header parsing,
  negotiation of the subprotocol, and the responses. SHA-1 and Base64 come from OpenSSL and are
  parameters: \<open>sha1\<close> returns the digest or fails, \<open>b64\<close> the encoded text or fails. Character
  classification is that of the C locale.
\<close>

section \<open>ASCII helpers\<close>

definition tolower :: "byte \<Rightarrow> byte" where
  "tolower c = (if 65 \<le> c \<and> c \<le> 90 then c + 32 else c)"

definition isspace :: "byte \<Rightarrow> bool" where
  "isspace c \<longleftrightarrow> (9 \<le> c \<and> c \<le> 13) \<or> c = 32"

definition to_lower_ascii :: "byte list \<Rightarrow> byte list" where
  "to_lower_ascii s = map tolower s"

definition trim_ascii :: "byte list \<Rightarrow> byte list" where
  "trim_ascii s = rev (dropWhile isspace (rev (dropWhile isspace s)))"

text \<open>The substrings that the comma loops visit; a trailing comma adds none.\<close>

function csv_tokens :: "byte list \<Rightarrow> byte list list" where
  "csv_tokens csv =
     (if csv = [] then []
      else takeWhile (\<lambda>b. b \<noteq> 44) csv #
           (case dropWhile (\<lambda>b. b \<noteq> 44) csv of [] \<Rightarrow> [] | _ # r \<Rightarrow> csv_tokens r))"
  by pat_completeness auto
termination
proof (relation "measure length")
  fix csv :: "byte list" and x r
  assume "dropWhile (\<lambda>b. b \<noteq> 44) csv = x # r"
  then have "length (x # r) \<le> length csv" by (metis length_dropWhile_le)
  then show "(r, csv) \<in> measure length" by simp
qed simp

declare csv_tokens.simps [simp del]

definition token_list_contains :: "byte list \<Rightarrow> byte list \<Rightarrow> bool" where
  "token_list_contains csv needle_lower =
     list_ex (\<lambda>tok. trim_ascii tok \<noteq> [] \<and> to_lower_ascii (trim_ascii tok) = needle_lower) (csv_tokens csv)"

definition select_protocol :: "byte list \<Rightarrow> byte list \<Rightarrow> byte list" where
  "select_protocol preferred client =
     (case find (\<lambda>tok. trim_ascii tok \<noteq> [] \<and>
                       token_list_contains client (to_lower_ascii (trim_ascii tok)))
                (csv_tokens preferred) of
        Some tok \<Rightarrow> trim_ascii tok
      | None \<Rightarrow> [])"

text \<open>\<^verbatim>\<open>find\<close> of a string: the first position where the needle occurs.\<close>

fun find_sub :: "byte list \<Rightarrow> byte list \<Rightarrow> nat option" where
  "find_sub needle [] = (if needle = [] then Some 0 else None)"
| "find_sub needle (b # bs) =
     (if take (length needle) (b # bs) = needle then Some 0 else map_option Suc (find_sub needle bs))"

section \<open>Request headers\<close>

record ws_headers =
  h_upgrade :: "byte list"
  h_connection :: "byte list"
  h_key :: "byte list"
  h_version :: "byte list"
  h_protocol :: "byte list"

definition no_headers :: ws_headers where
  "no_headers = \<lparr>h_upgrade = [], h_connection = [], h_key = [], h_version = [], h_protocol = []\<rparr>"

definition set_header :: "byte list \<Rightarrow> byte list \<Rightarrow> ws_headers \<Rightarrow> ws_headers" where
  "set_header name value h =
     (if name = bytes_of ''upgrade'' then h\<lparr>h_upgrade := value\<rparr>
      else if name = bytes_of ''connection'' then h\<lparr>h_connection := value\<rparr>
      else if name = bytes_of ''sec-websocket-key'' then h\<lparr>h_key := value\<rparr>
      else if name = bytes_of ''sec-websocket-version'' then h\<lparr>h_version := value\<rparr>
      else if name = bytes_of ''sec-websocket-protocol'' then h\<lparr>h_protocol := value\<rparr>
      else h)"

definition header_line :: "byte list \<Rightarrow> ws_headers \<Rightarrow> ws_headers" where
  "header_line line h =
     (let name = takeWhile (\<lambda>b. b \<noteq> 58) line in
      if 58 \<in> set line \<and> name \<noteq> []
      then set_header (to_lower_ascii (trim_ascii name)) (trim_ascii (drop (length name + 1) line)) h
      else h)"

definition strip_cr :: "byte list \<Rightarrow> byte list" where
  "strip_cr line = (if line \<noteq> [] \<and> last line = 13 then butlast line else line)"

function http_scan ::
  "byte list \<Rightarrow> bool \<Rightarrow> byte list \<Rightarrow> ws_headers \<Rightarrow> bool \<times> byte list \<times> ws_headers" where
  "http_scan request is_first req h =
     (if request = [] then (False, req, h)
      else let line = strip_cr (takeWhile (\<lambda>b. b \<noteq> 10) request) in
      if line = [] then (req \<noteq> [], req, h)
      else let (req', h') = (if is_first then (line, h) else (req, header_line line h)) in
      case dropWhile (\<lambda>b. b \<noteq> 10) request of
        [] \<Rightarrow> (False, req', h')
      | _ # r \<Rightarrow> http_scan r False req' h')"
  by pat_completeness auto
termination
proof (relation "measure (\<lambda>(request, is_first, req, h). length request)")
  fix request :: "byte list" and is_first :: bool and req line req' r :: "byte list" and h h' x p
  assume "dropWhile (\<lambda>b. b \<noteq> 10) request = x # r"
  then have "length (x # r) \<le> length request" by (metis length_dropWhile_le)
  then show "((r, False, req', h'), (request, is_first, req, h))
    \<in> measure (\<lambda>(request, is_first, req, h). length request)" by simp
qed simp

declare http_scan.simps [simp del]

definition parse_http_headers :: "byte list \<Rightarrow> bool \<times> byte list \<times> ws_headers" where
  "parse_http_headers request = http_scan request True [] no_headers"

section \<open>Responses\<close>

definition crlf :: "byte list" where "crlf = [13, 10]"

definition kWebSocketGuid :: "byte list" where
  "kWebSocketGuid = bytes_of ''258EAFA5-E914-47DA-95CA-C5AB0DC85B11''"

definition build_websocket_accept ::
  "(byte list \<Rightarrow> byte list option) \<Rightarrow> (byte list \<Rightarrow> byte list option) \<Rightarrow> byte list \<Rightarrow> byte list option"
where
  "build_websocket_accept sha1 b64 client_key = Option.bind (sha1 (client_key @ kWebSocketGuid)) b64"

text \<open>\<open>Inl\<close> is the rejection status; \<open>Inr\<close> the response and whether a Telnet subprotocol was chosen.\<close>

definition comm_websocket_build_upgrade_response ::
  "(byte list \<Rightarrow> byte list option) \<Rightarrow> (byte list \<Rightarrow> byte list option) \<Rightarrow> byte list \<Rightarrow> byte list \<Rightarrow>
   int + byte list \<times> bool" where
  "comm_websocket_build_upgrade_response sha1 b64 request preferred =
     (case parse_http_headers request of (ok, request_line, h) \<Rightarrow>
      if \<not> ok then Inl 400
      else if take 4 request_line \<noteq> bytes_of ''GET '' \<or>
              find_sub (bytes_of ''HTTP/1.1'') request_line = None then Inl 400
      else if to_lower_ascii (h_upgrade h) \<noteq> bytes_of ''websocket'' then Inl 400
      else if \<not> token_list_contains (h_connection h) (bytes_of ''upgrade'') then Inl 400
      else if h_key h = [] then Inl 400
      else if h_version h \<noteq> [] \<and> trim_ascii (h_version h) \<noteq> bytes_of ''13'' then Inl 426
      else case build_websocket_accept sha1 b64 (h_key h) of
             None \<Rightarrow> Inl 400
           | Some accept_key \<Rightarrow>
               (let selected = select_protocol preferred (h_protocol h) in
                Inr (bytes_of ''HTTP/1.1 101 Switching Protocols'' @ crlf @
                     bytes_of ''Upgrade: websocket'' @ crlf @
                     bytes_of ''Connection: Upgrade'' @ crlf @
                     bytes_of ''Sec-WebSocket-Accept: '' @ accept_key @ crlf @
                     (if selected \<noteq> []
                      then bytes_of ''Sec-WebSocket-Protocol: '' @ selected @ crlf else []) @
                     crlf,
                     selected = bytes_of ''telnet.ietf.org'' \<or>
                     selected = bytes_of ''telnet.mudstandards.org'')))"

definition find_http_header_end :: "byte list \<Rightarrow> nat option" where
  "find_http_header_end data =
     (case find_sub [13, 10, 13, 10] data of
        Some i \<Rightarrow> Some (i + 4)
      | None \<Rightarrow> (case find_sub [10, 10] data of Some i \<Rightarrow> Some (i + 2) | None \<Rightarrow> None))"

text \<open>The text sent by \<^verbatim>\<open>_send_websocket_rejection\<close> for the three statuses it is called with.\<close>

definition rejection_response :: "int \<Rightarrow> byte list" where
  "rejection_response status =
     bytes_of ''HTTP/1.1 '' @
     (if status = 426 then bytes_of ''426 Upgrade Required''
      else if status = 431 then bytes_of ''431 Request Header Fields Too Large''
      else bytes_of ''400 Bad Request'') @ crlf @
     bytes_of ''Connection: close'' @ crlf @ bytes_of ''Content-Length: 0'' @ crlf @
     (if status = 426 then bytes_of ''Sec-WebSocket-Version: 13'' @ crlf else []) @ crlf"

section \<open>Requests as clients write them\<close>

definition text_line :: "byte list \<Rightarrow> bool" where
  "text_line l \<longleftrightarrow> l \<noteq> [] \<and> 10 \<notin> set l \<and> 13 \<notin> set l"

type_synonym header = "byte list \<times> byte list"

definition header_ok :: "header \<Rightarrow> bool" where
  "header_ok x \<longleftrightarrow> text_line (fst x) \<and> 58 \<notin> set (fst x) \<and> 10 \<notin> set (snd x) \<and> 13 \<notin> set (snd x)"

definition header_text :: "header \<Rightarrow> byte list" where
  "header_text x = fst x @ [58, 32] @ snd x"

definition http_request :: "byte list \<Rightarrow> header list \<Rightarrow> byte list" where
  "http_request line hs = line @ crlf @ concat (map (\<lambda>x. header_text x @ crlf) hs) @ crlf"

text \<open>The header values a request defines: the last occurrence of a name wins.\<close>

definition header_values :: "header list \<Rightarrow> ws_headers" where
  "header_values hs =
     foldl (\<lambda>h x. set_header (to_lower_ascii (trim_ascii (fst x))) (trim_ascii (snd x)) h) no_headers hs"

lemma trim_ascii_space: "trim_ascii (32 # v) = trim_ascii v"
  by (simp add: trim_ascii_def isspace_def)

lemma header_text_line:
  "header_ok x \<Longrightarrow> text_line (header_text x) \<and>
     header_line (header_text x) h = set_header (to_lower_ascii (trim_ascii (fst x))) (trim_ascii (snd x)) h"
proof -
  assume a: "header_ok x"
  then have "takeWhile (\<lambda>b. b \<noteq> 58) (header_text x) = fst x"
    by (auto simp: header_text_def header_ok_def takeWhile_append)
  then show ?thesis using a
    by (auto simp: header_line_def Let_def header_text_def header_ok_def text_line_def trim_ascii_space)
qed

lemma takeWhile_line: "10 \<notin> set (l :: byte list) \<Longrightarrow> takeWhile (\<lambda>b. b \<noteq> 10) (l @ 13 # 10 # r) = l @ [13]"
  by (induction l) auto

lemma dropWhile_line: "10 \<notin> set (l :: byte list) \<Longrightarrow> dropWhile (\<lambda>b. b \<noteq> 10) (l @ 13 # 10 # r) = 10 # r"
  by (induction l) auto

lemma http_scan_line:
  assumes "text_line l"
  shows "http_scan (l @ crlf @ r) is_first req h =
    http_scan r False (if is_first then l else req) (if is_first then h else header_line l h)"
  using assms
  by (subst http_scan.simps)
    (simp add: crlf_def takeWhile_line dropWhile_line strip_cr_def text_line_def)

lemma http_scan_blank: "http_scan (crlf @ r) False req h = (req \<noteq> [], req, h)"
  by (subst http_scan.simps) (simp add: crlf_def strip_cr_def)

lemma http_scan_headers:
  "list_all header_ok hs \<Longrightarrow>
     http_scan (concat (map (\<lambda>x. header_text x @ crlf) hs) @ crlf @ body) False req h =
     (req \<noteq> [], req,
      foldl (\<lambda>h x. set_header (to_lower_ascii (trim_ascii (fst x))) (trim_ascii (snd x)) h) h hs)"
proof (induction hs arbitrary: h)
  case Nil
  then show ?case by (simp add: http_scan_blank)
next
  case (Cons x hs)
  have x: "text_line (header_text x)" "header_line (header_text x) h =
      set_header (to_lower_ascii (trim_ascii (fst x))) (trim_ascii (snd x)) h"
    using header_text_line [of x h] Cons.prems by simp_all
  show ?case using Cons http_scan_line [OF x(1)] by (simp add: x(2))
qed

lemma parse_http_request:
  "text_line line \<Longrightarrow> list_all header_ok hs \<Longrightarrow>
     parse_http_headers (http_request line hs @ body) = (True, line, header_values hs)"
  using http_scan_line [of line] http_scan_headers [of hs body line no_headers]
  by (simp add: parse_http_headers_def http_request_def header_values_def text_line_def)

section \<open>End of the headers\<close>

lemma find_sub_skip:
  "b \<noteq> n \<Longrightarrow> find_sub (n # ns) (b # bs) = map_option Suc (find_sub (n # ns) bs)"
  by auto

lemma find_sub_skip_text:
  "n \<notin> set l \<Longrightarrow> find_sub (n # ns) (l @ bs) = map_option (\<lambda>i. length l + i) (find_sub (n # ns) bs)"
proof (induction l)
  case (Cons b l)
  then have "b \<noteq> n" by auto
  then show ?case using Cons by (simp add: option.map_comp comp_def)
next
  case Nil
  show ?case by (cases "find_sub (n # ns) bs") simp_all
qed

lemma find_sub_crlf_text:
  "b \<noteq> 13 \<Longrightarrow> find_sub [13, 10, 13, 10] (crlf @ b # bs) =
     map_option (\<lambda>i. 2 + i) (find_sub [13, 10, 13, 10] (b # bs))"
  by (simp add: crlf_def option.map_comp comp_def)

lemma header_end_lines:
  assumes "list_all text_line ls" "text_line l"
  shows "find_sub [13, 10, 13, 10] (l @ crlf @ concat (map (\<lambda>x. x @ crlf) ls) @ crlf @ body) =
    Some (length (l @ crlf @ concat (map (\<lambda>x. x @ crlf) ls)) - 2)"
  using assms
proof (induction ls arbitrary: l)
  case Nil
  then show ?case by (subst find_sub_skip_text) (simp_all add: text_line_def crlf_def)
next
  case (Cons k ls)
  obtain b k' where k: "k = b # k'" "b \<noteq> 13" using Cons.prems(1) by (cases k) (auto simp: text_line_def)
  have "find_sub [13, 10, 13, 10] (crlf @ (b # k') @ crlf @ concat (map (\<lambda>x. x @ crlf) ls) @ crlf @ body) =
      map_option (\<lambda>i. 2 + i)
        (find_sub [13, 10, 13, 10] ((b # k') @ crlf @ concat (map (\<lambda>x. x @ crlf) ls) @ crlf @ body))"
    using find_sub_crlf_text [OF k(2)] by simp
  also have "\<dots> = Some (2 + (length (k @ crlf @ concat (map (\<lambda>x. x @ crlf) ls)) - 2))"
    using Cons.IH [of k] Cons.prems k by simp
  finally show ?case using Cons.prems
    by (subst find_sub_skip_text) (simp_all add: text_line_def k crlf_def)
qed

lemma header_end_request:
  assumes "text_line line" "list_all header_ok hs"
  shows "find_http_header_end (http_request line hs @ body) = Some (length (http_request line hs))"
proof -
  have "list_all text_line (map header_text hs)"
    using assms(2) header_text_line by (auto simp: list_all_iff)
  from header_end_lines [OF this assms(1), of body]
  have "find_sub [13, 10, 13, 10] (http_request line hs @ body) = Some (length (http_request line hs) - 4)"
    by (simp add: http_request_def comp_def crlf_def)
  then show ?thesis by (simp add: find_http_header_end_def http_request_def crlf_def)
qed

section \<open>Subprotocols\<close>

fun join_commas :: "byte list list \<Rightarrow> byte list" where
  "join_commas [] = []"
| "join_commas [x] = x"
| "join_commas (x # y # ys) = x @ 44 # join_commas (y # ys)"

definition token :: "byte list \<Rightarrow> bool" where
  "token t \<longleftrightarrow> t \<noteq> [] \<and> 44 \<notin> set t \<and> \<not> isspace (hd t) \<and> \<not> isspace (last t)"

lemma dropWhile_hd: "xs \<noteq> [] \<Longrightarrow> \<not> P (hd xs) \<Longrightarrow> dropWhile P xs = xs"
  by (cases xs) simp_all

lemma trim_token: "token t \<Longrightarrow> trim_ascii t = t"
  by (simp add: token_def trim_ascii_def dropWhile_hd hd_rev)

lemma csv_tokens_join: "list_all token ts \<Longrightarrow> csv_tokens (join_commas ts) = ts"
proof (induction ts rule: join_commas.induct)
  case 1
  then show ?case by (simp add: csv_tokens.simps)
next
  case (2 x)
  then have "takeWhile (\<lambda>b. b \<noteq> 44) x = x" "dropWhile (\<lambda>b. b \<noteq> 44) x = []" "x \<noteq> []"
    by (auto simp: token_def)
  then show ?case by (simp add: csv_tokens.simps [of x] del: takeWhile_eq_all_conv dropWhile_eq_Nil_conv)
next
  case (3 x y ys)
  have "takeWhile (\<lambda>b. b \<noteq> 44) (x @ 44 # r) = x" "dropWhile (\<lambda>b. b \<noteq> 44) (x @ 44 # r) = 44 # r" for r
    using 3(2) by (auto simp: token_def takeWhile_append dropWhile_append)
  then show ?case using 3 by (simp add: csv_tokens.simps [of "x @ 44 # join_commas (y # ys)"])
qed

lemma contains_join:
  "list_all token ts \<Longrightarrow> token_list_contains (join_commas ts) n \<longleftrightarrow> n \<in> to_lower_ascii ` set ts"
  by (auto simp: token_list_contains_def csv_tokens_join list_ex_iff list_all_iff trim_token token_def
      image_iff)

lemma find_cong_list: "(\<And>x. x \<in> set xs \<Longrightarrow> P x = Q x) \<Longrightarrow> find P xs = find Q xs"
  by (induction xs) auto

text \<open>
  Subprotocol negotiation: when the server lists the protocols it prefers and the client lists
  the ones it offers, the negotiated one is the first server preference that the client offers, in
  the server's spelling and compared without case, and none is negotiated when there is no such
  protocol.
\<close>
theorem select_protocol_first_preference:
  assumes "list_all token prefs" "list_all token offers"
  shows "select_protocol (join_commas prefs) (join_commas offers) =
    (case find (\<lambda>p. to_lower_ascii p \<in> to_lower_ascii ` set offers) prefs of Some p \<Rightarrow> p | None \<Rightarrow> [])"
proof -
  have tok: "p \<in> set prefs \<Longrightarrow> token p" for p using assms(1) by (simp add: list_all_iff)
  have "find (\<lambda>p. trim_ascii p \<noteq> [] \<and>
          token_list_contains (join_commas offers) (to_lower_ascii (trim_ascii p))) prefs =
        find (\<lambda>p. to_lower_ascii p \<in> to_lower_ascii ` set offers) prefs"
    using tok by (intro find_cong_list) (auto simp: contains_join [OF assms(2)] trim_token token_def)
  moreover have "find P prefs = Some p \<Longrightarrow> trim_ascii p = p" for P p
    using tok trim_token by (metis find_Some_iff nth_mem)
  ultimately show ?thesis
    by (simp add: select_protocol_def csv_tokens_join [OF assms(1)] split: option.split)
qed

theorem select_protocol_first_preference_witness:
  "select_protocol (join_commas [bytes_of ''a.b'', bytes_of ''telnet.ietf.org'', bytes_of ''x''])
     (join_commas [bytes_of ''X'', bytes_of ''Telnet.IETF.org'']) = bytes_of ''telnet.ietf.org''"
proof -
  have t: "list_all token [bytes_of ''a.b'', bytes_of ''telnet.ietf.org'', bytes_of ''x'']"
    "list_all token [bytes_of ''X'', bytes_of ''Telnet.IETF.org'']"
    by (simp_all add: token_def isspace_def)
  show ?thesis
    by (simp only: select_protocol_first_preference [OF t])
      (simp add: to_lower_ascii_def tolower_def)
qed

definition upgrade_response :: "byte list \<Rightarrow> byte list \<Rightarrow> byte list" where
  "upgrade_response accept_key selected =
     bytes_of ''HTTP/1.1 101 Switching Protocols'' @ crlf @
     bytes_of ''Upgrade: websocket'' @ crlf @
     bytes_of ''Connection: Upgrade'' @ crlf @
     bytes_of ''Sec-WebSocket-Accept: '' @ accept_key @ crlf @
     (if selected \<noteq> [] then bytes_of ''Sec-WebSocket-Protocol: '' @ selected @ crlf else []) @ crlf"

text \<open>
  C27. A well-formed upgrade request is accepted and consumed exactly: whatever bytes follow it in the
  same read (the client's first frames), the header search stops right after the blank line, and
  the response to that prefix is the 101 answer with the accept value of the client's key and the
  negotiated subprotocol.
\<close>
theorem upgrade_request_accepted:
  assumes "text_line line" "list_all header_ok hs"
    and "take 4 line = bytes_of ''GET ''" "find_sub (bytes_of ''HTTP/1.1'') line \<noteq> None"
    and "to_lower_ascii (h_upgrade (header_values hs)) = bytes_of ''websocket''"
    and "token_list_contains (h_connection (header_values hs)) (bytes_of ''upgrade'')"
    and "h_key (header_values hs) \<noteq> []" "h_version (header_values hs) = bytes_of ''13''"
    and "sha1 (h_key (header_values hs) @ kWebSocketGuid) = Some digest" "b64 digest = Some accept_key"
  shows "\<exists>n. find_http_header_end (http_request line hs @ frames) = Some n \<and>
      drop n (http_request line hs @ frames) = frames \<and>
      (let selected = select_protocol preferred (h_protocol (header_values hs)) in
       comm_websocket_build_upgrade_response sha1 b64 (take n (http_request line hs @ frames)) preferred =
         Inr (upgrade_response accept_key selected,
              selected \<in> {bytes_of ''telnet.ietf.org'', bytes_of ''telnet.mudstandards.org''}))"
proof -
  have "trim_ascii (bytes_of ''13'') = bytes_of ''13''" by (simp add: trim_ascii_def isspace_def)
  moreover have "parse_http_headers (http_request line hs) = (True, line, header_values hs)"
    using parse_http_request [OF assms(1,2), of "[]"] by simp
  ultimately show ?thesis
    using header_end_request [OF assms(1,2), of frames] assms(3-)
    by (simp add: comm_websocket_build_upgrade_response_def build_websocket_accept_def Let_def
        upgrade_response_def del: bytes_of_simps)
qed

definition sample_headers :: "header list" where
  "sample_headers =
     [(bytes_of ''Host'', bytes_of ''mud.example''), (bytes_of ''Upgrade'', bytes_of ''WebSocket''),
      (bytes_of ''Connection'', bytes_of ''keep-alive, Upgrade''),
      (bytes_of ''Sec-WebSocket-Key'', bytes_of ''dGhlIHNhbXBsZQ==''),
      (bytes_of ''Sec-WebSocket-Version'', bytes_of ''13''),
      (bytes_of ''Sec-WebSocket-Protocol'', bytes_of ''telnet.ietf.org'')]"

lemma sample_header_values:
  "header_values sample_headers =
     \<lparr>h_upgrade = bytes_of ''WebSocket'', h_connection = bytes_of ''keep-alive, Upgrade'',
      h_key = bytes_of ''dGhlIHNhbXBsZQ=='', h_version = bytes_of ''13'',
      h_protocol = bytes_of ''telnet.ietf.org''\<rparr>"
  by code_simp

theorem upgrade_request_accepted_witness:
  "\<exists>n. find_http_header_end (http_request (bytes_of ''GET / HTTP/1.1'') sample_headers @ [129, 128]) = Some n \<and>
      drop n (http_request (bytes_of ''GET / HTTP/1.1'') sample_headers @ [129, 128]) = [129, 128] \<and>
      comm_websocket_build_upgrade_response (\<lambda>m. Some (take 20 m)) Some
          (take n (http_request (bytes_of ''GET / HTTP/1.1'') sample_headers @ [129, 128]))
          (bytes_of ''telnet.ietf.org'') =
        Inr (upgrade_response (bytes_of ''dGhlIHNhbXBsZQ==258E'') (bytes_of ''telnet.ietf.org''), True)"
proof -
  have h: "text_line (bytes_of ''GET / HTTP/1.1'')" "list_all header_ok sample_headers"
    "take 4 (bytes_of ''GET / HTTP/1.1'') = bytes_of ''GET ''"
    "find_sub (bytes_of ''HTTP/1.1'') (bytes_of ''GET / HTTP/1.1'') \<noteq> None"
    "to_lower_ascii (h_upgrade (header_values sample_headers)) = bytes_of ''websocket''"
    "token_list_contains (h_connection (header_values sample_headers)) (bytes_of ''upgrade'')"
    "h_key (header_values sample_headers) \<noteq> []"
    "h_version (header_values sample_headers) = bytes_of ''13''"
    "(\<lambda>m. Some (take 20 m)) (h_key (header_values sample_headers) @ kWebSocketGuid) =
      Some (bytes_of ''dGhlIHNhbXBsZQ==258E'')"
    "Some (bytes_of ''dGhlIHNhbXBsZQ==258E'') = Some (bytes_of ''dGhlIHNhbXBsZQ==258E'')"
    unfolding sample_header_values by code_simp+
  have "select_protocol (bytes_of ''telnet.ietf.org'') (h_protocol (header_values sample_headers)) =
      bytes_of ''telnet.ietf.org''"
    unfolding sample_header_values by code_simp
  then show ?thesis
    using upgrade_request_accepted
      [where ?sha1.0 = "\<lambda>m. Some (take 20 m)" and ?b64.0 = Some, OF h, of "[129, 128]" "bytes_of ''telnet.ietf.org''"]
    by (simp add: Let_def del: bytes_of_simps)
qed

end
