(* ===== verification/Hooks.thy ===== *)
theory Hooks
  imports Slot_Table
begin

text \<open>
  Application callbacks. The hook types and the registry of \<^verbatim>\<open>src/hooks.cpp\<close>, the thread-local
  current-slot and hook-type scopes of \<^verbatim>\<open>lib/comm/current_slot.cpp\<close>, the owned hook invocation
  \<^verbatim>\<open>mudmux_execution\<close> of \<^verbatim>\<open>src/execution.hpp\<close> and the owning closures of \<^verbatim>\<open>mudmux/async.h\<close>.

  A hook is application code. It is a parameter: a function of the thread-local scope, the message,
  the payload and a state \<open>'w\<close> that stands for whatever it can change; it returns a value or throws.
\<close>

section \<open>Hook types\<close>

datatype mudmux_hook_type =
    HOOK_CONNECT | HOOK_DISCONNECT | HOOK_MESSAGE_INBOUND | HOOK_MESSAGE_OUTBOUND
  | HOOK_TRANSPORT_READY | HOOK_PROMPT | HOOK_TELNET_SUBNEG | HOOK_TIMER
  | HOOK_GARBAGE_COLLECTION | HOOK_RESUME | HOOK_COMPLETION | MAX_HOOK_TYPE

fun hook_code :: "mudmux_hook_type \<Rightarrow> int" where
  "hook_code HOOK_CONNECT = 1"
| "hook_code HOOK_DISCONNECT = 2"
| "hook_code HOOK_MESSAGE_INBOUND = 3"
| "hook_code HOOK_MESSAGE_OUTBOUND = 4"
| "hook_code HOOK_TRANSPORT_READY = 5"
| "hook_code HOOK_PROMPT = 6"
| "hook_code HOOK_TELNET_SUBNEG = 7"
| "hook_code HOOK_TIMER = 8"
| "hook_code HOOK_GARBAGE_COLLECTION = 9"
| "hook_code HOOK_RESUME = 10"
| "hook_code HOOK_COMPLETION = 11"
| "hook_code MAX_HOOK_TYPE = 12"

definition MAX_PUBLIC_HOOKS :: int where "MAX_PUBLIC_HOOKS = 10"

datatype mudmux_dispatch_result =
    MUDMUX_DISPATCH_ERROR | MUDMUX_DISPATCH_OK | MUDMUX_DISPATCH_QUEUE_FULL | MUDMUX_DISPATCH_QUEUED

definition mudmux_dispatch_accepted :: "mudmux_dispatch_result \<Rightarrow> bool" where
  "mudmux_dispatch_accepted r \<longleftrightarrow> r = MUDMUX_DISPATCH_OK \<or> r = MUDMUX_DISPATCH_QUEUED"

section \<open>Registry and invocation\<close>

datatype hook_result = Returned int | Threw

record tls =
  current_slot :: int
  current_hook_type :: mudmux_hook_type

definition initial_tls :: tls where
  "initial_tls = \<lparr>current_slot = -1, current_hook_type = MAX_HOOK_TYPE\<rparr>"

type_synonym 'w hook_func = "tls \<Rightarrow> int \<Rightarrow> byte list \<Rightarrow> 'w \<Rightarrow> hook_result \<times> 'w"

type_synonym 'w registry = "mudmux_hook_type \<Rightarrow> 'w hook_func option"

definition mudmux_get_registered_hook :: "'w registry \<Rightarrow> mudmux_hook_type \<Rightarrow> 'w hook_func option" where
  "mudmux_get_registered_hook all_hooks t =
     (if hook_code t > 0 \<and> hook_code t < MAX_PUBLIC_HOOKS then all_hooks t else None)"

definition mudmux_register_hook ::
  "mudmux_hook_type \<Rightarrow> 'w hook_func option \<Rightarrow> 'w registry \<Rightarrow> bool \<times> 'w registry" where
  "mudmux_register_hook t f all_hooks =
     (if hook_code t \<le> 0 \<or> hook_code t \<ge> MAX_PUBLIC_HOOKS \<or> f = None then (False, all_hooks)
      else (True, all_hooks(t := f)))"

definition mudmux_reset_registered_hooks :: "'w registry \<Rightarrow> 'w registry" where
  "mudmux_reset_registered_hooks all_hooks = (\<lambda>t. None)"

text \<open>
  The scope objects set the thread-local values for the duration of the call and restore them on
  every exit, so the callee sees an updated scope and the caller's is unchanged. In strict mode the
  slot mutex is held around the hook, which has no effect on its result. \<open>flush\<close> is
  \<^verbatim>\<open>comm_flush_all\<close>; it is skipped when the hook throws.
\<close>

definition mudmux_invoke_hook ::
  "('w \<Rightarrow> 'w) \<Rightarrow> 'w hook_func \<Rightarrow> int \<Rightarrow> byte list \<Rightarrow> bool \<Rightarrow> int \<Rightarrow> tls \<Rightarrow> 'w \<Rightarrow> hook_result \<times> 'w" where
  "mudmux_invoke_hook flush hook_func msg data flush_after slot loc w =
     (case hook_func (loc\<lparr>current_slot := slot\<rparr>) msg data w of
        (Threw, w') \<Rightarrow> (Threw, w')
      | (Returned r, w') \<Rightarrow> (Returned r, if flush_after then flush w' else w'))"

definition mudmux_invoke_registered_hook ::
  "'w registry \<Rightarrow> ('w \<Rightarrow> 'w) \<Rightarrow> mudmux_hook_type \<Rightarrow> int \<Rightarrow> byte list \<Rightarrow> bool \<Rightarrow> int \<Rightarrow> tls \<Rightarrow> 'w \<Rightarrow>
   hook_result \<times> 'w" where
  "mudmux_invoke_registered_hook all_hooks flush t msg data flush_after slot loc w =
     (if hook_code t \<le> 0 \<or> hook_code t \<ge> MAX_PUBLIC_HOOKS then (Returned (-1), w)
      else case all_hooks t of
             None \<Rightarrow> (Returned 0, w)
           | Some hook_func \<Rightarrow>
               mudmux_invoke_hook flush hook_func msg data flush_after slot
                 (loc\<lparr>current_hook_type := t\<rparr>) w)"

section \<open>Owned executions\<close>

text \<open>
  \<open>e_target\<close> is a registered hook type or the identity of a direct callback, \<open>e_registration\<close> the
  registration identity of an event, \<open>e_completion\<close> the identity of the completion callback.
\<close>

record mudmux_execution =
  e_target :: "mudmux_hook_type + nat"
  e_msg :: int
  e_current_slot :: int
  e_registration :: "nat option"
  e_payload :: "byte list"
  e_completion :: "nat option"

definition new_execution :: "mudmux_hook_type + nat \<Rightarrow> int \<Rightarrow> byte list \<Rightarrow> mudmux_execution option" where
  "new_execution target msg data =
     (case target of
        Inl t \<Rightarrow> if hook_code t \<le> 0 \<or> hook_code t \<ge> MAX_PUBLIC_HOOKS then None
                 else Some \<lparr>e_target = target, e_msg = msg, e_current_slot = -1, e_registration = None,
                            e_payload = data, e_completion = None\<rparr>
      | Inr f \<Rightarrow> Some \<lparr>e_target = target, e_msg = msg, e_current_slot = -1, e_registration = None,
                         e_payload = data, e_completion = None\<rparr>)"

definition is_registered_hook :: "mudmux_execution \<Rightarrow> bool" where
  "is_registered_hook e = (case e_target e of Inl t \<Rightarrow> True | Inr f \<Rightarrow> False)"

definition execution_hook_type :: "mudmux_execution \<Rightarrow> mudmux_hook_type" where
  "execution_hook_type e = (case e_target e of Inl t \<Rightarrow> t | Inr f \<Rightarrow> MAX_HOOK_TYPE)"

definition execution_invoke ::
  "'w registry \<Rightarrow> (nat \<Rightarrow> 'w hook_func) \<Rightarrow> ('w \<Rightarrow> 'w) \<Rightarrow> bool \<Rightarrow> mudmux_execution \<Rightarrow> tls \<Rightarrow> 'w \<Rightarrow>
   hook_result \<times> 'w" where
  "execution_invoke all_hooks callback flush flush_after e loc w =
     (case e_target e of
        Inl t \<Rightarrow> mudmux_invoke_registered_hook all_hooks flush t (e_msg e) (e_payload e) flush_after
                   (e_current_slot e) loc w
      | Inr f \<Rightarrow> mudmux_invoke_hook flush (callback f) (e_msg e) (e_payload e) flush_after
                   (e_current_slot e) loc w)"

definition execution_complete :: "(nat \<Rightarrow> int \<Rightarrow> 'w \<Rightarrow> 'w) \<Rightarrow> mudmux_execution \<Rightarrow> 'w \<Rightarrow> 'w" where
  "execution_complete completion e w =
     (case e_completion e of None \<Rightarrow> w | Some f \<Rightarrow> completion f (e_msg e) w)"

section \<open>Owning closures\<close>

text \<open>
  The callbacks of a closure are identified by numbers. An operation returns its result, the cleared
  handle and the calls it makes; \<open>throws\<close> says which calls throw.
\<close>

record async_closure =
  cl_invoke :: "nat option"
  cl_destroy :: "nat option"
  cl_context :: nat

definition no_closure :: async_closure where
  "no_closure = \<lparr>cl_invoke = None, cl_destroy = None, cl_context = 0\<rparr>"

datatype closure_call = Invoke_call nat nat int | Destroy_call nat nat

definition async_closure_is_valid :: "async_closure option \<Rightarrow> bool" where
  "async_closure_is_valid cl = (case cl of None \<Rightarrow> False | Some c \<Rightarrow> cl_invoke c \<noteq> None)"

definition invoke_calls :: "async_closure \<Rightarrow> int \<Rightarrow> closure_call list" where
  "invoke_calls c m = opt_list (\<lambda>f. Invoke_call f (cl_context c) m) (cl_invoke c)"

definition destroy_calls :: "async_closure \<Rightarrow> closure_call list" where
  "destroy_calls c = opt_list (\<lambda>f. Destroy_call f (cl_context c)) (cl_destroy c)"

definition async_closure_invoke ::
  "(closure_call \<Rightarrow> bool) \<Rightarrow> async_closure option \<Rightarrow> int \<Rightarrow> bool \<times> async_closure option \<times> closure_call list"
where
  "async_closure_invoke throws cl m =
     (case cl of
        None \<Rightarrow> (True, None, [])
      | Some owned \<Rightarrow>
          (let invoked = \<not> list_ex throws (invoke_calls owned m);
               destroyed = \<not> list_ex throws (destroy_calls owned)
           in (invoked \<and> destroyed, Some no_closure, invoke_calls owned m @ destroy_calls owned)))"

definition async_closure_destroy ::
  "(closure_call \<Rightarrow> bool) \<Rightarrow> async_closure option \<Rightarrow> bool \<times> async_closure option \<times> closure_call list" where
  "async_closure_destroy throws cl =
     (case cl of
        None \<Rightarrow> (True, None, [])
      | Some owned \<Rightarrow> (\<not> list_ex throws (destroy_calls owned), Some no_closure, destroy_calls owned))"

datatype closure_op = Invoke int | Destroy

fun closure_step ::
  "(closure_call \<Rightarrow> bool) \<Rightarrow> async_closure option \<Rightarrow> closure_op \<Rightarrow> bool \<times> async_closure option \<times> closure_call list"
where
  "closure_step throws cl (Invoke m) = async_closure_invoke throws cl m"
| "closure_step throws cl Destroy = async_closure_destroy throws cl"

fun closure_run ::
  "(closure_call \<Rightarrow> bool) \<Rightarrow> async_closure option \<Rightarrow> closure_op list \<Rightarrow> async_closure option \<times> closure_call list"
where
  "closure_run throws cl [] = (cl, [])"
| "closure_run throws cl (x # xs) =
     (case closure_step throws cl x of
        (_, cl', calls) \<Rightarrow> (case closure_run throws cl' xs of (cl'', calls') \<Rightarrow> (cl'', calls @ calls')))"

section \<open>Properties\<close>

lemma no_closure_calls [simp]: "invoke_calls no_closure m = []" "destroy_calls no_closure = []"
  by (simp_all add: invoke_calls_def destroy_calls_def no_closure_def)

lemma closure_run_no_closure: "closure_run throws (Some no_closure) xs = (Some no_closure, [])"
proof (induction xs)
  case (Cons x xs)
  then show ?case
    by (cases x) (simp_all add: async_closure_invoke_def async_closure_destroy_def Let_def)
qed simp

lemma get_registered_register:
  "mudmux_register_hook t f hs = (True, hs') \<Longrightarrow>
     mudmux_get_registered_hook hs' u = (if u = t then f else mudmux_get_registered_hook hs u)"
  by (auto simp: mudmux_register_hook_def mudmux_get_registered_hook_def split: if_splits)

text \<open>
  C28. A closure is used up by its first operation: whatever sequence of invoke and destroy operations
  its owner applies, and whichever of the callbacks throw, the application sees exactly the calls of
  the first one. So the invoke callback runs at most once, never after the context was released, and
  the destroy callback releases the context exactly once.
\<close>
theorem closure_consumed_once:
  "closure_run throws (Some c) (x # xs) =
     (Some no_closure,
      (case x of Invoke m \<Rightarrow> invoke_calls c m | Destroy \<Rightarrow> []) @ destroy_calls c)"
  by (cases x)
    (simp_all add: async_closure_invoke_def async_closure_destroy_def Let_def closure_run_no_closure)

end
