(* ===== verification/Slot_Lane.thy ===== *)
theory Slot_Lane
  imports Hooks
begin

text \<open>
  The per-slot execution lanes of \<^verbatim>\<open>src/execution.cpp\<close> in relaxed mode: a slot has at most one hook in
  flight, further non-inbound hooks wait in a bounded queue, and a hook may suspend its lane with an
  await, whose work runs on a worker before the resume closure continues the lane.

  Every critical section of the source is one function on the vector of slot states. Threads are
  program counters; between two critical sections any other thread may run. The worker pool is its
  queue of accepted jobs and the flag that says whether \<^verbatim>\<open>submit\<close> still accepts, as in the theory of
  the pool itself. \<open>l_gens\<close> is \<^verbatim>\<open>comm_abstract_generation\<close>, which the communication layer may change
  at any time, \<open>l_deferred\<close> the marks left by \<^verbatim>\<open>comm_defer_input\<close>, and \<open>l_wakeups\<close> counts the calls of
  \<^verbatim>\<open>async_runtime_wakeup\<close>. Three fields are history: the tasks admitted to each lane, those taken by a
  worker, and the generations whose pending await was cancelled.
\<close>

section \<open>Slot states\<close>

record slot_execution =
  t_execution :: mudmux_execution
  t_generation :: u64

record slot_execution_state =
  s_active :: bool
  s_pending :: "slot_execution list"
  s_await_requested :: bool
  s_await_pending :: bool
  s_await_generation :: u64
  s_await_work :: async_closure
  s_await_resume :: async_closure

definition new_slot_state :: slot_execution_state where
  "new_slot_state = \<lparr>s_active = False, s_pending = [], s_await_requested = False,
     s_await_pending = False, s_await_generation = 0, s_await_work = no_closure,
     s_await_resume = no_closure\<rparr>"

type_synonym slot_states = "slot_execution_state list"

definition ensure_slot_state_locked :: "int \<Rightarrow> slot_states \<Rightarrow> slot_states" where
  "ensure_slot_state_locked slot states =
     states @ replicate (nat (slot + 1) - length states) new_slot_state"

definition slot_in_range :: "int \<Rightarrow> slot_states \<Rightarrow> bool" where
  "slot_in_range slot states \<longleftrightarrow> 0 \<le> slot \<and> slot < int (length states)"

text \<open>A slot without a state behaves as one with the initial state.\<close>

definition slot_view :: "slot_states \<Rightarrow> int \<Rightarrow> slot_execution_state" where
  "slot_view states slot = (if slot_in_range slot states then states ! nat slot else new_slot_state)"

definition put_slot :: "int \<Rightarrow> slot_execution_state \<Rightarrow> slot_states \<Rightarrow> slot_states" where
  "put_slot slot st states = states[nat slot := st]"

section \<open>Critical sections\<close>

definition clear_slot_await ::
  "slot_execution_state \<Rightarrow> async_closure \<times> async_closure \<times> slot_execution_state" where
  "clear_slot_await st =
     (s_await_work st, s_await_resume st,
      st\<lparr>s_await_work := no_closure, s_await_resume := no_closure, s_await_requested := False,
         s_await_pending := False, s_await_generation := 0\<rparr>)"

definition discard_section ::
  "int \<Rightarrow> u64 \<Rightarrow> slot_states \<Rightarrow> (async_closure \<times> async_closure) option \<times> slot_states" where
  "discard_section slot generation states =
     (let st = slot_view states slot in
      if slot_in_range slot states \<and> (s_await_requested st \<or> s_await_pending st) \<and>
         s_await_generation st = generation
      then (case clear_slot_await st of (work, resume, st') \<Rightarrow> (Some (work, resume), put_slot slot st' states))
      else (None, states))"

definition await_done_section ::
  "int \<Rightarrow> u64 \<Rightarrow> bool \<Rightarrow> slot_states \<Rightarrow> async_closure option \<times> slot_states" where
  "await_done_section slot generation generation_matches states =
     (let st = slot_view states slot in
      if slot_in_range slot states \<and> s_await_pending st \<and> s_await_generation st = generation \<and>
         generation_matches
      then (Some (s_await_resume st),
            put_slot slot (st\<lparr>s_await_resume := no_closure, s_await_pending := False,
                              s_await_generation := 0\<rparr>) states)
      else (None, states))"

definition finish_section :: "int \<Rightarrow> slot_states \<Rightarrow> slot_execution option \<times> slot_states" where
  "finish_section slot states =
     (if slot_in_range slot states then
        (let st = slot_view states slot in
         case s_pending st of
           t # ts \<Rightarrow> (Some t, put_slot slot (st\<lparr>s_pending := ts\<rparr>) states)
         | [] \<Rightarrow> (None, put_slot slot (st\<lparr>s_active := False\<rparr>) states))
      else (None, states))"

definition drop_section :: "int \<Rightarrow> slot_states \<Rightarrow> slot_states" where
  "drop_section slot states =
     (if slot_in_range slot states
      then put_slot slot ((slot_view states slot)\<lparr>s_pending := [], s_active := False\<rparr>) states
      else states)"

definition finalize_section :: "int \<Rightarrow> slot_states \<Rightarrow> (u64 \<times> async_closure) option \<times> slot_states" where
  "finalize_section slot states =
     (let st = slot_view states slot in
      if slot < 0 \<or> slot \<ge> int (length states) \<or> \<not> s_await_requested st then (None, states)
      else (Some (s_await_generation st, s_await_work st),
            put_slot slot (st\<lparr>s_await_requested := False, s_await_pending := True, s_active := True,
                              s_await_work := no_closure\<rparr>) states))"

definition cancel_section ::
  "int \<Rightarrow> slot_states \<Rightarrow> (async_closure \<times> async_closure \<times> bool) option \<times> slot_states" where
  "cancel_section slot states =
     (let st = slot_view states slot in
      if slot < 0 \<or> slot \<ge> int (length states) then (None, states)
      else if s_await_requested st then
        (case clear_slot_await st of
           (work, resume, st') \<Rightarrow> (Some (work, resume, False), put_slot slot st' states))
      else if s_await_pending st then
        (Some (no_closure, s_await_resume st, True),
         put_slot slot (st\<lparr>s_await_resume := no_closure, s_await_pending := False,
                           s_await_generation := 0\<rparr>) states)
      else (None, states))"

definition await_section ::
  "int \<Rightarrow> u64 \<Rightarrow> async_closure \<Rightarrow> async_closure \<Rightarrow> slot_states \<Rightarrow> bool \<times> slot_states" where
  "await_section slot generation work resume states0 =
     (let states = ensure_slot_state_locked slot states0; st = slot_view states slot in
      if s_await_requested st \<or> s_await_pending st then (False, states)
      else (True, put_slot slot (st\<lparr>s_await_requested := True, s_await_generation := generation,
                                     s_await_work := work, s_await_resume := resume\<rparr>) states))"

datatype enqueue_decision = Lane_full | Lane_pending | Lane_submit

definition enqueue_section ::
  "nat \<Rightarrow> int \<Rightarrow> slot_execution \<Rightarrow> bool \<Rightarrow> slot_states \<Rightarrow> enqueue_decision \<times> slot_states" where
  "enqueue_section backlog slot task allow_pending states0 =
     (let states = ensure_slot_state_locked slot states0; st = slot_view states slot in
      if s_active st then
        (if \<not> allow_pending \<or> length (s_pending st) \<ge> backlog then (Lane_full, states)
         else (Lane_pending, put_slot slot (st\<lparr>s_pending := s_pending st @ [task]\<rparr>) states))
      else (Lane_submit, put_slot slot (st\<lparr>s_active := True\<rparr>) states))"

definition mudmux_execution_slot_busy :: "int \<Rightarrow> slot_states \<Rightarrow> bool" where
  "mudmux_execution_slot_busy slot states =
     (if slot < 0 \<or> slot \<ge> int (length states) then False
      else let st = slot_view states slot
           in s_active st \<or> s_await_requested st \<or> s_await_pending st)"

section \<open>Threads\<close>

definition ASYNC_CLOSURE_SCHEDULER_OK :: int where "ASYNC_CLOSURE_SCHEDULER_OK = 0"
definition ASYNC_CLOSURE_SCHEDULER_FAILED :: int where "ASYNC_CLOSURE_SCHEDULER_FAILED = -1"

datatype lane_job =
    Run_slot int slot_execution
  | Run_await_work int u64 async_closure
  | Run_await_resume int u64 async_closure int

text \<open>
  Program counters, named after the source function and the point reached in it. A thread whose hook
  or closure is executing is at \<open>Slot_invoke\<close>, \<open>Work_start\<close> or \<open>Resume_invoke\<close>.
\<close>

datatype lane_pc =
    Slot_start int slot_execution
  | Slot_invoke int slot_execution
  | Slot_complete int slot_execution
  | Slot_finalize int
  | Await_submit int u64 async_closure
  | Slot_finish int
  | Next_submit int slot_execution
  | Slot_drop int
  | Work_start int u64 async_closure
  | Work_done int u64 int
  | Work_check int u64 int bool
  | Work_discard int u64
  | Resume_submit int u64 async_closure int
  | Resume_start int u64 async_closure int
  | Resume_invoke int u64 async_closure int
  | Enqueue_submit int slot_execution

record lanes =
  l_running :: bool
  l_backlog :: nat
  l_states :: slot_states
  l_jobs :: "lane_job list"
  l_accepting :: bool
  l_gens :: "int \<Rightarrow> u64"
  l_threads :: "lane_pc list"
  l_admitted :: "int \<Rightarrow> slot_execution list"
  l_taken :: "int \<Rightarrow> slot_execution list"
  l_cancelled :: "(int \<times> u64) set"
  l_deferred :: "int \<Rightarrow> bool"
  l_wakeups :: nat

fun job_start :: "lane_job \<Rightarrow> lane_pc" where
  "job_start (Run_slot s t) = Slot_start s t"
| "job_start (Run_await_work s g w) = Work_start s g w"
| "job_start (Run_await_resume s g r m) = Resume_start s g r m"

definition lane_submit :: "lane_job \<Rightarrow> lanes \<Rightarrow> bool \<times> lanes" where
  "lane_submit j l = (if l_accepting l then (True, l\<lparr>l_jobs := l_jobs l @ [j]\<rparr>) else (False, l))"

definition submit_or :: "lane_job \<Rightarrow> lane_pc \<Rightarrow> lanes \<Rightarrow> lane_pc option \<times> lanes" where
  "submit_or j p l = (case lane_submit j l of (ok, l') \<Rightarrow> (if ok then None else Some p, l'))"

text \<open>
  The steps of a thread. \<open>ok\<close> is the outcome of application code: a hook that throws unwinds out of
  \<^verbatim>\<open>run_slot_execution\<close> into the worker loop, while the result of a closure becomes the message of
  the resume closure.
\<close>

definition run_slot_execution_start :: "int \<Rightarrow> slot_execution \<Rightarrow> lanes \<Rightarrow> lane_pc option \<times> lanes" where
  "run_slot_execution_start slot task l =
     (Some (if l_gens l slot = t_generation task then Slot_invoke slot task else Slot_finalize slot),
      l\<lparr>l_taken := (l_taken l)(slot := l_taken l slot @ [task])\<rparr>)"

definition run_slot_execution_invoked ::
  "bool \<Rightarrow> int \<Rightarrow> slot_execution \<Rightarrow> lanes \<Rightarrow> lane_pc option \<times> lanes" where
  "run_slot_execution_invoked ok slot task l =
     (if \<not> ok then None
      else if l_gens l slot = t_generation task then Some (Slot_complete slot task)
      else Some (Slot_finalize slot), l)"

definition finalize_await_begin :: "int \<Rightarrow> lanes \<Rightarrow> lane_pc option \<times> lanes" where
  "finalize_await_begin slot l =
     (case finalize_section slot (l_states l) of
        (Some (g, work), states) \<Rightarrow> (Some (Await_submit slot g work), l\<lparr>l_states := states\<rparr>)
      | (None, states) \<Rightarrow> (Some (Slot_finish slot), l\<lparr>l_states := states\<rparr>))"

definition lane_wakeup :: "lanes \<Rightarrow> lanes" where
  "lane_wakeup l = l\<lparr>l_wakeups := l_wakeups l + 1\<rparr>"

definition finish_slot_execution_begin :: "int \<Rightarrow> lanes \<Rightarrow> lane_pc option \<times> lanes" where
  "finish_slot_execution_begin slot l =
     (case finish_section slot (l_states l) of
        (Some next_task, states) \<Rightarrow> (Some (Next_submit slot next_task), l\<lparr>l_states := states\<rparr>)
      | (None, states) \<Rightarrow> (None, lane_wakeup (l\<lparr>l_states := states\<rparr>)))"

definition finish_slot_execution_next :: "int \<Rightarrow> slot_execution \<Rightarrow> lanes \<Rightarrow> lane_pc option \<times> lanes" where
  "finish_slot_execution_next slot task l =
     (case lane_submit (Run_slot slot task) l of
        (True, l') \<Rightarrow> (None, lane_wakeup l')
      | (False, l') \<Rightarrow> (Some (Slot_drop slot), l'))"

definition finish_slot_execution_failed :: "int \<Rightarrow> lanes \<Rightarrow> lane_pc option \<times> lanes" where
  "finish_slot_execution_failed slot l = (None, lane_wakeup (l\<lparr>l_states := drop_section slot (l_states l)\<rparr>))"

definition run_slot_await_work_start :: "bool \<Rightarrow> int \<Rightarrow> u64 \<Rightarrow> lanes \<Rightarrow> lane_pc option \<times> lanes" where
  "run_slot_await_work_start ok slot generation l =
     (Some (Work_done slot generation
        (if ok then ASYNC_CLOSURE_SCHEDULER_OK else ASYNC_CLOSURE_SCHEDULER_FAILED)), l)"

definition run_slot_await_resume_start ::
  "int \<Rightarrow> u64 \<Rightarrow> async_closure \<Rightarrow> int \<Rightarrow> lanes \<Rightarrow> lane_pc option \<times> lanes" where
  "run_slot_await_resume_start slot generation resume message l =
     (Some (if l_gens l slot = generation then Resume_invoke slot generation resume message
            else Slot_finalize slot), l)"

definition run_slot_await_work_done ::
  "int \<Rightarrow> u64 \<Rightarrow> int \<Rightarrow> bool \<Rightarrow> lanes \<Rightarrow> lane_pc option \<times> lanes" where
  "run_slot_await_work_done slot generation message generation_matches l =
     (case await_done_section slot generation generation_matches (l_states l) of
        (Some resume, states) \<Rightarrow>
          (Some (Resume_submit slot generation resume message), l\<lparr>l_states := states\<rparr>)
      | (None, states) \<Rightarrow> (Some (Work_discard slot generation), l\<lparr>l_states := states\<rparr>))"

definition discard_slot_await :: "int \<Rightarrow> u64 \<Rightarrow> lanes \<Rightarrow> lane_pc option \<times> lanes" where
  "discard_slot_await slot generation l =
     (case discard_section slot generation (l_states l) of
        (discarded, states) \<Rightarrow>
          (if discarded = None then None else Some (Slot_finish slot), l\<lparr>l_states := states\<rparr>))"

fun lane_thread_step :: "bool \<Rightarrow> lane_pc \<Rightarrow> lanes \<Rightarrow> lane_pc option \<times> lanes" where
  "lane_thread_step ok (Slot_start s t) l = run_slot_execution_start s t l"
| "lane_thread_step ok (Slot_invoke s t) l = run_slot_execution_invoked ok s t l"
| "lane_thread_step ok (Slot_complete s t) l = (Some (Slot_finalize s), l)"
| "lane_thread_step ok (Slot_finalize s) l = finalize_await_begin s l"
| "lane_thread_step ok (Await_submit s g w) l = submit_or (Run_await_work s g w) (Work_start s g w) l"
| "lane_thread_step ok (Slot_finish s) l = finish_slot_execution_begin s l"
| "lane_thread_step ok (Next_submit s t) l = finish_slot_execution_next s t l"
| "lane_thread_step ok (Slot_drop s) l = finish_slot_execution_failed s l"
| "lane_thread_step ok (Work_start s g w) l = run_slot_await_work_start ok s g l"
| "lane_thread_step ok (Work_done s g m) l = (Some (Work_check s g m (l_gens l s = g)), l)"
| "lane_thread_step ok (Work_check s g m b) l = run_slot_await_work_done s g m b l"
| "lane_thread_step ok (Work_discard s g) l = discard_slot_await s g l"
| "lane_thread_step ok (Resume_submit s g r m) l =
     submit_or (Run_await_resume s g r m) (Resume_start s g r m) l"
| "lane_thread_step ok (Resume_start s g r m) l = run_slot_await_resume_start s g r m l"
| "lane_thread_step ok (Resume_invoke s g r m) l = (Some (Slot_finalize s), l)"
| "lane_thread_step ok (Enqueue_submit s t) l = submit_or (Run_slot s t) (Slot_finish s) l"

section \<open>Calls into the lanes\<close>

text \<open>
  \<open>gen\<close> is the generation of the slot, which the caller reads before it takes the lock. \<open>None\<close> means
  that the call still has to submit the task to the pool.
\<close>

definition mudmux_execution_enqueue ::
  "u64 \<Rightarrow> mudmux_execution \<Rightarrow> bool \<Rightarrow> int \<Rightarrow> lanes \<Rightarrow> mudmux_dispatch_result option \<times> lanes" where
  "mudmux_execution_enqueue gen e allow_pending queue_slot l =
     (let slot = (if queue_slot \<ge> 0 then queue_slot else e_msg e) in
      if \<not> l_running l \<or> slot < 0 \<or> \<not> is_registered_hook e then (Some MUDMUX_DISPATCH_ERROR, l)
      else
        (let allow = (if execution_hook_type e = HOOK_MESSAGE_INBOUND \<or>
                         execution_hook_type e = HOOK_TELNET_SUBNEG then False else allow_pending);
             task = \<lparr>t_execution = e, t_generation = gen\<rparr>;
             admitted = (l_admitted l)(slot := l_admitted l slot @ [task])
         in case enqueue_section (l_backlog l) slot task allow (l_states l) of
              (Lane_full, states) \<Rightarrow> (Some MUDMUX_DISPATCH_QUEUE_FULL, l\<lparr>l_states := states\<rparr>)
            | (Lane_pending, states) \<Rightarrow>
                (Some MUDMUX_DISPATCH_QUEUED, l\<lparr>l_states := states, l_admitted := admitted\<rparr>)
            | (Lane_submit, states) \<Rightarrow>
                (None, l\<lparr>l_states := states, l_admitted := admitted,
                         l_threads := l_threads l @ [Enqueue_submit slot task]\<rparr>)))"

definition await_allowed :: "tls \<Rightarrow> bool" where
  "await_allowed loc \<longleftrightarrow>
     current_slot loc \<ge> 0 \<and>
     current_hook_type loc \<in> {HOOK_TRANSPORT_READY, HOOK_MESSAGE_INBOUND, HOOK_TELNET_SUBNEG, HOOK_RESUME}"

definition mudmux_workers_await ::
  "tls \<Rightarrow> u64 \<Rightarrow> async_closure option \<Rightarrow> async_closure option \<Rightarrow> lanes \<Rightarrow>
   bool \<times> async_closure option \<times> async_closure option \<times> lanes" where
  "mudmux_workers_await loc gen work resume l =
     (case (work, resume) of
        (Some w, Some r) \<Rightarrow>
          if \<not> async_closure_is_valid work \<or> \<not> async_closure_is_valid resume \<or> \<not> l_running l \<or>
             \<not> await_allowed loc \<or> gen = 0 then (False, work, resume, l)
          else (case await_section (current_slot loc) gen w r (l_states l) of
                  (ok, states) \<Rightarrow>
                    if ok then (True, Some no_closure, Some no_closure,
                                 l\<lparr>l_states := states,
                                   l_deferred := (l_deferred l)(current_slot loc := True)\<rparr>)
                    else (False, work, resume, l\<lparr>l_states := states\<rparr>))
      | _ \<Rightarrow> (False, work, resume, l))"

definition mudmux_execution_cancel_await :: "int \<Rightarrow> lanes \<Rightarrow> lanes" where
  "mudmux_execution_cancel_await slot l =
     (case cancel_section slot (l_states l) of
        (None, states) \<Rightarrow> l\<lparr>l_states := states\<rparr>
      | (Some (work, resume, finish_pending_slot), states) \<Rightarrow>
          if finish_pending_slot
          then l\<lparr>l_states := states, l_threads := l_threads l @ [Slot_finish slot],
                 l_cancelled := insert (slot, s_await_generation (slot_view (l_states l) slot)) (l_cancelled l)\<rparr>
          else l\<lparr>l_states := states\<rparr>)"

text \<open>The thread-local scope in which a thread runs application code for a slot.\<close>

fun hook_scope :: "lane_pc \<Rightarrow> tls option" where
  "hook_scope (Slot_invoke s t) =
     Some \<lparr>current_slot = e_current_slot (t_execution t),
           current_hook_type = execution_hook_type (t_execution t)\<rparr>"
| "hook_scope (Resume_invoke s g r m) = Some \<lparr>current_slot = s, current_hook_type = HOOK_RESUME\<rparr>"
| "hook_scope _ = None"

section \<open>The transition system\<close>

text \<open>
  A call made by a hook runs as a thread of its own here, which only adds interleavings. Workers are
  stopped in two steps: first \<^verbatim>\<open>submit\<close> stops accepting; once the pool has run every accepted job and
  has joined its workers, the states are cleared. An await is not requested again for a generation
  of a slot whose pending await was cancelled: cancelling happens when that connection starts to close.
\<close>

inductive lane_step :: "lanes \<Rightarrow> lanes \<Rightarrow> bool" where
  lane_pick: "l_jobs l = j # js \<Longrightarrow>
    lane_step l (l\<lparr>l_jobs := js, l_threads := l_threads l @ [job_start j]\<rparr>)"
| lane_run: "l_threads l = ps @ p # qs \<Longrightarrow> lane_thread_step ok p l = (p', l') \<Longrightarrow>
    lane_step l (l'\<lparr>l_threads := ps @ opt_list id p' @ qs\<rparr>)"
| lane_enqueue: "lane_step l (snd (mudmux_execution_enqueue gen e allow_pending queue_slot l))"
| lane_await: "p \<in> set (l_threads l) \<Longrightarrow> hook_scope p = Some loc \<Longrightarrow>
    (current_slot loc, gen) \<notin> l_cancelled l \<Longrightarrow>
    mudmux_workers_await loc gen work resume l = (r, work', resume', l') \<Longrightarrow> lane_step l l'"
| lane_cancel: "lane_step l (mudmux_execution_cancel_await slot l)"
| lane_reassign: "lane_step l (l\<lparr>l_gens := (l_gens l)(slot := g)\<rparr>)"
| lane_stop: "lane_step l (l\<lparr>l_running := False, l_accepting := False\<rparr>)"
| lane_stopped: "\<not> l_accepting l \<Longrightarrow> l_jobs l = [] \<Longrightarrow> l_threads l = [] \<Longrightarrow>
    lane_step l (l\<lparr>l_states := [], l_admitted := (\<lambda>_. []), l_taken := (\<lambda>_. [])\<rparr>)"
| lane_start: "l_states l = [] \<Longrightarrow> l_jobs l = [] \<Longrightarrow> l_threads l = [] \<Longrightarrow>
    lane_step l (l\<lparr>l_running := True, l_accepting := True, l_admitted := (\<lambda>_. []), l_taken := (\<lambda>_. [])\<rparr>)"

definition lane_init :: "lanes \<Rightarrow> bool" where
  "lane_init l \<longleftrightarrow> l_states l = [] \<and> l_jobs l = [] \<and> l_threads l = [] \<and>
     l_admitted l = (\<lambda>_. []) \<and> l_taken l = (\<lambda>_. [])"

end
