(* ===== verification/Lane_Safety.thy ===== *)
theory Lane_Safety
  imports Slot_Lane
begin

text \<open>
  Safety of the slot lanes under every interleaving: who occupies a lane, the inductive invariant, its
  preservation by every step of the transition system of \<^verbatim>\<open>Slot_Lane\<close>, and the properties that
  follow from it.
\<close>

section \<open>Views\<close>

lemma slot_view_ensure [simp]: "slot_view (ensure_slot_state_locked s sts) s' = slot_view sts s'"
  by (auto simp: slot_view_def slot_in_range_def ensure_slot_state_locked_def nth_append)

lemma in_range_ensure [simp]: "0 \<le> s \<Longrightarrow> slot_in_range s (ensure_slot_state_locked s sts)"
  by (auto simp: slot_in_range_def ensure_slot_state_locked_def)

lemma slot_view_put:
  "slot_in_range s sts \<Longrightarrow> slot_view (put_slot s st sts) s' = (if s' = s then st else slot_view sts s')"
  by (auto simp: slot_view_def slot_in_range_def put_slot_def nat_eq_iff2)

lemma slot_view_nil [simp]: "slot_view [] s = new_slot_state"
  by (auto simp: slot_view_def slot_in_range_def)

lemma view_out_of_range: "\<not> slot_in_range s sts \<Longrightarrow> slot_view sts s = new_slot_state"
  by (simp add: slot_view_def)

section \<open>Who occupies a lane\<close>

fun lane_slot :: "lane_pc \<Rightarrow> int" where
  "lane_slot (Slot_start s t) = s"
| "lane_slot (Slot_invoke s t) = s"
| "lane_slot (Slot_complete s t) = s"
| "lane_slot (Slot_finalize s) = s"
| "lane_slot (Await_submit s g w) = s"
| "lane_slot (Slot_finish s) = s"
| "lane_slot (Next_submit s t) = s"
| "lane_slot (Slot_drop s) = s"
| "lane_slot (Work_start s g w) = s"
| "lane_slot (Work_done s g m) = s"
| "lane_slot (Work_check s g m b) = s"
| "lane_slot (Work_discard s g) = s"
| "lane_slot (Resume_submit s g r m) = s"
| "lane_slot (Resume_start s g r m) = s"
| "lane_slot (Resume_invoke s g r m) = s"
| "lane_slot (Enqueue_submit s t) = s"

text \<open>The generation of an await work that has not reported back yet.\<close>

fun work_generation :: "lane_pc \<Rightarrow> u64 option" where
  "work_generation (Await_submit s g w) = Some g"
| "work_generation (Work_start s g w) = Some g"
| "work_generation (Work_done s g m) = Some g"
| "work_generation (Work_check s g m b) = Some g"
| "work_generation (Work_discard s g) = Some g"
| "work_generation _ = None"

text \<open>Every other thread owns the lane; the await work does not, its lane is held by the pending mark.\<close>

definition owns_lane :: "int \<Rightarrow> lane_pc \<Rightarrow> bool" where
  "owns_lane s p \<longleftrightarrow> lane_slot p = s \<and> work_generation p = None"

fun waiting_task :: "lane_pc \<Rightarrow> slot_execution list" where
  "waiting_task (Slot_start s t) = [t]"
| "waiting_task (Next_submit s t) = [t]"
| "waiting_task (Enqueue_submit s t) = [t]"
| "waiting_task _ = []"

definition lane_pcs :: "lanes \<Rightarrow> lane_pc list" where
  "lane_pcs l = map job_start (l_jobs l) @ l_threads l"

definition owners :: "int \<Rightarrow> lane_pc list \<Rightarrow> nat" where
  "owners s ps = length (filter (owns_lane s) ps)"

definition works :: "int \<Rightarrow> u64 \<Rightarrow> lane_pc list \<Rightarrow> nat" where
  "works s g ps = length (filter (\<lambda>p. lane_slot p = s \<and> work_generation p = Some g) ps)"

definition waiting :: "int \<Rightarrow> lane_pc list \<Rightarrow> slot_execution list" where
  "waiting s ps = concat (map waiting_task (filter (owns_lane s) ps))"

lemma occupancy_simps [simp]:
  "owners s [] = 0" "works s g [] = 0" "waiting s [] = []"
  "owners s (ps @ qs) = owners s ps + owners s qs"
  "works s g (ps @ qs) = works s g ps + works s g qs"
  "waiting s (ps @ qs) = waiting s ps @ waiting s qs"
  "owners s (p # ps) = of_bool (owns_lane s p) + owners s ps"
  "works s g (p # ps) = of_bool (lane_slot p = s \<and> work_generation p = Some g) + works s g ps"
  "waiting s (p # ps) = (if owns_lane s p then waiting_task p else []) @ waiting s ps"
  by (simp_all add: owners_def works_def waiting_def)

lemma no_owner_no_waiting [simp]: "owners s ps = 0 \<Longrightarrow> waiting s ps = []"
  by (simp add: owners_def waiting_def)

lemma other_slot_occupancy:
  "list_all (\<lambda>p. lane_slot p \<noteq> s) ps \<Longrightarrow> owners s ps = 0 \<and> works s g ps = 0 \<and> waiting s ps = []"
  by (induction ps) (auto simp: owns_lane_def)

lemma no_drop_other: "list_all (\<lambda>p. lane_slot p \<noteq> s) ps \<Longrightarrow> Slot_drop s \<notin> set ps"
  by (auto simp: list_all_iff)

definition pendable :: "slot_execution \<Rightarrow> bool" where
  "pendable t \<longleftrightarrow> execution_hook_type (t_execution t) \<noteq> HOOK_MESSAGE_INBOUND \<and>
     execution_hook_type (t_execution t) \<noteq> HOOK_TELNET_SUBNEG"

text \<open>
  The invariant of one lane, over its state \<open>st\<close>, the threads and jobs \<open>ps\<close>, and its history: an owner or
  a pending await exists only while the lane is marked active and there is at most one; an await is
  not both requested and pending; outside cancelled generations every outstanding await work is the
  one the lane is waiting for; tasks are taken in the order of their admission, and none is dropped
  while the pool accepts work.
\<close>

definition lane_inv ::
  "nat \<Rightarrow> bool \<Rightarrow> (int \<times> u64) set \<Rightarrow> slot_execution list \<Rightarrow> slot_execution list \<Rightarrow>
   int \<Rightarrow> slot_execution_state \<Rightarrow> lane_pc list \<Rightarrow> bool" where
  "lane_inv backlog accepting cancelled admitted taken s st ps \<longleftrightarrow>
     owners s ps + of_bool (s_await_pending st) \<le> (if s_active st then 1 else 0) \<and>
     \<not> (s_await_requested st \<and> s_await_pending st) \<and>
     (s_await_requested st \<longrightarrow> (s, s_await_generation st) \<notin> cancelled) \<and>
     (\<forall>g. (s, g) \<notin> cancelled \<longrightarrow>
        works s g ps \<le> (if s_await_pending st \<and> s_await_generation st = g then 1 else 0)) \<and>
     (s_pending st \<noteq> [] \<longrightarrow> s_active st) \<and>
     length (s_pending st) \<le> backlog \<and> list_all pendable (s_pending st) \<and>
     subseq (taken @ waiting s ps @ s_pending st) admitted \<and>
     (accepting \<longrightarrow> taken @ waiting s ps @ s_pending st = admitted \<and> Slot_drop s \<notin> set ps)"

definition lanes_inv :: "lanes \<Rightarrow> bool" where
  "lanes_inv l \<longleftrightarrow>
     (\<forall>s. lane_inv (l_backlog l) (l_accepting l) (l_cancelled l) (l_admitted l s) (l_taken l s)
            s (slot_view (l_states l) s) (lane_pcs l))"

lemma lanes_invD:
  "lanes_inv l \<Longrightarrow> lane_inv (l_backlog l) (l_accepting l) (l_cancelled l) (l_admitted l s)
     (l_taken l s) s (slot_view (l_states l) s) (lane_pcs l)"
  by (simp add: lanes_inv_def)

section \<open>Preservation by a thread\<close>

lemmas lane_sections =
  finish_section_def drop_section_def finalize_section_def discard_section_def
  await_done_section_def clear_slot_await_def

lemmas lane_thread_defs =
  run_slot_execution_start_def run_slot_execution_invoked_def finalize_await_begin_def
  finish_slot_execution_begin_def finish_slot_execution_next_def finish_slot_execution_failed_def
  run_slot_await_work_start_def run_slot_await_resume_start_def
  run_slot_await_work_done_def discard_slot_await_def submit_or_def lane_submit_def lane_wakeup_def

definition same_frame :: "lanes \<Rightarrow> lanes \<Rightarrow> bool" where
  "same_frame l l' \<longleftrightarrow> l_backlog l' = l_backlog l \<and> l_accepting l' = l_accepting l \<and>
     l_cancelled l' = l_cancelled l \<and> l_admitted l' = l_admitted l"

lemma thread_step_same_frame: "lane_thread_step ok p l = (p', l') \<Longrightarrow> same_frame l l'"
  by (cases p) (auto simp: same_frame_def lane_thread_defs split: if_splits option.splits prod.splits)

lemma thread_step_other_slot:
  "lane_thread_step ok p l = (p', l') \<Longrightarrow> s \<noteq> lane_slot p \<Longrightarrow>
     slot_view (l_states l') s = slot_view (l_states l) s \<and> l_taken l' s = l_taken l s"
  by (cases p)
    (auto simp: lane_thread_defs lane_sections slot_view_put Let_def slot_in_range_def
      split: if_splits option.splits prod.splits list.splits)

lemma thread_step_jobs:
  "lane_thread_step ok p l = (p', l') \<Longrightarrow>
     \<exists>js. l_jobs l' = l_jobs l @ js \<and> list_all (\<lambda>q. lane_slot q = lane_slot p) (map job_start js) \<and>
          list_all (\<lambda>q. lane_slot q = lane_slot p) (opt_list id p')"
  by (cases p)
    (auto simp: lane_thread_defs Let_def split: if_splits option.splits prod.splits)

text \<open>Steps that change neither the state nor what the threads occupy.\<close>

lemma lane_inv_cong:
  assumes "lane_inv bl acc can adm tk s st ps"
    and "owners s ps' = owners s ps" "\<And>g. works s g ps' = works s g ps" "waiting s ps' = waiting s ps"
    and "Slot_drop s \<in> set ps' \<Longrightarrow> Slot_drop s \<in> set ps"
  shows "lane_inv bl acc can adm tk s st ps'"
  using assms by (auto simp: lane_inv_def)

lemma lane_inv_replace:
  assumes "lane_inv bl acc can adm tk s st (ps @ p # qs)"
    and "lane_slot p' = lane_slot p" "work_generation p' = work_generation p"
    and "waiting_task p' = waiting_task p" "p' \<noteq> Slot_drop s"
  shows "lane_inv bl acc can adm tk s st (ps @ p' # qs)"
  using assms(1) by (rule lane_inv_cong) (use assms(2-) in \<open>auto simp: owns_lane_def\<close>)

lemma lane_inv_single_owner:
  assumes "lane_inv bl acc can adm tk s st (ps @ p # qs)" "owns_lane s p"
  shows "owners s ps = 0" "owners s qs = 0" "\<not> s_await_pending st" "s_active st"
  using assms by (auto simp: lane_inv_def split: if_splits)

lemma lane_inv_move:
  assumes "lane_inv bl acc can adm tk s st (js @ ps @ p # qs)"
  shows "lane_inv bl acc can adm tk s st ((js @ [p]) @ ps @ qs)"
proof (rule lane_inv_cong [OF assms])
  show "waiting s ((js @ [p]) @ ps @ qs) = waiting s (js @ ps @ p # qs)"
    using lane_inv_single_owner [of bl acc can adm tk s st "js @ ps" p qs] assms
    by (cases "owns_lane s p") auto
qed auto

lemma lane_inv_submit:
  assumes "lane_inv bl acc can adm tk s st (js @ ps @ p # qs)"
    and "lane_slot p' = lane_slot p" "work_generation p' = work_generation p"
    and "waiting_task p' = waiting_task p" "p' \<noteq> Slot_drop s"
  shows "lane_inv bl acc can adm tk s st (js @ p' # ps @ qs)"
proof -
  have "lane_inv bl acc can adm tk s st (js @ p # ps @ qs)"
    using lane_inv_move [OF assms(1)] by simp
  then show ?thesis by (rule lane_inv_replace) (use assms(2-) in auto)
qed

text \<open>An owner leaves the lane: it ends by an exception, without releasing it.\<close>

lemma lane_inv_abandon:
  assumes "lane_inv bl acc can adm tk s st (ps @ p # qs)" "owns_lane s p" "waiting_task p = []"
  shows "lane_inv bl acc can adm tk s st (ps @ qs)"
  using assms by (auto simp: lane_inv_def owns_lane_def)

lemma lane_inv_take:
  assumes "lane_inv bl acc can adm tk s st (ps @ Slot_start s t # qs)"
    and "lane_slot p' = s" "work_generation p' = None" "waiting_task p' = []" "p' \<noteq> Slot_drop s"
  shows "lane_inv bl acc can adm (tk @ [t]) s st (ps @ p' # qs)"
proof -
  have "owns_lane s (Slot_start s t)" by (simp add: owns_lane_def)
  note own = lane_inv_single_owner [OF assms(1) this]
  show ?thesis using assms own by (auto simp: lane_inv_def owns_lane_def)
qed

lemma lane_inv_finalize:
  assumes "lane_inv bl acc can adm tk s st (ps @ Slot_finalize s # qs)" "s_await_requested st"
  shows "lane_inv bl acc can adm tk s
    (st\<lparr>s_await_requested := False, s_await_pending := True, s_active := True, s_await_work := no_closure\<rparr>)
    (ps @ Await_submit s (s_await_generation st) w # qs)"
proof -
  have "owns_lane s (Slot_finalize s)" by (simp add: owns_lane_def)
  note own = lane_inv_single_owner [OF assms(1) this]
  show ?thesis using assms own by (auto simp: lane_inv_def owns_lane_def)
qed

lemma lane_inv_finish_next:
  assumes "lane_inv bl acc can adm tk s st (ps @ Slot_finish s # qs)" "s_pending st = t # ts"
  shows "lane_inv bl acc can adm tk s (st\<lparr>s_pending := ts\<rparr>) (ps @ Next_submit s t # qs)"
proof -
  have "owns_lane s (Slot_finish s)" by (simp add: owns_lane_def)
  note own = lane_inv_single_owner [OF assms(1) this]
  show ?thesis using assms own by (auto simp: lane_inv_def owns_lane_def)
qed

lemma lane_inv_finish_idle:
  assumes "lane_inv bl acc can adm tk s st (ps @ Slot_finish s # qs)" "s_pending st = []"
  shows "lane_inv bl acc can adm tk s (st\<lparr>s_active := False\<rparr>) (ps @ qs)"
proof -
  have "owns_lane s (Slot_finish s)" by (simp add: owns_lane_def)
  note own = lane_inv_single_owner [OF assms(1) this]
  show ?thesis using assms own by (auto simp: lane_inv_def owns_lane_def)
qed

lemma lane_inv_drop:
  assumes "lane_inv bl acc can adm tk s st (ps @ Slot_drop s # qs)"
  shows "lane_inv bl acc can adm tk s (st\<lparr>s_pending := [], s_active := False\<rparr>) (ps @ qs)"
proof -
  have "owns_lane s (Slot_drop s)" by (simp add: owns_lane_def)
  note own = lane_inv_single_owner [OF assms(1) this]
  show ?thesis using assms own by (auto simp: lane_inv_def owns_lane_def dest: subseq_drop_end)
qed

lemma lane_inv_lose:
  assumes "lane_inv bl acc can adm tk s st (ps @ p # qs)" "\<not> acc" "owns_lane s p"
    and "lane_slot p' = s" "work_generation p' = None" "waiting_task p' = []"
  shows "lane_inv bl acc can adm tk s st (ps @ p' # qs)"
proof -
  note own = lane_inv_single_owner [OF assms(1,3)]
  have "subseq (tk @ s_pending st) adm"
    using assms(1,3) own by (auto simp: lane_inv_def intro: subseq_drop_middle)
  then show ?thesis using assms own by (auto simp: lane_inv_def owns_lane_def)
qed

lemma lane_inv_resume:
  assumes "lane_inv bl acc can adm tk s st (ps @ Work_check s g m b # qs)"
    and "s_await_pending st" "s_await_generation st = g"
  shows "lane_inv bl acc can adm tk s
    (st\<lparr>s_await_resume := no_closure, s_await_pending := False, s_await_generation := 0\<rparr>)
    (ps @ Resume_submit s g r m # qs)"
  using assms by (auto simp: lane_inv_def owns_lane_def split: if_splits)

lemma lane_inv_discard:
  assumes "lane_inv bl acc can adm tk s st (ps @ Work_discard s g # qs)"
    and "s_await_requested st \<or> s_await_pending st" "s_await_generation st = g"
  shows "lane_inv bl acc can adm tk s
    (st\<lparr>s_await_work := no_closure, s_await_resume := no_closure, s_await_requested := False,
        s_await_pending := False, s_await_generation := 0\<rparr>)
    (ps @ Slot_finish s # qs)"
proof -
  have "s_await_pending st" using assms by (force simp: lane_inv_def split: if_splits)
  then show ?thesis using assms(1,3) by (auto simp: lane_inv_def owns_lane_def split: if_splits)
qed

lemma lane_inv_work_end:
  assumes "lane_inv bl acc can adm tk s st (ps @ p # qs)" "work_generation p = Some g"
  shows "lane_inv bl acc can adm tk s st (ps @ qs)"
proof -
  have "owners s (ps @ p # qs) = owners s (ps @ qs)" "waiting s (ps @ p # qs) = waiting s (ps @ qs)"
    using assms(2) by (simp_all add: owns_lane_def)
  moreover have "works s g' (ps @ qs) \<le> works s g' (ps @ p # qs)" for g' by simp
  ultimately show ?thesis using assms(1) unfolding lane_inv_def by (fastforce intro: order_trans)
qed

lemma lane_submit_cases:
  "submit_or j p l = (if l_accepting l then (None, l\<lparr>l_jobs := l_jobs l @ [j]\<rparr>) else (Some p, l))"
  by (simp add: submit_or_def lane_submit_def)

lemma next_submit_cases:
  "finish_slot_execution_next s t l =
     (if l_accepting l then (None, lane_wakeup (l\<lparr>l_jobs := l_jobs l @ [Run_slot s t]\<rparr>))
      else (Some (Slot_drop s), l))"
  by (simp add: finish_slot_execution_next_def lane_submit_def)

text \<open>A thread preserves the invariant of its own lane.\<close>

lemma own_lane_step:
  assumes inv: "lane_inv bl (l_accepting l) can adm (l_taken l s) s (slot_view (l_states l) s)
      (map job_start (l_jobs l) @ ps @ p # qs)"
    and stp: "lane_thread_step ok p l = (p', l')" and s: "lane_slot p = s"
  shows "lane_inv bl (l_accepting l) can adm (l_taken l' s) s (slot_view (l_states l') s)
      (map job_start (l_jobs l') @ ps @ opt_list id p' @ qs)"
proof -
  have rng: "slot_in_range s (l_states l)" if "s_active (slot_view (l_states l) s)"
    using that by (metis new_slot_state_def slot_execution_state.select_convs(1) view_out_of_range)
  have own: "slot_in_range s (l_states l)" if "owns_lane s p"
    using rng lane_inv_single_owner(4) [of bl _ can adm _ s _ "map job_start (l_jobs l) @ ps" p qs] inv that
    by simp
  have pend: "slot_in_range s (l_states l)" if "s_await_pending (slot_view (l_states l) s)"
    using rng inv that by (auto simp: lane_inv_def split: if_splits)
  let ?J = "map job_start (l_jobs l)"
  note inv = inv [unfolded append_assoc [symmetric]]
  show ?thesis
  proof (cases p)
    case (Slot_start s' t)
    then have p: "p = Slot_start s t" using s by simp
    with stp s show ?thesis
      using lane_inv_take [OF inv [unfolded p]]
      by (auto simp: run_slot_execution_start_def)
  next
    case (Slot_invoke s' t)
    then have p: "p = Slot_invoke s t" using s by simp
    with stp s show ?thesis
      using lane_inv_replace [OF inv] lane_inv_abandon [OF inv]
      by (auto simp: run_slot_execution_invoked_def owns_lane_def split: if_splits)
  next
    case (Slot_finalize s')
    then have p: "p = Slot_finalize s" using s by simp
    with stp s own show ?thesis
      using lane_inv_replace [OF inv] lane_inv_finalize [OF inv [unfolded p]]
      by (auto simp: finalize_await_begin_def finalize_section_def owns_lane_def slot_view_put Let_def
          split: if_splits)
  next
    case (Slot_finish s')
    then have p: "p = Slot_finish s" using s by simp
    with stp s own show ?thesis
      using lane_inv_finish_next [OF inv [unfolded p]]
        lane_inv_finish_idle [OF inv [unfolded p]]
      by (auto simp: finish_slot_execution_begin_def finish_section_def owns_lane_def slot_view_put
          Let_def lane_wakeup_def split: if_splits list.splits)
  next
    case (Next_submit s' t)
    then have p: "p = Next_submit s t" using s by simp
    with stp s show ?thesis
      using lane_inv_lose [OF inv, of "Slot_drop s"] lane_inv_submit [OF assms(1)]
      by (auto simp: next_submit_cases owns_lane_def lane_wakeup_def split: if_splits)
  next
    case (Slot_drop s')
    then have p: "p = Slot_drop s" using s by simp
    with stp s own show ?thesis
      using lane_inv_drop [OF inv [unfolded p]]
      by (auto simp: finish_slot_execution_failed_def drop_section_def owns_lane_def slot_view_put
          lane_wakeup_def)
  next
    case (Work_check s' g m b)
    then have p: "p = Work_check s g m b" using s by simp
    with stp s show ?thesis
      using lane_inv_replace [OF inv] lane_inv_resume [OF inv [unfolded p]]
      by (auto simp: run_slot_await_work_done_def await_done_section_def slot_view_put Let_def
          split: if_splits)
  next
    case (Work_discard s' g)
    then have p: "p = Work_discard s g" using s by simp
    with stp s show ?thesis
      using lane_inv_work_end [OF inv] lane_inv_discard [OF inv [unfolded p]]
      by (auto simp: discard_slot_await_def discard_section_def clear_slot_await_def slot_view_put
          Let_def split: if_splits)
  qed (use stp s lane_inv_replace [OF inv] lane_inv_submit [OF assms(1)] lane_inv_lose [OF inv] in
      \<open>auto simp: lane_submit_cases owns_lane_def run_slot_await_work_start_def
        run_slot_await_resume_start_def split: if_splits\<close>)
qed

section \<open>Preservation by every step\<close>

lemma lane_run_inv:
  assumes inv: "lanes_inv l" and th: "l_threads l = ps @ p # qs"
    and stp: "lane_thread_step ok p l = (p', l')"
  shows "lanes_inv (l'\<lparr>l_threads := ps @ opt_list id p' @ qs\<rparr>)"
  unfolding lanes_inv_def
proof (rule allI)
  fix s
  have fr: "same_frame l l'" using thread_step_same_frame [OF stp] .
  note i = lanes_invD [OF inv, of s, unfolded lane_pcs_def th]
  show "lane_inv (l_backlog (l'\<lparr>l_threads := ps @ opt_list id p' @ qs\<rparr>))
      (l_accepting (l'\<lparr>l_threads := ps @ opt_list id p' @ qs\<rparr>))
      (l_cancelled (l'\<lparr>l_threads := ps @ opt_list id p' @ qs\<rparr>))
      (l_admitted (l'\<lparr>l_threads := ps @ opt_list id p' @ qs\<rparr>) s)
      (l_taken (l'\<lparr>l_threads := ps @ opt_list id p' @ qs\<rparr>) s) s
      (slot_view (l_states (l'\<lparr>l_threads := ps @ opt_list id p' @ qs\<rparr>)) s)
      (lane_pcs (l'\<lparr>l_threads := ps @ opt_list id p' @ qs\<rparr>))"
  proof (cases "lane_slot p = s")
    case True
    from own_lane_step [OF i stp True] fr show ?thesis by (simp add: lane_pcs_def same_frame_def)
  next
    case False
    obtain js where js: "l_jobs l' = l_jobs l @ js"
      "list_all (\<lambda>q. lane_slot q = lane_slot p) (map job_start js)"
      "list_all (\<lambda>q. lane_slot q = lane_slot p) (opt_list id p')"
      using thread_step_jobs [OF stp] by blast
    have o: "list_all (\<lambda>q. lane_slot q \<noteq> s) (map job_start js)"
      "list_all (\<lambda>q. lane_slot q \<noteq> s) (opt_list id p')"
      using js False by (auto simp: list_all_iff)
    have drop: "Slot_drop s \<notin> set (map job_start js)" "Slot_drop s \<notin> set (opt_list id p')"
      using no_drop_other [OF o(1)] no_drop_other [OF o(2)] by blast+
    have "lane_inv (l_backlog l) (l_accepting l) (l_cancelled l) (l_admitted l s) (l_taken l s) s
        (slot_view (l_states l) s) ((map job_start (l_jobs l) @ map job_start js) @ ps @ opt_list id p' @ qs)"
      using i by (rule lane_inv_cong)
        (use other_slot_occupancy [OF o(1)] other_slot_occupancy [OF o(2)] False drop in
          \<open>auto simp: owns_lane_def\<close>)
    then show ?thesis using thread_step_other_slot [OF stp] False fr js(1)
      by (auto simp: lane_pcs_def same_frame_def)
  qed
qed

lemma lane_pick_inv:
  assumes "lanes_inv l" "l_jobs l = j # js"
  shows "lanes_inv (l\<lparr>l_jobs := js, l_threads := l_threads l @ [job_start j]\<rparr>)"
  unfolding lanes_inv_def
proof (rule allI)
  fix s
  have "lane_inv (l_backlog l) (l_accepting l) (l_cancelled l) (l_admitted l s) (l_taken l s) s
      (slot_view (l_states l) s) (map job_start js @ l_threads l @ [job_start j])"
    using lanes_invD [OF assms(1), of s]
  proof (rule lane_inv_cong)
    show "waiting s (map job_start js @ l_threads l @ [job_start j]) = waiting s (lane_pcs l)"
      using lanes_invD [OF assms(1), of s] assms(2)
        lane_inv_single_owner [of _ _ _ _ _ s _ "[]" "job_start j" "map job_start js @ l_threads l"]
      by (cases "owns_lane s (job_start j)") (auto simp: lane_pcs_def)
  qed (auto simp: lane_pcs_def assms(2))
  then show "lane_inv (l_backlog (l\<lparr>l_jobs := js, l_threads := l_threads l @ [job_start j]\<rparr>))
      (l_accepting (l\<lparr>l_jobs := js, l_threads := l_threads l @ [job_start j]\<rparr>))
      (l_cancelled (l\<lparr>l_jobs := js, l_threads := l_threads l @ [job_start j]\<rparr>))
      (l_admitted (l\<lparr>l_jobs := js, l_threads := l_threads l @ [job_start j]\<rparr>) s)
      (l_taken (l\<lparr>l_jobs := js, l_threads := l_threads l @ [job_start j]\<rparr>) s) s
      (slot_view (l_states (l\<lparr>l_jobs := js, l_threads := l_threads l @ [job_start j]\<rparr>)) s)
      (lane_pcs (l\<lparr>l_jobs := js, l_threads := l_threads l @ [job_start j]\<rparr>))"
    by (simp add: lane_pcs_def)
qed

lemma lane_inv_enqueue_pending:
  assumes "lane_inv bl acc can adm tk s st ps" "s_active st" "length (s_pending st) < bl" "pendable t"
  shows "lane_inv bl acc can (adm @ [t]) tk s (st\<lparr>s_pending := s_pending st @ [t]\<rparr>) ps"
proof -
  have "subseq ((tk @ waiting s ps @ s_pending st) @ [t]) (adm @ [t])"
    using assms(1) unfolding lane_inv_def by (intro list_emb_append_mono) auto
  then show ?thesis using assms by (auto simp: lane_inv_def)
qed

lemma lane_inv_enqueue_submit:
  assumes "lane_inv bl acc can adm tk s st ps" "\<not> s_active st"
  shows "lane_inv bl acc can (adm @ [t]) tk s (st\<lparr>s_active := True\<rparr>) (ps @ [Enqueue_submit s t])"
proof -
  have z: "owners s ps = 0" "\<not> s_await_pending st" "s_pending st = []"
    using assms by (auto simp: lane_inv_def)
  then have "subseq ((tk @ waiting s ps @ s_pending st) @ [t]) (adm @ [t])"
    using assms(1) unfolding lane_inv_def by (intro list_emb_append_mono) auto
  then show ?thesis using assms z by (auto simp: lane_inv_def owns_lane_def)
qed

lemma lane_inv_add_other:
  "lane_inv bl acc can adm tk s st ps \<Longrightarrow> lane_slot p \<noteq> s \<Longrightarrow> lane_inv bl acc can adm tk s st (ps @ [p])"
  by (erule lane_inv_cong) (auto simp: owns_lane_def)

lemma slot_view_put_fun:
  "slot_in_range s sts \<Longrightarrow> slot_view (put_slot s st sts) = (slot_view sts)(s := st)"
  by (auto simp: slot_view_put fun_eq_iff)

lemma slot_view_ensure_fun [simp]: "slot_view (ensure_slot_state_locked s sts) = slot_view sts"
  by (simp add: fun_eq_iff)

text \<open>What an enqueue does: nothing, add to the waiting tasks of a busy lane, or occupy an idle lane.\<close>

lemma enqueue_effect:
  assumes "snd (mudmux_execution_enqueue gen e allow_pending queue_slot l) = l'"
  obtains (refused) sts where "l' = l\<lparr>l_states := sts\<rparr>" "slot_view sts = slot_view (l_states l)"
  | (pending) s t sts where
      "l' = l\<lparr>l_states := sts, l_admitted := (l_admitted l)(s := l_admitted l s @ [t])\<rparr>"
      "s_active (slot_view (l_states l) s)" "length (s_pending (slot_view (l_states l) s)) < l_backlog l"
      "pendable t" "slot_view sts = (slot_view (l_states l))
         (s := (slot_view (l_states l) s)\<lparr>s_pending := s_pending (slot_view (l_states l) s) @ [t]\<rparr>)"
  | (submit) s t sts where
      "l' = l\<lparr>l_states := sts, l_admitted := (l_admitted l)(s := l_admitted l s @ [t]),
              l_threads := l_threads l @ [Enqueue_submit s t]\<rparr>"
      "\<not> s_active (slot_view (l_states l) s)"
      "slot_view sts = (slot_view (l_states l))(s := (slot_view (l_states l) s)\<lparr>s_active := True\<rparr>)"
proof -
  define s where "s = (if queue_slot \<ge> 0 then queue_slot else e_msg e)"
  define t where "t = \<lparr>t_execution = e, t_generation = gen\<rparr>"
  let ?sts = "ensure_slot_state_locked s (l_states l)" and ?v = "slot_view (l_states l) s"
  show thesis
  proof (cases "\<not> l_running l \<or> s < 0 \<or> \<not> is_registered_hook e")
    case True
    then have "l' = l" using assms by (auto simp: mudmux_execution_enqueue_def Let_def s_def)
    then show thesis using refused [of "l_states l"] by simp
  next
    case False
    then have rng: "slot_in_range s ?sts" by simp
    define al where "al = (if execution_hook_type e = HOOK_MESSAGE_INBOUND \<or>
      execution_hook_type e = HOOK_TELNET_SUBNEG then False else allow_pending)"
    have l': "l' = snd (case enqueue_section (l_backlog l) s t al (l_states l) of
              (Lane_full, states) \<Rightarrow> (Some MUDMUX_DISPATCH_QUEUE_FULL, l\<lparr>l_states := states\<rparr>)
            | (Lane_pending, states) \<Rightarrow> (Some MUDMUX_DISPATCH_QUEUED,
                l\<lparr>l_states := states, l_admitted := (l_admitted l)(s := l_admitted l s @ [t])\<rparr>)
            | (Lane_submit, states) \<Rightarrow>
                (None, l\<lparr>l_states := states, l_admitted := (l_admitted l)(s := l_admitted l s @ [t]),
                         l_threads := l_threads l @ [Enqueue_submit s t]\<rparr>))"
      unfolding assms [symmetric] mudmux_execution_enqueue_def Let_def s_def [symmetric] t_def [symmetric]
        al_def [symmetric]
      using False by simp
    show thesis
    proof (cases "s_active ?v")
      case act: True
      show thesis
      proof (cases "\<not> al \<or> length (s_pending ?v) \<ge> l_backlog l")
        case True
        then have "l' = l\<lparr>l_states := ?sts\<rparr>" using l' act by (auto simp: enqueue_section_def Let_def)
        then show thesis by (rule refused) simp
      next
        case pend: False
        show thesis
        proof (rule pending)
          show "l' = l\<lparr>l_states := put_slot s (?v\<lparr>s_pending := s_pending ?v @ [t]\<rparr>) ?sts,
              l_admitted := (l_admitted l)(s := l_admitted l s @ [t])\<rparr>"
            using l' act pend by (simp add: enqueue_section_def Let_def)
          show "pendable t" using pend by (auto simp: pendable_def t_def al_def split: if_splits)
        qed (use act pend rng in \<open>auto simp: slot_view_put_fun\<close>)
      qed
    next
      case idle: False
      show thesis
      proof (rule submit)
        show "l' = l\<lparr>l_states := put_slot s (?v\<lparr>s_active := True\<rparr>) ?sts,
            l_admitted := (l_admitted l)(s := l_admitted l s @ [t]),
            l_threads := l_threads l @ [Enqueue_submit s t]\<rparr>"
          using l' idle by (simp add: enqueue_section_def Let_def)
      qed (use idle rng in \<open>auto simp: slot_view_put_fun\<close>)
    qed
  qed
qed

lemma lane_enqueue_inv:
  assumes "lanes_inv l" and l': "snd (mudmux_execution_enqueue gen e allow_pending queue_slot l) = l'"
  shows "lanes_inv l'"
  using l'
proof (cases rule: enqueue_effect)
  case (pending s t sts)
  then show ?thesis using assms(1) lane_inv_enqueue_pending [OF lanes_invD [OF assms(1)]]
    by (auto simp: lanes_inv_def lane_pcs_def)
next
  case (submit s t sts)
  then show ?thesis
    using lane_inv_enqueue_submit [OF lanes_invD [OF assms(1)] submit(2)]
      lane_inv_add_other [OF lanes_invD [OF assms(1)], of "Enqueue_submit s t"]
    by (auto simp: lanes_inv_def lane_pcs_def)
qed (use assms(1) in \<open>auto simp: lanes_inv_def lane_pcs_def\<close>)

lemma lane_inv_await:
  assumes "lane_inv bl acc can adm tk s st ps" "\<not> s_await_requested st" "\<not> s_await_pending st"
    and "(s, g) \<notin> can"
  shows "lane_inv bl acc can adm tk s
    (st\<lparr>s_await_requested := True, s_await_generation := g, s_await_work := w, s_await_resume := r\<rparr>) ps"
  using assms by (auto simp: lane_inv_def)

lemma lane_inv_cancel_requested:
  assumes "lane_inv bl acc can adm tk s st ps" "s_await_requested st"
  shows "lane_inv bl acc can adm tk s
    (st\<lparr>s_await_work := no_closure, s_await_resume := no_closure, s_await_requested := False,
        s_await_pending := False, s_await_generation := 0\<rparr>) ps"
  using assms by (auto simp: lane_inv_def)

lemma lane_inv_cancel_pending:
  assumes "lane_inv bl acc can adm tk s st ps" "s_await_pending st"
  shows "lane_inv bl acc (insert (s, s_await_generation st) can) adm tk s
    (st\<lparr>s_await_resume := no_closure, s_await_pending := False, s_await_generation := 0\<rparr>)
    (ps @ [Slot_finish s])"
  using assms by (auto simp: lane_inv_def owns_lane_def split: if_splits)

lemma lane_inv_cancelled_other:
  "lane_inv bl acc can adm tk s st ps \<Longrightarrow> s' \<noteq> s \<Longrightarrow> lane_inv bl acc (insert (s', g) can) adm tk s st ps"
  by (auto simp: lane_inv_def)

lemma await_effect:
  assumes "mudmux_workers_await loc gen work resume l = (r, work', resume', l')"
  shows "same_frame l l' \<and> l_taken l' = l_taken l \<and> lane_pcs l' = lane_pcs l \<and>
    slot_view (l_states l') =
      (if r then (slot_view (l_states l))(current_slot loc := (slot_view (l_states l) (current_slot loc))
         \<lparr>s_await_requested := True, s_await_generation := gen, s_await_work := the work,
          s_await_resume := the resume\<rparr>)
       else slot_view (l_states l)) \<and>
    (r \<longrightarrow> \<not> s_await_requested (slot_view (l_states l) (current_slot loc)) \<and>
           \<not> s_await_pending (slot_view (l_states l) (current_slot loc)))"
  using assms
  by (auto simp: mudmux_workers_await_def await_section_def await_allowed_def Let_def slot_view_put_fun
      same_frame_def lane_pcs_def split: option.splits if_splits)

lemma lane_await_inv:
  assumes "lanes_inv l" and "(current_slot loc, gen) \<notin> l_cancelled l"
    and "mudmux_workers_await loc gen work resume l = (r, work', resume', l')"
  shows "lanes_inv l'"
proof (cases r)
  case True
  then show ?thesis
    using await_effect [OF assms(3)] assms(1) lane_inv_await [OF lanes_invD [OF assms(1)] _ _ assms(2)]
    by (simp add: lanes_inv_def same_frame_def)
next
  case False
  then show ?thesis using await_effect [OF assms(3)] assms(1) by (simp add: lanes_inv_def same_frame_def)
qed

lemma cancel_none:
  "\<not> slot_in_range s (l_states l) \<or>
     \<not> s_await_requested (slot_view (l_states l) s) \<and> \<not> s_await_pending (slot_view (l_states l) s) \<Longrightarrow>
   mudmux_execution_cancel_await s l = l"
  by (auto simp: mudmux_execution_cancel_await_def cancel_section_def Let_def slot_in_range_def)

lemma cancel_requested:
  "slot_in_range s (l_states l) \<Longrightarrow> s_await_requested (slot_view (l_states l) s) \<Longrightarrow>
   mudmux_execution_cancel_await s l =
     l\<lparr>l_states := put_slot s (snd (snd (clear_slot_await (slot_view (l_states l) s)))) (l_states l)\<rparr>"
  by (simp add: mudmux_execution_cancel_await_def cancel_section_def Let_def slot_in_range_def
      clear_slot_await_def)

lemma cancel_pending:
  "slot_in_range s (l_states l) \<Longrightarrow> \<not> s_await_requested (slot_view (l_states l) s) \<Longrightarrow>
   s_await_pending (slot_view (l_states l) s) \<Longrightarrow>
   mudmux_execution_cancel_await s l =
     l\<lparr>l_states := put_slot s ((slot_view (l_states l) s)
           \<lparr>s_await_resume := no_closure, s_await_pending := False, s_await_generation := 0\<rparr>) (l_states l),
       l_threads := l_threads l @ [Slot_finish s],
       l_cancelled := insert (s, s_await_generation (slot_view (l_states l) s)) (l_cancelled l)\<rparr>"
  by (simp add: mudmux_execution_cancel_await_def cancel_section_def Let_def slot_in_range_def)

lemma lane_cancel_inv:
  assumes "lanes_inv l"
  shows "lanes_inv (mudmux_execution_cancel_await slot l)"
proof -
  let ?v = "slot_view (l_states l) slot"
  consider (none) "mudmux_execution_cancel_await slot l = l"
    | (req) "slot_in_range slot (l_states l)" "s_await_requested ?v"
    | (pend) "slot_in_range slot (l_states l)" "\<not> s_await_requested ?v" "s_await_pending ?v"
    using cancel_none [of slot l] by blast
  then show ?thesis
  proof cases
    case req
    then show ?thesis
      using assms lane_inv_cancel_requested [OF lanes_invD [OF assms] req(2)]
      by (auto simp: cancel_requested lanes_inv_def lane_pcs_def clear_slot_await_def slot_view_put_fun)
  next
    case pend
    then show ?thesis
      using lane_inv_cancel_pending [OF lanes_invD [OF assms] pend(3)]
        lane_inv_cancelled_other [OF lane_inv_add_other [OF lanes_invD [OF assms]], of "Slot_finish slot"]
      by (auto simp: cancel_pending lanes_inv_def lane_pcs_def slot_view_put_fun)
  qed (use assms in simp)
qed

lemma lane_inv_fresh: "lane_inv bl acc can [] [] s new_slot_state []"
  by (simp add: lane_inv_def new_slot_state_def)

lemma lanes_inv_fresh:
  assumes "l_states l = []" "l_jobs l = []" "l_threads l = []"
    and "l_admitted l = (\<lambda>_. [])" "l_taken l = (\<lambda>_. [])"
  shows "lanes_inv l"
  using assms by (simp add: lanes_inv_def lane_pcs_def lane_inv_fresh)

lemma lane_inv_stop: "lane_inv bl acc can adm tk s st ps \<Longrightarrow> lane_inv bl False can adm tk s st ps"
  by (simp add: lane_inv_def)

lemma lane_step_inv: "lane_step l l' \<Longrightarrow> lanes_inv l \<Longrightarrow> lanes_inv l'"
proof (induction rule: lane_step.induct)
  case (lane_pick l j js)
  then show ?case by (rule lane_pick_inv [rotated])
next
  case (lane_run l ps p qs ok p' l')
  show ?case by (rule lane_run_inv [OF lane_run.prems lane_run.hyps])
next
  case (lane_enqueue l gen e allow_pending queue_slot)
  then show ?case by (rule lane_enqueue_inv) (rule refl)
next
  case (lane_await p l loc gen work resume r work' resume' l')
  show ?case by (rule lane_await_inv [OF lane_await.prems lane_await.hyps(3,4)])
next
  case (lane_cancel l slot)
  then show ?case by (rule lane_cancel_inv)
next
  case (lane_reassign l slot g)
  then show ?case by (simp add: lanes_inv_def lane_pcs_def)
next
  case (lane_stop l)
  then show ?case by (auto simp: lanes_inv_def lane_pcs_def intro: lane_inv_stop)
next
  case (lane_stopped l)
  then show ?case by (intro lanes_inv_fresh) simp_all
next
  case (lane_start l)
  then show ?case by (intro lanes_inv_fresh) simp_all
qed

lemma lane_init_inv: "lane_init l \<Longrightarrow> lanes_inv l"
  by (intro lanes_inv_fresh) (simp_all add: lane_init_def)

interpretation lane_sys: inductive_invariant lane_init lane_step lanes_inv
  by unfold_locales (blast intro: lane_init_inv lane_step_inv)+

section \<open>Properties\<close>

lemma reachable_lane_inv:
  "reachable lane_init lane_step l \<Longrightarrow>
     lane_inv (l_backlog l) (l_accepting l) (l_cancelled l) (l_admitted l s) (l_taken l s) s
       (slot_view (l_states l) s) (lane_pcs l)"
  by (rule lanes_invD) (rule lane_sys.reachable_inv)

lemma active_slot_busy: "s_active (slot_view sts s) \<Longrightarrow> mudmux_execution_slot_busy s sts"
  by (auto simp: mudmux_execution_slot_busy_def slot_view_def slot_in_range_def new_slot_state_def
      split: if_splits)



text \<open>
  C13. The queue of a lane never exceeds the configured backlog, holds neither inbound messages nor Telnet
  subnegotiations, and is non-empty only while the slot is busy.
\<close>
theorem slot_backlog_bounded:
  assumes "reachable lane_init lane_step l"
  shows "let pending = s_pending (slot_view (l_states l) s) in
    length pending \<le> l_backlog l \<and> list_all pendable pending \<and>
    (pending = [] \<or> mudmux_execution_slot_busy s (l_states l))"
  using reachable_lane_inv [OF assms, of s] active_slot_busy [of "l_states l" s]
  by (auto simp: lane_inv_def Let_def)

text \<open>A run in which two hooks are dispatched to slot 1: the second waits behind the first.\<close>

definition sample_execution :: "mudmux_hook_type \<Rightarrow> mudmux_execution" where
  "sample_execution t = \<lparr>e_target = Inl t, e_msg = 1, e_current_slot = 1, e_registration = None,
     e_payload = [], e_completion = None\<rparr>"

definition sample_started :: lanes where
  "sample_started = \<lparr>l_running = True, l_backlog = 8, l_states = [], l_jobs = [], l_accepting = True,
     l_gens = (\<lambda>_. 7), l_threads = [], l_admitted = (\<lambda>_. []), l_taken = (\<lambda>_. []), l_cancelled = {},
     l_deferred = (\<lambda>_. False), l_wakeups = 0\<rparr>"

definition sample_lanes :: lanes where
  "sample_lanes =
     snd (mudmux_execution_enqueue 7 (sample_execution HOOK_PROMPT) True 1
       (snd (mudmux_execution_enqueue 7 (sample_execution HOOK_CONNECT) True 1 sample_started)))"

lemma reachable_enqueue:
  "reachable lane_init lane_step l \<Longrightarrow>
     reachable lane_init lane_step (snd (mudmux_execution_enqueue gen e allow_pending queue_slot l))"
  by (erule reachable_step) (rule lane_enqueue)

lemma sample_lanes_reachable: "reachable lane_init lane_step sample_lanes"
  unfolding sample_lanes_def
  by (intro reachable_enqueue reachable_init) (simp add: lane_init_def sample_started_def)

lemma sample_lanes_eq:
  "sample_lanes = sample_started\<lparr>
     l_states := [new_slot_state, new_slot_state\<lparr>s_active := True,
        s_pending := [\<lparr>t_execution = sample_execution HOOK_PROMPT, t_generation = 7\<rparr>]\<rparr>],
     l_threads := [Enqueue_submit 1 \<lparr>t_execution = sample_execution HOOK_CONNECT, t_generation = 7\<rparr>],
     l_admitted := (\<lambda>_. [])(1 := [\<lparr>t_execution = sample_execution HOOK_CONNECT, t_generation = 7\<rparr>,
                                  \<lparr>t_execution = sample_execution HOOK_PROMPT, t_generation = 7\<rparr>])\<rparr>"
  by (simp add: sample_lanes_def sample_started_def mudmux_execution_enqueue_def Let_def
      is_registered_hook_def sample_execution_def execution_hook_type_def enqueue_section_def
      ensure_slot_state_locked_def slot_view_def slot_in_range_def put_slot_def new_slot_state_def
      eval_nat_numeral)



theorem slot_backlog_bounded_witness:
  "length (s_pending (slot_view (l_states sample_lanes) 1)) = 1 \<and>
   length (s_pending (slot_view (l_states sample_lanes) 1)) \<le> l_backlog sample_lanes \<and>
   mudmux_execution_slot_busy 1 (l_states sample_lanes)"
proof -
  have "length (s_pending (slot_view (l_states sample_lanes) 1)) = 1"
    by (simp add: sample_lanes_eq slot_view_def slot_in_range_def)
  then show ?thesis using slot_backlog_bounded [OF sample_lanes_reachable, of 1]
    by (auto simp: Let_def)
qed

section \<open>Two limits of the lanes\<close>

text \<open>
  A hook that throws leaves through \<^verbatim>\<open>run_slot_execution\<close> without releasing the lane. From then on no
  step of the running system makes the slot idle again: it stays busy until the workers are stopped.
  (\<^verbatim>\<open>run_event_execution\<close> catches the exception and releases its lane.)
\<close>

definition lane_stuck :: "int \<Rightarrow> lanes \<Rightarrow> bool" where
  "lane_stuck s l \<longleftrightarrow> s_active (slot_view (l_states l) s) \<and> owners s (lane_pcs l) = 0 \<and>
     \<not> s_await_pending (slot_view (l_states l) s)"

lemma throwing_hook_stuck:
  assumes "lanes_inv l" "l_threads l = ps @ Slot_invoke s t # qs"
    and "lane_thread_step False (Slot_invoke s t) l = (p', l')"
  shows "lane_stuck s (l'\<lparr>l_threads := ps @ opt_list id p' @ qs\<rparr>)"
proof -
  have i: "lane_inv (l_backlog l) (l_accepting l) (l_cancelled l) (l_admitted l s) (l_taken l s) s
      (slot_view (l_states l) s) ((map job_start (l_jobs l) @ ps) @ Slot_invoke s t # qs)"
    using lanes_invD [OF assms(1), of s] assms(2) by (simp add: lane_pcs_def)
  have o: "owns_lane s (Slot_invoke s t)" by (simp add: owns_lane_def)
  show ?thesis using lane_inv_single_owner [OF i o] assms(3)
    by (auto simp: lane_stuck_def lane_pcs_def run_slot_execution_invoked_def)
qed

lemma stuck_no_discard:
  assumes "lanes_inv l" "lane_stuck s l" "Work_discard s g \<in> set (lane_pcs l)"
    and "s_await_generation (slot_view (l_states l) s) = g"
  shows "\<not> s_await_requested (slot_view (l_states l) s)"
proof
  assume r: "s_await_requested (slot_view (l_states l) s)"
  obtain ps qs where "lane_pcs l = ps @ Work_discard s g # qs" using assms(3) by (auto dest: split_list)
  then show False using r lanes_invD [OF assms(1), of s] assms(2,4)
    by (force simp: lane_inv_def lane_stuck_def)
qed

lemma stuck_thread_step:
  assumes "lanes_inv l" "lane_stuck s l" "l_threads l = ps @ p # qs" "lane_thread_step ok p l = (p', l')"
  shows "lane_stuck s (l'\<lparr>l_threads := ps @ opt_list id p' @ qs\<rparr>)"
proof (cases "lane_slot p = s")
  case True
  then have w: "work_generation p \<noteq> None"
    using assms(2,3) by (auto simp: lane_stuck_def lane_pcs_def owns_lane_def)
  have d: "s_await_generation (slot_view (l_states l) s) \<noteq> g \<or> \<not> s_await_requested (slot_view (l_states l) s)"
    if "p = Work_discard s g" for g
    using stuck_no_discard [OF assms(1,2), of g] that assms(3) by (auto simp: lane_pcs_def)
  show ?thesis using assms(2-) w True d
    by (cases p)
      (auto simp: lane_stuck_def lane_pcs_def owns_lane_def lane_submit_cases run_slot_await_work_done_def
        run_slot_await_work_start_def await_done_section_def discard_slot_await_def discard_section_def Let_def split: if_splits)
next
  case False
  obtain js where js: "l_jobs l' = l_jobs l @ js"
    "list_all (\<lambda>q. lane_slot q = lane_slot p) (map job_start js)"
    "list_all (\<lambda>q. lane_slot q = lane_slot p) (opt_list id p')"
    using thread_step_jobs [OF assms(4)] by blast
  have "list_all (\<lambda>q. lane_slot q \<noteq> s) (map job_start js)" "list_all (\<lambda>q. lane_slot q \<noteq> s) (opt_list id p')"
    using js False by (auto simp: list_all_iff)
  then show ?thesis
    using assms(2,3) thread_step_other_slot [OF assms(4)] False js(1)
    by (auto simp: lane_stuck_def lane_pcs_def other_slot_occupancy)
qed

lemma stuck_cancel: "lane_stuck s l \<Longrightarrow> lane_stuck s (mudmux_execution_cancel_await slot l)"
proof -
  assume st: "lane_stuck s l"
  consider (none) "mudmux_execution_cancel_await slot l = l"
    | (req) "slot_in_range slot (l_states l)" "s_await_requested (slot_view (l_states l) slot)"
    | (pend) "slot_in_range slot (l_states l)" "\<not> s_await_requested (slot_view (l_states l) slot)"
        "s_await_pending (slot_view (l_states l) slot)"
    using cancel_none [of slot l] by blast
  then show ?thesis
  proof cases
    case pend
    then have "slot \<noteq> s" using st by (auto simp: lane_stuck_def)
    then show ?thesis using st pend
      by (simp add: cancel_pending lane_stuck_def lane_pcs_def owns_lane_def slot_view_put)
  qed (use st in \<open>auto simp: cancel_requested lane_stuck_def lane_pcs_def slot_view_put clear_slot_await_def\<close>)
qed

lemma stuck_step:
  "lane_step l l' \<Longrightarrow> lanes_inv l \<Longrightarrow> lane_stuck s l \<Longrightarrow> l_states l' = [] \<or> lane_stuck s l'"
proof (induction rule: lane_step.induct)
  case (lane_run l ps p qs ok p' l')
  then show ?case using stuck_thread_step by blast
next
  case (lane_enqueue l gen e allow_pending queue_slot)
  obtain l' where l': "snd (mudmux_execution_enqueue gen e allow_pending queue_slot l) = l'" by blast
  then show ?case
  proof (cases rule: enqueue_effect)
    case (submit s' t sts)
    then have "s' \<noteq> s" using lane_enqueue by (auto simp: lane_stuck_def)
    then show ?thesis using submit l' lane_enqueue by (simp add: lane_stuck_def lane_pcs_def owns_lane_def)
  qed (use l' lane_enqueue in \<open>auto simp: lane_stuck_def lane_pcs_def\<close>)
next
  case (lane_await p l loc gen work resume r work' resume' l')
  from await_effect [OF lane_await.hyps(4)] lane_await.prems show ?case
    by (auto simp: lane_stuck_def split: if_splits)
qed (auto simp: stuck_cancel, auto simp: lane_stuck_def lane_pcs_def)

text \<open>
  Once a hook of a slot throws, the slot reports itself busy for as long as the workers are not stopped.
\<close>

lemma throwing_hook_blocks_slot:
  assumes "lanes_inv l" "lane_stuck s l" "lane_step\<^sup>*\<^sup>* l l'"
    and "\<And>k. lane_step\<^sup>*\<^sup>* l k \<Longrightarrow> l_states k \<noteq> []"
  shows "mudmux_execution_slot_busy s (l_states l')"
proof -
  have "lane_step\<^sup>*\<^sup>* l l' \<Longrightarrow> lanes_inv l' \<and> lane_stuck s l'"
  proof (induction rule: rtranclp_induct)
    case (step k k')
    then show ?case using stuck_step [of k k' s] lane_step_inv [of k k'] assms(4) [of k']
      by (meson rtranclp.rtrancl_into_rtrancl)
  qed (use assms in simp)
  then show ?thesis using assms(3) active_slot_busy by (simp add: lane_stuck_def)
qed

text \<open>
  Cancelling a pending await releases the lane although the work of that await may still be running
  on a worker: the slot no longer reports itself busy.
\<close>

lemma cancel_releases_running_work:
  assumes "slot_in_range s (l_states l)"
    and "s_await_pending (slot_view (l_states l) s)" "\<not> s_await_requested (slot_view (l_states l) s)"
    and "s_pending (slot_view (l_states l) s) = []" "l_threads l = [Work_start s g w]"
  shows "let l1 = mudmux_execution_cancel_await s l; (p, l2) = lane_thread_step ok (Slot_finish s) l1
    in p = None \<and> l_threads l1 = [Work_start s g w, Slot_finish s] \<and>
       \<not> mudmux_execution_slot_busy s (l_states l2)"
proof -
  have "slot_in_range s (put_slot s v sts) = slot_in_range s sts" for v sts
    by (simp add: slot_in_range_def put_slot_def)
  then show ?thesis using assms
    by (simp add: cancel_pending Let_def finish_slot_execution_begin_def finish_section_def slot_view_put
        lane_wakeup_def mudmux_execution_slot_busy_def)
qed

end
