(* ===== verification/Event_Lane.thy ===== *)
theory Event_Lane
  imports Hooks
begin

text \<open>
  The event scheduler of \<^verbatim>\<open>src/execution.cpp\<close>: direct event callbacks run one after the other on the
  workers, except timely events, which run independently but at most once at a time per registration.
  \<^verbatim>\<open>event_in_flight\<close> counts the accepted executions of each registration.

  As for the slot lanes, every critical section under \<^verbatim>\<open>event_mutex\<close> is one step of a thread, and
  \<open>v_jobs\<close> with \<open>v_accepting\<close> is the worker pool. \<open>v_admitted\<close> and \<open>v_taken\<close> record the serialized events
  in the order of their admission and of their start.
\<close>

section \<open>State and helpers\<close>

record events =
  v_running :: bool
  v_strict :: bool
  v_pending :: "mudmux_execution list"
  v_active :: bool
  v_in_flight :: "nat \<Rightarrow> nat"
  v_jobs :: "(mudmux_execution \<times> bool) list"
  v_accepting :: bool
  v_wakeups :: nat

definition release_event_registration_locked :: "nat option \<Rightarrow> (nat \<Rightarrow> nat) \<Rightarrow> nat \<Rightarrow> nat" where
  "release_event_registration_locked registration in_flight =
     (case registration of
        None \<Rightarrow> in_flight
      | Some r \<Rightarrow> in_flight(r := in_flight r - 1))"

definition discard_pending_events_locked :: "events \<Rightarrow> events" where
  "discard_pending_events_locked v =
     v\<lparr>v_in_flight := fold (\<lambda>e. release_event_registration_locked (e_registration e)) (v_pending v) (v_in_flight v),
       v_pending := []\<rparr>"

text \<open>The destructor of \<^verbatim>\<open>event_registration_scope_t\<close>: release, then wake the event loop.\<close>

definition release_registration_scope :: "nat option \<Rightarrow> events \<Rightarrow> events" where
  "release_registration_scope registration v =
     (if registration = None then v
      else v\<lparr>v_in_flight := release_event_registration_locked registration (v_in_flight v),
             v_wakeups := v_wakeups v + 1\<rparr>)"

definition mudmux_execution_event_busy :: "nat option \<Rightarrow> events \<Rightarrow> bool" where
  "mudmux_execution_event_busy registration v =
     (case registration of None \<Rightarrow> False | Some r \<Rightarrow> v_in_flight v r \<noteq> 0)"

section \<open>Threads\<close>

datatype event_pc =
    Event_run mudmux_execution bool
  | Event_release mudmux_execution bool
  | Event_finish
  | Event_next mudmux_execution
  | Event_drop mudmux_execution
  | Dispatch_inline mudmux_execution
  | Dispatch_enqueue mudmux_execution bool
  | Dispatch_submit mudmux_execution bool
  | Dispatch_discard mudmux_execution
  | Dispatch_release mudmux_execution

definition event_submit :: "mudmux_execution \<Rightarrow> bool \<Rightarrow> events \<Rightarrow> bool \<times> events" where
  "event_submit e timely v =
     (if v_accepting v then (True, v\<lparr>v_jobs := v_jobs v @ [(e, timely)]\<rparr>) else (False, v))"

definition run_event_execution_end ::
  "mudmux_execution \<Rightarrow> bool \<Rightarrow> events \<Rightarrow> event_pc option \<times> events" where
  "run_event_execution_end e timely v =
     (if timely then None else Some Event_finish, release_registration_scope (e_registration e) v)"

definition finish_event_execution :: "events \<Rightarrow> event_pc option \<times> events" where
  "finish_event_execution v =
     (case v_pending v of
        e # es \<Rightarrow> (Some (Event_next e), v\<lparr>v_pending := es\<rparr>)
      | [] \<Rightarrow> (None, v\<lparr>v_active := False\<rparr>))"

definition finish_event_failed :: "mudmux_execution \<Rightarrow> events \<Rightarrow> event_pc option \<times> events" where
  "finish_event_failed e v =
     (None, (discard_pending_events_locked
               (v\<lparr>v_in_flight := release_event_registration_locked (e_registration e) (v_in_flight v)\<rparr>))
            \<lparr>v_active := False\<rparr>)"

definition enqueue_event_execution ::
  "mudmux_execution \<Rightarrow> bool \<Rightarrow> events \<Rightarrow> event_pc option \<times> events" where
  "enqueue_event_execution e timely v =
     (if \<not> v_running v then (Some (Dispatch_release e), v)
      else if timely then (Some (Dispatch_submit e True), v)
      else if v_active v then (None, v\<lparr>v_pending := v_pending v @ [e]\<rparr>)
      else (Some (Dispatch_submit e False), v\<lparr>v_active := True\<rparr>))"

definition enqueue_event_failed :: "mudmux_execution \<Rightarrow> events \<Rightarrow> event_pc option \<times> events" where
  "enqueue_event_failed e v =
     (Some (Dispatch_release e), (discard_pending_events_locked v)\<lparr>v_active := False\<rparr>)"

fun event_thread_step :: "event_pc \<Rightarrow> events \<Rightarrow> event_pc option \<times> events" where
  "event_thread_step (Event_run e timely) v = (Some (Event_release e timely), v)"
| "event_thread_step (Event_release e timely) v = run_event_execution_end e timely v"
| "event_thread_step Event_finish v = finish_event_execution v"
| "event_thread_step (Event_next e) v =
     (case event_submit e False v of (ok, v') \<Rightarrow> (if ok then None else Some (Event_drop e), v'))"
| "event_thread_step (Event_drop e) v = finish_event_failed e v"
| "event_thread_step (Dispatch_inline e) v = (Some (Dispatch_release e), v)"
| "event_thread_step (Dispatch_enqueue e timely) v = enqueue_event_execution e timely v"
| "event_thread_step (Dispatch_submit e timely) v =
     (case event_submit e timely v of
        (ok, v') \<Rightarrow> (if ok then None
                     else if timely then Some (Dispatch_release e) else Some (Dispatch_discard e), v'))"
| "event_thread_step (Dispatch_discard e) v = enqueue_event_failed e v"
| "event_thread_step (Dispatch_release e) v = (None, release_registration_scope (e_registration e) v)"

text \<open>
  The part of \<^verbatim>\<open>mudmux_execution_dispatch\<close> for direct callbacks up to its branch on the execution mode:
  \<open>Inl\<close> is an immediate result, \<open>Inr\<close> where the call continues.
\<close>

definition dispatch_event_admit ::
  "mudmux_execution \<Rightarrow> bool \<Rightarrow> events \<Rightarrow> (mudmux_dispatch_result + event_pc) \<times> events" where
  "dispatch_event_admit e timely v =
     (if timely \<and> (is_registered_hook e \<or> \<not> v_running v) then (Inl MUDMUX_DISPATCH_ERROR, v)
      else if timely \<and> e_registration e = None then (Inl MUDMUX_DISPATCH_ERROR, v)
      else if timely \<and> mudmux_execution_event_busy (e_registration e) v then (Inl MUDMUX_DISPATCH_QUEUE_FULL, v)
      else (Inr (if v_strict v then Dispatch_inline e else Dispatch_enqueue e timely),
            case e_registration e of
              None \<Rightarrow> v
            | Some r \<Rightarrow> v\<lparr>v_in_flight := (v_in_flight v)(r := v_in_flight v r + 1)\<rparr>))"

definition workers_stop_events :: "events \<Rightarrow> events" where
  "workers_stop_events v = (discard_pending_events_locked v)\<lparr>v_active := False\<rparr>"

section \<open>The transition system\<close>

record event_system =
  es_events :: events
  es_threads :: "event_pc list"
  es_admitted :: "mudmux_execution list"
  es_taken :: "mudmux_execution list"

text \<open>Whether a step admits a serialized event, and whether it starts one.\<close>

fun admits :: "event_pc \<Rightarrow> events \<Rightarrow> mudmux_execution list" where
  "admits (Dispatch_enqueue e timely) v = (if v_running v \<and> \<not> timely then [e] else [])"
| "admits _ v = []"

text \<open>
  \<open>T\<close> is the set of registrations that are only ever dispatched as timely events.
\<close>

inductive event_step :: "nat set \<Rightarrow> event_system \<Rightarrow> event_system \<Rightarrow> bool" for T :: "nat set" where
  event_pick: "v_jobs (es_events x) = (e, timely) # js \<Longrightarrow>
    event_step T x (x\<lparr>es_events := (es_events x)\<lparr>v_jobs := js\<rparr>, es_threads := es_threads x @ [Event_run e timely],
                      es_taken := es_taken x @ (if timely then [] else [e])\<rparr>)"
| event_run: "es_threads x = ps @ p # qs \<Longrightarrow> event_thread_step p (es_events x) = (p', v') \<Longrightarrow>
    event_step T x (x\<lparr>es_events := v', es_threads := ps @ opt_list id p' @ qs,
                      es_admitted := es_admitted x @ admits p (es_events x)\<rparr>)"
| event_dispatch: "\<not> is_registered_hook e \<Longrightarrow> dispatch_event_admit e timely (es_events x) = (r, v') \<Longrightarrow>
    (\<And>reg. e_registration e = Some reg \<Longrightarrow> reg \<in> T \<Longrightarrow> timely) \<Longrightarrow>
    event_step T x (x\<lparr>es_events := v', es_threads := es_threads x @ (case r of Inl _ \<Rightarrow> [] | Inr p \<Rightarrow> [p])\<rparr>)"
| event_stop: "event_step T x (x\<lparr>es_events := (es_events x)\<lparr>v_running := False, v_accepting := False\<rparr>\<rparr>)"
| event_stopped: "\<not> v_accepting (es_events x) \<Longrightarrow> v_jobs (es_events x) = [] \<Longrightarrow> es_threads x = [] \<Longrightarrow>
    event_step T x (x\<lparr>es_events := workers_stop_events (es_events x), es_admitted := [], es_taken := []\<rparr>)"
| event_start: "v_jobs (es_events x) = [] \<Longrightarrow> es_threads x = [] \<Longrightarrow> v_pending (es_events x) = [] \<Longrightarrow>
    \<not> v_active (es_events x) \<Longrightarrow>
    event_step T x (x\<lparr>es_events := (es_events x)\<lparr>v_running := True, v_accepting := True, v_strict := strict\<rparr>,
                      es_admitted := [], es_taken := []\<rparr>)"

definition event_init :: "event_system \<Rightarrow> bool" where
  "event_init x \<longleftrightarrow> v_jobs (es_events x) = [] \<and> es_threads x = [] \<and> v_pending (es_events x) = [] \<and>
     \<not> v_active (es_events x) \<and> v_in_flight (es_events x) = (\<lambda>_. 0) \<and>
     es_admitted x = [] \<and> es_taken x = []"

section \<open>Who holds what\<close>

fun pc_registration :: "event_pc \<Rightarrow> nat option" where
  "pc_registration (Event_run e timely) = e_registration e"
| "pc_registration (Event_release e timely) = e_registration e"
| "pc_registration Event_finish = None"
| "pc_registration (Event_next e) = e_registration e"
| "pc_registration (Event_drop e) = e_registration e"
| "pc_registration (Dispatch_inline e) = e_registration e"
| "pc_registration (Dispatch_enqueue e timely) = e_registration e"
| "pc_registration (Dispatch_submit e timely) = e_registration e"
| "pc_registration (Dispatch_discard e) = e_registration e"
| "pc_registration (Dispatch_release e) = e_registration e"

text \<open>Threads that own the serialized event lane.\<close>

fun serial_pc :: "event_pc \<Rightarrow> bool" where
  "serial_pc (Event_run e timely) = (\<not> timely)"
| "serial_pc (Event_release e timely) = (\<not> timely)"
| "serial_pc Event_finish = True"
| "serial_pc (Event_next e) = True"
| "serial_pc (Event_drop e) = True"
| "serial_pc (Dispatch_submit e timely) = (\<not> timely)"
| "serial_pc (Dispatch_discard e) = True"
| "serial_pc _ = False"

fun event_waiting :: "event_pc \<Rightarrow> mudmux_execution list" where
  "event_waiting (Event_next e) = [e]"
| "event_waiting (Dispatch_submit e timely) = (if timely then [] else [e])"
| "event_waiting _ = []"

fun dropping_pc :: "event_pc \<Rightarrow> bool" where
  "dropping_pc (Event_drop e) = True"
| "dropping_pc (Dispatch_discard e) = True"
| "dropping_pc _ = False"

definition job_pcs :: "events \<Rightarrow> event_pc list" where
  "job_pcs v = map (\<lambda>(e, timely). Dispatch_submit e timely) (v_jobs v)"

definition count_if :: "('a \<Rightarrow> bool) \<Rightarrow> 'a list \<Rightarrow> nat" where
  "count_if P xs = length (filter P xs)"

lemma count_if_simps [simp]:
  "count_if P [] = 0" "count_if P (xs @ ys) = count_if P xs + count_if P ys"
  "count_if P (x # xs) = of_bool (P x) + count_if P xs"
  by (simp_all add: count_if_def)

lemma count_if_zero: "count_if P xs = 0 \<longleftrightarrow> (\<forall>x \<in> set xs. \<not> P x)"
  by (simp add: count_if_def filter_empty_conv)

definition waiting_events :: "event_pc list \<Rightarrow> mudmux_execution list" where
  "waiting_events ps = concat (map event_waiting ps)"

lemma waiting_events_simps [simp]:
  "waiting_events [] = []" "waiting_events (ps @ qs) = waiting_events ps @ waiting_events qs"
  "waiting_events (p # ps) = event_waiting p @ waiting_events ps"
  by (simp_all add: waiting_events_def)

lemma no_serial_no_waiting: "count_if serial_pc ps = 0 \<Longrightarrow> waiting_events ps = []"
proof (induction ps)
  case (Cons p ps)
  then show ?case by (cases p) auto
qed simp

section \<open>The invariant\<close>

text \<open>
  \<open>ps\<close> are the jobs of the pool and the threads together. The lane has at most one owner, and only
  while it is active; every count in \<open>event_in_flight\<close> is the number of holders of the registration;
  serialized events start in the order of their admission.
\<close>

definition event_inv ::
  "nat set \<Rightarrow> mudmux_execution list \<Rightarrow> mudmux_execution list \<Rightarrow> events \<Rightarrow> event_pc list \<Rightarrow> bool" where
  "event_inv T admitted taken v ps \<longleftrightarrow>
     count_if serial_pc ps \<le> (if v_active v then 1 else 0) \<and>
     (\<forall>r. v_in_flight v r = count_if (\<lambda>p. pc_registration p = Some r) ps +
            count_if (\<lambda>e. e_registration e = Some r) (v_pending v)) \<and>
     (\<forall>r \<in> T. v_in_flight v r \<le> 1) \<and>
     (v_pending v \<noteq> [] \<longrightarrow> v_active v) \<and>
     subseq (taken @ waiting_events ps @ v_pending v) admitted \<and>
     (v_accepting v \<longrightarrow> taken @ waiting_events ps @ v_pending v = admitted \<and> count_if dropping_pc ps = 0)"

lemma fold_release:
  "fold (\<lambda>e. release_event_registration_locked (e_registration e)) es f r =
     f r - count_if (\<lambda>e. e_registration e = Some r) es"
  by (induction es arbitrary: f) (auto simp: release_event_registration_locked_def split: option.splits)

lemma release_count:
  "release_event_registration_locked reg f r = f r - of_bool (reg = Some r)"
  by (auto simp: release_event_registration_locked_def split: option.splits)

lemma in_flight_release_scope [simp]:
  "v_in_flight (release_registration_scope reg v) r = v_in_flight v r - of_bool (reg = Some r)"
  by (simp add: release_registration_scope_def release_count)

lemma release_scope_frame [simp]:
  "v_pending (release_registration_scope reg v) = v_pending v"
  "v_active (release_registration_scope reg v) = v_active v"
  "v_accepting (release_registration_scope reg v) = v_accepting v"
  "v_jobs (release_registration_scope reg v) = v_jobs v"
  by (simp_all add: release_registration_scope_def)

lemma discard_pending_fields [simp]:
  "v_in_flight (discard_pending_events_locked v) r =
     v_in_flight v r - count_if (\<lambda>e. e_registration e = Some r) (v_pending v)"
  "v_pending (discard_pending_events_locked v) = []"
  "v_active (discard_pending_events_locked v) = v_active v"
  "v_accepting (discard_pending_events_locked v) = v_accepting v"
  "v_jobs (discard_pending_events_locked v) = v_jobs v"
  by (simp_all add: discard_pending_events_locked_def fold_release)

lemma event_inv_single:
  assumes "event_inv T adm tk v (ps @ p # qs)" "serial_pc p"
  shows "count_if serial_pc ps = 0" "count_if serial_pc qs = 0" "v_active v"
    "waiting_events ps = []" "waiting_events qs = []"
  using assms no_serial_no_waiting by (auto simp: event_inv_def split: if_splits)

section \<open>Preservation\<close>

lemma job_pcs_simps [simp]:
  "job_pcs (v\<lparr>v_active := a\<rparr>) = job_pcs v" "job_pcs (v\<lparr>v_pending := es\<rparr>) = job_pcs v"
  "job_pcs (v\<lparr>v_in_flight := f\<rparr>) = job_pcs v" "job_pcs (release_registration_scope reg v) = job_pcs v"
  "job_pcs (discard_pending_events_locked v) = job_pcs v"
  "job_pcs (v\<lparr>v_jobs := v_jobs v @ [(e, timely)]\<rparr>) = job_pcs v @ [Dispatch_submit e timely]"
  by (simp_all add: job_pcs_def release_registration_scope_def discard_pending_events_locked_def)

text \<open>Moving a program counter to another one that holds the same things.\<close>

lemma event_inv_cong:
  assumes "event_inv T adm tk v ps" "waiting_events qs = waiting_events ps"
    and "count_if serial_pc qs = count_if serial_pc ps" "count_if dropping_pc qs = count_if dropping_pc ps"
    and "\<And>r. count_if (\<lambda>p. pc_registration p = Some r) qs = count_if (\<lambda>p. pc_registration p = Some r) ps"
  shows "event_inv T adm tk v qs"
  using assms(1) unfolding event_inv_def assms(2-) .

lemma event_inv_replace:
  assumes "event_inv T adm tk v (ps @ p # qs)" "pc_registration p' = pc_registration p"
    and "serial_pc p' = serial_pc p" "event_waiting p' = event_waiting p" "dropping_pc p' = dropping_pc p"
  shows "event_inv T adm tk v (ps @ p' # qs)"
  using assms(1) by (rule event_inv_cong) (use assms(2-) in auto)

lemma event_inv_jobs [simp]: "event_inv T adm tk (v\<lparr>v_jobs := js\<rparr>) ps = event_inv T adm tk v ps"
  by (simp add: event_inv_def)

lemma event_inv_submit:
  assumes "event_inv T adm tk v (js @ ps @ p # qs)" "pc_registration p' = pc_registration p"
    and "serial_pc p' = serial_pc p" "event_waiting p' = event_waiting p" "dropping_pc p' = dropping_pc p"
  shows "event_inv T adm tk v (js @ p' # ps @ qs)"
proof (rule event_inv_cong [OF assms(1)])
  show "waiting_events (js @ p' # ps @ qs) = waiting_events (js @ ps @ p # qs)"
  proof (cases "serial_pc p")
    case True
    then show ?thesis using event_inv_single [of T adm tk v "js @ ps" p qs] assms by simp
  next
    case False
    then have "event_waiting p = []" by (cases p) auto
    then show ?thesis using assms by simp
  qed
qed (use assms(2-) in auto)

lemma event_inv_release:
  assumes "event_inv T adm tk v (ps @ p # qs)" "event_waiting p = []" "\<not> dropping_pc p"
    and "p' = (if serial_pc p then [Event_finish] else [])"
  shows "event_inv T adm tk (release_registration_scope (pc_registration p) v) (ps @ p' @ qs)"
  using assms by (auto simp: event_inv_def split: if_splits)

lemma event_inv_finish:
  assumes "event_inv T adm tk v (ps @ Event_finish # qs)"
  shows "v_pending v = e # es \<Longrightarrow> event_inv T adm tk (v\<lparr>v_pending := es\<rparr>) (ps @ Event_next e # qs)"
    and "v_pending v = [] \<Longrightarrow> event_inv T adm tk (v\<lparr>v_active := False\<rparr>) (ps @ qs)"
  using event_inv_single [OF assms] assms by (auto simp: event_inv_def)

lemma event_inv_enqueue:
  assumes "event_inv T adm tk v (ps @ Dispatch_enqueue e False # qs)"
  shows "v_active v \<Longrightarrow> event_inv T (adm @ [e]) tk (v\<lparr>v_pending := v_pending v @ [e]\<rparr>) (ps @ qs)"
    and "\<not> v_active v \<Longrightarrow>
      event_inv T (adm @ [e]) tk (v\<lparr>v_active := True\<rparr>) (ps @ Dispatch_submit e False # qs)"
proof -
  have sub: "subseq ((tk @ waiting_events (ps @ qs) @ v_pending v) @ [e]) (adm @ [e])"
    using assms unfolding event_inv_def by (intro list_emb_append_mono) auto
  then show "v_active v \<Longrightarrow> event_inv T (adm @ [e]) tk (v\<lparr>v_pending := v_pending v @ [e]\<rparr>) (ps @ qs)"
    using assms by (auto simp: event_inv_def)
  show "event_inv T (adm @ [e]) tk (v\<lparr>v_active := True\<rparr>) (ps @ Dispatch_submit e False # qs)" if "\<not> v_active v"
  proof -
    have z: "v_pending v = []" "count_if serial_pc ps = 0" "count_if serial_pc qs = 0"
      using assms that by (auto simp: event_inv_def)
    then have "waiting_events ps = []" "waiting_events qs = []" using no_serial_no_waiting by auto
    then show ?thesis using assms sub z by (auto simp: event_inv_def)
  qed
qed

lemma event_inv_fail:
  assumes "event_inv T adm tk v (ps @ p # qs)" "serial_pc p" "\<not> v_accepting v"
    and "pc_registration p' = pc_registration p" "serial_pc p'" "event_waiting p' = []"
  shows "event_inv T adm tk v (ps @ p' # qs)"
  using assms event_inv_single [OF assms(1,2)]
  by (auto simp: event_inv_def intro: subseq_drop_middle)

lemma event_inv_discard:
  assumes "event_inv T adm tk v (ps @ Dispatch_discard e # qs)"
  shows "event_inv T adm tk ((discard_pending_events_locked v)\<lparr>v_active := False\<rparr>) (ps @ Dispatch_release e # qs)"
  using assms event_inv_single [OF assms] by (auto simp: event_inv_def intro: subseq_drop_end)

lemma event_inv_drop:
  assumes "event_inv T adm tk v (ps @ Event_drop e # qs)"
  shows "event_inv T adm tk
    ((discard_pending_events_locked
        (v\<lparr>v_in_flight := release_event_registration_locked (e_registration e) (v_in_flight v)\<rparr>))\<lparr>v_active := False\<rparr>)
    (ps @ qs)"
  using assms event_inv_single [OF assms]
  by (auto simp: event_inv_def release_count intro: subseq_drop_end)

lemma event_thread_inv:
  assumes inv: "event_inv T adm tk v (job_pcs v @ ps @ p # qs)" and stp: "event_thread_step p v = (p', v')"
  shows "event_inv T (adm @ admits p v) tk v' (job_pcs v' @ ps @ opt_list id p' @ qs)"
proof -
  note i = inv [unfolded append_assoc [symmetric]]
  show ?thesis
  proof (cases p)
    case (Event_release e timely)
    then show ?thesis using stp event_inv_release [OF i] by (auto simp: run_event_execution_end_def)
  next
    case Event_finish
    then show ?thesis using stp event_inv_finish [OF i [unfolded Event_finish]]
      by (auto simp: finish_event_execution_def split: list.splits)
  next
    case (Event_next e)
    then show ?thesis using stp event_inv_submit [OF inv, of "Dispatch_submit e False"] event_inv_fail [OF i]
      by (auto simp: event_submit_def split: if_splits)
  next
    case (Event_drop e)
    then show ?thesis using stp event_inv_drop [OF i [unfolded Event_drop]] by (auto simp: finish_event_failed_def)
  next
    case (Dispatch_enqueue e timely)
    then show ?thesis using stp event_inv_replace [OF i]
        event_inv_enqueue [where ps = "job_pcs v @ ps" and v = v and e = e and qs = qs] i
      by (cases timely) (auto simp: enqueue_event_execution_def split: if_splits)
  next
    case (Dispatch_submit e timely)
    then show ?thesis
      using stp event_inv_submit [OF inv, of "Dispatch_submit e timely"] event_inv_fail [OF i, of "Dispatch_discard e"]
        event_inv_replace [OF i, of "Dispatch_release e"]
      by (auto simp: event_submit_def split: if_splits)
  next
    case (Dispatch_discard e)
    then show ?thesis using stp event_inv_discard [OF i [unfolded Dispatch_discard]]
      by (auto simp: enqueue_event_failed_def)
  next
    case (Dispatch_release e)
    then show ?thesis using stp event_inv_release [OF i, of "[]"] by auto
  qed (use stp event_inv_replace [OF i] in auto)
qed

definition event_pcs :: "event_system \<Rightarrow> event_pc list" where
  "event_pcs x = job_pcs (es_events x) @ es_threads x"

definition events_inv :: "nat set \<Rightarrow> event_system \<Rightarrow> bool" where
  "events_inv T x \<longleftrightarrow> event_inv T (es_admitted x) (es_taken x) (es_events x) (event_pcs x)"

lemma event_inv_pick:
  assumes "event_inv T adm tk v (Dispatch_submit e timely # js @ ps)"
  shows "event_inv T adm (tk @ (if timely then [] else [e])) v (js @ ps @ [Event_run e timely])"
proof (cases timely)
  case True
  have "event_inv T adm tk v (js @ ps @ [Event_run e timely])"
    using assms by (rule event_inv_cong) (use True in auto)
  then show ?thesis using True by simp
next
  case False
  then have i: "event_inv T adm tk v ([] @ Dispatch_submit e False # js @ ps)" using assms by simp
  have "serial_pc (Dispatch_submit e False)" by simp
  from event_inv_single [OF i this] i False show ?thesis by (auto simp: event_inv_def)
qed

lemma event_inv_admit:
  assumes "event_inv T adm tk v ps" "dispatch_event_admit e timely v = (r, v')"
    and "\<And>reg. e_registration e = Some reg \<Longrightarrow> reg \<in> T \<Longrightarrow> timely"
  shows "event_inv T adm tk v' (ps @ (case r of Inl _ \<Rightarrow> [] | Inr p \<Rightarrow> [p])) \<and> job_pcs v' = job_pcs v"
proof (cases "e_registration e")
  case None
  then show ?thesis using assms(1,2)
    by (auto simp: dispatch_event_admit_def event_inv_def split: if_splits)
next
  case (Some reg)
  have "v_in_flight v reg = 0" if "reg \<in> T" "r = Inr p" for p
    using assms(2,3) that Some
    by (auto simp: dispatch_event_admit_def mudmux_execution_event_busy_def split: if_splits)
  moreover have "r = Inr p \<Longrightarrow> v' = v\<lparr>v_in_flight := (v_in_flight v)(reg := v_in_flight v reg + 1)\<rparr> \<and>
      pc_registration p = Some reg \<and> \<not> serial_pc p \<and> event_waiting p = [] \<and> \<not> dropping_pc p" for p
    using assms(2) Some by (auto simp: dispatch_event_admit_def split: if_splits)
  moreover have "r = Inl q \<Longrightarrow> v' = v" for q
    using assms(2) by (auto simp: dispatch_event_admit_def split: if_splits)
  ultimately show ?thesis using assms(1) by (cases r) (auto simp: event_inv_def job_pcs_def)
qed

lemma event_inv_accepting_off:
  "event_inv T adm tk v ps \<Longrightarrow> event_inv T adm tk (v\<lparr>v_running := False, v_accepting := False\<rparr>) ps"
  by (auto simp: event_inv_def)

lemma event_step_inv: "event_step T x y \<Longrightarrow> events_inv T x \<Longrightarrow> events_inv T y"
proof (induction rule: event_step.induct)
  case (event_pick x e timely js)
  then show ?case using event_inv_pick [of T "es_admitted x" "es_taken x" "es_events x" e timely]
    by (simp add: events_inv_def event_pcs_def job_pcs_def)
next
  case (event_run x ps p qs p' v')
  then show ?case using event_thread_inv [of T "es_admitted x" "es_taken x" "es_events x" ps p qs p' v']
    by (simp add: events_inv_def event_pcs_def)
next
  case (event_dispatch e timely x r v')
  from event_inv_admit [OF _ event_dispatch.hyps(2,3)] event_dispatch.prems show ?case
    by (fastforce simp: events_inv_def event_pcs_def)
next
  case (event_stop x)
  then show ?case using event_inv_accepting_off by (simp add: events_inv_def event_pcs_def job_pcs_def)
next
  case (event_stopped x)
  then show ?case
    by (auto simp: events_inv_def event_pcs_def job_pcs_def workers_stop_events_def event_inv_def)
next
  case (event_start x strict)
  then show ?case by (auto simp: events_inv_def event_pcs_def job_pcs_def event_inv_def)
qed

lemma event_init_inv: "event_init x \<Longrightarrow> events_inv T x"
  by (simp add: event_init_def events_inv_def event_inv_def event_pcs_def job_pcs_def)

interpretation event_sys: inductive_invariant event_init "event_step T" "events_inv T" for T
  by unfold_locales (blast intro: event_init_inv event_step_inv)+

section \<open>Properties\<close>

text \<open>
  C29. Ordinary event callbacks are serialized: under every interleaving at most one of them is between
  its acceptance by the pool and the end of its completion, and they start in the order in which they
  were admitted, none lost while the pool accepts work.
\<close>
theorem events_serialized:
  assumes "reachable event_init (event_step T) x"
  shows "length (filter serial_pc (event_pcs x)) \<le> 1 \<and> subseq (es_taken x) (es_admitted x) \<and>
    (v_accepting (es_events x) \<longrightarrow> (\<exists>w. length w \<le> 1 \<and>
       es_admitted x = es_taken x @ w @ v_pending (es_events x)))"
proof -
  have i: "event_inv T (es_admitted x) (es_taken x) (es_events x) (event_pcs x)"
    using event_sys.reachable_inv [OF assms] by (simp add: events_inv_def)
  have "length (waiting_events ps) \<le> count_if serial_pc ps" for ps
  proof (induction ps)
    case (Cons p ps)
    then show ?case by (cases p) auto
  qed simp
  also have "count_if serial_pc (event_pcs x) \<le> 1" using i by (auto simp: event_inv_def split: if_splits)
  finally show ?thesis using i
    by (auto simp: event_inv_def count_if_def intro: subseq_drop_end split: if_splits)
qed

text \<open>
  C30. The in-flight table is exact: the count of a registration is the number of its executions that
  are accepted and not finished, in the queue, in the pool or on a thread. So a registration reports
  itself busy exactly while it has accepted work, no failure path leaks or double-releases it, and a
  registration that is only dispatched as a timely event never has two executions at once.
\<close>
theorem event_in_flight_exact:
  assumes "reachable event_init (event_step T) x"
  shows "(mudmux_execution_event_busy (Some r) (es_events x) \<longleftrightarrow>
      list_ex (\<lambda>p. pc_registration p = Some r) (event_pcs x) \<or>
      list_ex (\<lambda>e. e_registration e = Some r) (v_pending (es_events x))) \<and>
    v_in_flight (es_events x) r =
      length (filter (\<lambda>p. pc_registration p = Some r) (event_pcs x)) +
      length (filter (\<lambda>e. e_registration e = Some r) (v_pending (es_events x))) \<and>
    (r \<in> T \<longrightarrow> v_in_flight (es_events x) r \<le> 1)"
proof -
  have i: "event_inv T (es_admitted x) (es_taken x) (es_events x) (event_pcs x)"
    using event_sys.reachable_inv [OF assms] by (simp add: events_inv_def)
  then have f: "v_in_flight (es_events x) r =
      length (filter (\<lambda>p. pc_registration p = Some r) (event_pcs x)) +
      length (filter (\<lambda>e. e_registration e = Some r) (v_pending (es_events x)))"
    unfolding event_inv_def count_if_def by blast
  moreover have "r \<in> T \<longrightarrow> v_in_flight (es_events x) r \<le> 1" using i by (auto simp: event_inv_def)
  ultimately show ?thesis
    by (auto simp: mudmux_execution_event_busy_def list_ex_iff filter_empty_conv)
qed

text \<open>A timely event and two ordinary ones are dispatched; one of the latter has been handed on.\<close>

definition sample_event :: "nat \<Rightarrow> mudmux_execution" where
  "sample_event r = \<lparr>e_target = Inr r, e_msg = -1, e_current_slot = -1, e_registration = Some r,
     e_payload = [], e_completion = None\<rparr>"

definition sample_event_start :: event_system where
  "sample_event_start = \<lparr>es_events = \<lparr>v_running = True, v_strict = False, v_pending = [], v_active = False,
     v_in_flight = (\<lambda>_. 0), v_jobs = [], v_accepting = True, v_wakeups = 0\<rparr>,
     es_threads = [], es_admitted = [], es_taken = []\<rparr>"

definition sample_events :: event_system where
  "sample_events = sample_event_start\<lparr>es_events := (es_events sample_event_start)\<lparr>
     v_active := True, v_in_flight := (\<lambda>_. 0)(1 := 1, 2 := 1)\<rparr>,
     es_threads := [Dispatch_enqueue (sample_event 1) True, Dispatch_submit (sample_event 2) False],
     es_admitted := [sample_event 2]\<rparr>"

lemma sample_events_reachable: "reachable event_init (event_step {1}) sample_events"
proof -
  define x1 where "x1 = sample_event_start\<lparr>es_events := (es_events sample_event_start)\<lparr>
     v_in_flight := (\<lambda>_. 0)(1 := 1)\<rparr>, es_threads := [Dispatch_enqueue (sample_event 1) True]\<rparr>"
  define x2 where "x2 = x1\<lparr>es_events := (es_events x1)\<lparr>v_in_flight := (\<lambda>_. 0)(1 := 1, 2 := 1)\<rparr>,
     es_threads := [Dispatch_enqueue (sample_event 1) True, Dispatch_enqueue (sample_event 2) False]\<rparr>"
  have "reachable event_init (event_step {1}) sample_event_start"
    by (rule reachable_init) (simp add: event_init_def sample_event_start_def)
  moreover have "event_step {1} sample_event_start x1"
    using event_dispatch [of "sample_event 1" True sample_event_start
        "Inr (Dispatch_enqueue (sample_event 1) True)" "es_events x1" "{1}"]
    by (simp add: x1_def sample_event_start_def sample_event_def is_registered_hook_def
        dispatch_event_admit_def mudmux_execution_event_busy_def)
  moreover have "event_step {1} x1 x2"
    using event_dispatch [of "sample_event 2" False x1
        "Inr (Dispatch_enqueue (sample_event 2) False)" "es_events x2" "{1}"]
    by (simp add: x1_def x2_def sample_event_start_def sample_event_def is_registered_hook_def
        dispatch_event_admit_def mudmux_execution_event_busy_def)
  moreover have "event_step {1} x2 sample_events"
    using event_run [of x2 "[Dispatch_enqueue (sample_event 1) True]" "Dispatch_enqueue (sample_event 2) False"
        "[]" "Some (Dispatch_submit (sample_event 2) False)" "es_events sample_events" "{1}"]
    by (simp add: x1_def x2_def sample_events_def sample_event_start_def enqueue_event_execution_def)
  ultimately show ?thesis by (blast intro: reachable_step)
qed

theorem events_serialized_witness:
  "length (filter serial_pc (event_pcs sample_events)) \<le> 1 \<and>
   (\<exists>w. length w \<le> 1 \<and> es_admitted sample_events = es_taken sample_events @ w @ v_pending (es_events sample_events)) \<and>
   es_admitted sample_events = [sample_event 2]"
  using events_serialized [OF sample_events_reachable]
  by (auto simp: sample_events_def sample_event_start_def)

theorem event_in_flight_exact_witness:
  "mudmux_execution_event_busy (Some 1) (es_events sample_events) \<and>
   v_in_flight (es_events sample_events) 1 \<le> 1 \<and> \<not> mudmux_execution_event_busy (Some 3) (es_events sample_events)"
  using event_in_flight_exact [OF sample_events_reachable, of 1]
    event_in_flight_exact [OF sample_events_reachable, of 3]
  by (simp add: sample_events_def sample_event_start_def event_pcs_def job_pcs_def sample_event_def)

end
