(* ===== verification/Detached_Work.thy ===== *)
theory Detached_Work
  imports Slot_Lane "HOL-Library.Multiset"
begin

text \<open>
  Detached work of \<^verbatim>\<open>src/execution.cpp\<close>: \<^verbatim>\<open>mudmux_workers_submit\<close> hands a work closure and a completion
  closure to the pool. The work runs on any worker; completions run one at a time, in the order in
  which their works finished. When the pool no longer accepts jobs the runner of the completion lane
  continues inline.

  \<open>d_accepted\<close>, \<open>d_scheduled\<close> and \<open>d_delivered\<close> are history: the completions taken over from callers, those
  whose work has finished, and those that have been invoked.
\<close>

section \<open>State and steps\<close>

record detached_completion =
  k_closure :: async_closure
  k_message :: int

record detached_work =
  k_work :: async_closure
  k_completion :: async_closure

datatype detached_job = Run_work detached_work | Run_completion detached_completion

datatype detached_pc =
    Work_invoke detached_work
  | Completion_schedule detached_completion
  | Completion_submit detached_completion
  | Completion_invoke detached_completion
  | Completion_next

record detached =
  d_running :: bool
  d_pending :: "detached_completion list"
  d_active :: bool
  d_jobs :: "detached_job list"
  d_accepting :: bool
  d_threads :: "detached_pc list"
  d_accepted :: "async_closure list"
  d_scheduled :: "detached_completion list"
  d_delivered :: "detached_completion list"

fun detached_job_start :: "detached_job \<Rightarrow> detached_pc" where
  "detached_job_start (Run_work w) = Work_invoke w"
| "detached_job_start (Run_completion k) = Completion_invoke k"

definition detached_submit :: "detached_job \<Rightarrow> detached \<Rightarrow> bool \<times> detached" where
  "detached_submit j d =
     (if d_accepting d then (True, d\<lparr>d_jobs := d_jobs d @ [j]\<rparr>) else (False, d))"

text \<open>On success the caller's handles are cleared; otherwise they stay with the caller.\<close>

definition mudmux_workers_submit ::
  "async_closure option \<Rightarrow> async_closure option \<Rightarrow> detached \<Rightarrow>
   bool \<times> async_closure option \<times> async_closure option \<times> detached" where
  "mudmux_workers_submit work completion d =
     (case (work, completion) of
        (Some w, Some c) \<Rightarrow>
          if \<not> async_closure_is_valid work \<or> \<not> async_closure_is_valid completion \<or> \<not> d_running d
          then (False, work, completion, d)
          else (case detached_submit (Run_work \<lparr>k_work = w, k_completion = c\<rparr>) d of
                  (True, d') \<Rightarrow> (True, Some no_closure, Some no_closure, d'\<lparr>d_accepted := d_accepted d' @ [c]\<rparr>)
                | (False, d') \<Rightarrow> (False, work, completion, d'))
      | _ \<Rightarrow> (False, work, completion, d))"

definition run_detached_work :: "bool \<Rightarrow> detached_work \<Rightarrow> detached_pc" where
  "run_detached_work ok task =
     Completion_schedule \<lparr>k_closure = k_completion task,
       k_message = (if ok then ASYNC_CLOSURE_SCHEDULER_OK else ASYNC_CLOSURE_SCHEDULER_FAILED)\<rparr>"

definition schedule_detached_completion :: "detached_completion \<Rightarrow> detached \<Rightarrow> detached_pc option \<times> detached" where
  "schedule_detached_completion k d =
     (let d = d\<lparr>d_scheduled := d_scheduled d @ [k]\<rparr> in
      if d_active d then (None, d\<lparr>d_pending := d_pending d @ [k]\<rparr>)
      else (Some (Completion_submit k), d\<lparr>d_active := True\<rparr>))"

definition submit_completion :: "detached_completion \<Rightarrow> detached \<Rightarrow> detached_pc option \<times> detached" where
  "submit_completion k d =
     (case detached_submit (Run_completion k) d of
        (True, d') \<Rightarrow> (None, d')
      | (False, d') \<Rightarrow> (Some (Completion_invoke k), d'))"

definition run_detached_completion_next :: "detached \<Rightarrow> detached_pc option \<times> detached" where
  "run_detached_completion_next d =
     (case d_pending d of
        [] \<Rightarrow> (None, d\<lparr>d_active := False\<rparr>)
      | k # ks \<Rightarrow> (Some (Completion_submit k), d\<lparr>d_pending := ks\<rparr>))"

fun detached_thread_step :: "bool \<Rightarrow> detached_pc \<Rightarrow> detached \<Rightarrow> detached_pc option \<times> detached" where
  "detached_thread_step ok (Work_invoke w) d = (Some (run_detached_work ok w), d)"
| "detached_thread_step ok (Completion_schedule k) d = schedule_detached_completion k d"
| "detached_thread_step ok (Completion_submit k) d = submit_completion k d"
| "detached_thread_step ok (Completion_invoke k) d =
     (Some Completion_next, d\<lparr>d_delivered := d_delivered d @ [k]\<rparr>)"
| "detached_thread_step ok Completion_next d = run_detached_completion_next d"

text \<open>
  The last part of \<^verbatim>\<open>mudmux_workers_stop\<close>: the queued completions are destroyed without being invoked.
\<close>

definition workers_stop_completions :: "detached \<Rightarrow> async_closure list \<times> detached" where
  "workers_stop_completions d =
     (map k_closure (d_pending d), d\<lparr>d_pending := [], d_active := False\<rparr>)"

inductive detached_step :: "detached \<Rightarrow> detached \<Rightarrow> bool" where
  detached_pick: "d_jobs d = j # js \<Longrightarrow>
    detached_step d (d\<lparr>d_jobs := js, d_threads := d_threads d @ [detached_job_start j]\<rparr>)"
| detached_run: "d_threads d = ps @ p # qs \<Longrightarrow> detached_thread_step ok p d = (p', d') \<Longrightarrow>
    detached_step d (d'\<lparr>d_threads := ps @ opt_list id p' @ qs\<rparr>)"
| detached_call: "mudmux_workers_submit work completion d = (r, work', completion', d') \<Longrightarrow> detached_step d d'"
| detached_stop: "detached_step d (d\<lparr>d_running := False, d_accepting := False\<rparr>)"
| detached_start: "detached_step d (d\<lparr>d_running := True, d_accepting := True\<rparr>)"

definition detached_init :: "detached \<Rightarrow> bool" where
  "detached_init d \<longleftrightarrow> d_pending d = [] \<and> \<not> d_active d \<and> d_jobs d = [] \<and> d_threads d = [] \<and>
     d_accepted d = [] \<and> d_scheduled d = [] \<and> d_delivered d = []"

section \<open>The invariant\<close>

fun completion_owner :: "detached_pc \<Rightarrow> bool" where
  "completion_owner (Completion_submit k) = True"
| "completion_owner (Completion_invoke k) = True"
| "completion_owner Completion_next = True"
| "completion_owner _ = False"

fun completion_waiting :: "detached_pc \<Rightarrow> detached_completion list" where
  "completion_waiting (Completion_submit k) = [k]"
| "completion_waiting (Completion_invoke k) = [k]"
| "completion_waiting _ = []"

fun work_in_progress :: "detached_pc \<Rightarrow> async_closure list" where
  "work_in_progress (Work_invoke w) = [k_completion w]"
| "work_in_progress (Completion_schedule k) = [k_closure k]"
| "work_in_progress _ = []"

definition waiting_completions :: "detached_pc list \<Rightarrow> detached_completion list" where
  "waiting_completions ps = concat (map completion_waiting ps)"

definition works_in_progress :: "detached_pc list \<Rightarrow> async_closure list" where
  "works_in_progress ps = concat (map work_in_progress ps)"

lemma detached_occupancy_simps [simp]:
  "waiting_completions [] = []" "works_in_progress [] = []"
  "waiting_completions (ps @ qs) = waiting_completions ps @ waiting_completions qs"
  "works_in_progress (ps @ qs) = works_in_progress ps @ works_in_progress qs"
  "waiting_completions (p # ps) = completion_waiting p @ waiting_completions ps"
  "works_in_progress (p # ps) = work_in_progress p @ works_in_progress ps"
  by (simp_all add: waiting_completions_def works_in_progress_def)

definition detached_pcs :: "detached \<Rightarrow> detached_pc list" where
  "detached_pcs d = map detached_job_start (d_jobs d) @ d_threads d"

definition completion_inv :: "detached \<Rightarrow> detached_pc list \<Rightarrow> bool" where
  "completion_inv d ps \<longleftrightarrow>
     length (filter completion_owner ps) = (if d_active d then 1 else 0) \<and>
     (d_pending d \<noteq> [] \<longrightarrow> d_active d) \<and>
     d_scheduled d = d_delivered d @ waiting_completions ps @ d_pending d \<and>
     mset (d_accepted d) = mset (map k_closure (d_scheduled d)) + mset (works_in_progress ps)"

definition detached_inv :: "detached \<Rightarrow> bool" where
  "detached_inv d \<longleftrightarrow> completion_inv d (detached_pcs d)"

lemma completion_no_owner: "filter completion_owner ps = [] \<Longrightarrow> waiting_completions ps = []"
proof (induction ps)
  case (Cons p ps)
  then show ?case by (cases p) auto
qed simp

lemma completion_single_owner:
  assumes "completion_inv d (ps @ p # qs)" "completion_owner p"
  shows "filter completion_owner ps = []" "filter completion_owner qs = []" "d_active d"
    "waiting_completions ps = []" "waiting_completions qs = []"
proof -
  have "length (filter completion_owner ps) + length (filter completion_owner qs) = 0 \<and> d_active d"
    using assms by (auto simp: completion_inv_def split: if_splits)
  then show "filter completion_owner ps = []" "filter completion_owner qs = []" "d_active d" by auto
  then show "waiting_completions ps = []" "waiting_completions qs = []"
    by (auto simp only: completion_no_owner)
qed

lemma detached_pick_inv:
  assumes "completion_inv d (detached_job_start j # js @ ts)"
  shows "completion_inv d (js @ ts @ [detached_job_start j])"
proof (cases j)
  case (Run_work w)
  then show ?thesis using assms by (auto simp: completion_inv_def)
next
  case (Run_completion k)
  then have i: "completion_inv d ([] @ Completion_invoke k # js @ ts)" using assms by simp
  have "completion_owner (Completion_invoke k)" by simp
  from completion_single_owner [OF i this] i Run_completion show ?thesis by (auto simp: completion_inv_def)
qed

lemma completion_inv_frame [simp]:
  "completion_inv (d\<lparr>d_jobs := js\<rparr>) ps = completion_inv d ps"
  "completion_inv (d\<lparr>d_threads := ts\<rparr>) ps = completion_inv d ps"
  "completion_inv (d\<lparr>d_running := b, d_accepting := b'\<rparr>) ps = completion_inv d ps"
  by (simp_all add: completion_inv_def)

lemma completion_inv_schedule:
  assumes "completion_inv d (ps @ Completion_schedule k # qs)"
  shows "d_active d \<Longrightarrow> completion_inv
      (d\<lparr>d_scheduled := d_scheduled d @ [k], d_pending := d_pending d @ [k]\<rparr>) (ps @ qs)"
    and "\<not> d_active d \<Longrightarrow> completion_inv
      (d\<lparr>d_scheduled := d_scheduled d @ [k], d_active := True\<rparr>) (ps @ Completion_submit k # qs)"
proof -
  show "d_active d \<Longrightarrow> completion_inv
      (d\<lparr>d_scheduled := d_scheduled d @ [k], d_pending := d_pending d @ [k]\<rparr>) (ps @ qs)"
    using assms by (auto simp: completion_inv_def)
  assume a: "\<not> d_active d"
  then have "filter completion_owner ps = []" "filter completion_owner qs = []" "d_pending d = []"
    using assms by (auto simp: completion_inv_def)
  then show "completion_inv (d\<lparr>d_scheduled := d_scheduled d @ [k], d_active := True\<rparr>)
      (ps @ Completion_submit k # qs)"
    using assms a completion_no_owner by (auto simp: completion_inv_def)
qed

lemma completion_inv_submit:
  assumes "completion_inv d (js @ ps @ Completion_submit k # qs)"
  shows "completion_inv d (js @ Completion_invoke k # ps @ qs)"
proof -
  have "completion_owner (Completion_submit k)" by simp
  from completion_single_owner [OF assms [unfolded append_assoc [symmetric]] this] assms
  show ?thesis by (auto simp: completion_inv_def)
qed

lemma completion_inv_owner_step:
  assumes "completion_inv d (ps @ p # qs)" "completion_owner p"
  shows "p = Completion_submit k \<Longrightarrow> completion_inv d (ps @ Completion_invoke k # qs)"
    and "p = Completion_invoke k \<Longrightarrow>
      completion_inv (d\<lparr>d_delivered := d_delivered d @ [k]\<rparr>) (ps @ Completion_next # qs)"
    and "p = Completion_next \<Longrightarrow> d_pending d = [] \<Longrightarrow> completion_inv (d\<lparr>d_active := False\<rparr>) (ps @ qs)"
    and "p = Completion_next \<Longrightarrow> d_pending d = k # ks \<Longrightarrow>
      completion_inv (d\<lparr>d_pending := ks\<rparr>) (ps @ Completion_submit k # qs)"
  using assms completion_single_owner [OF assms] by (auto simp: completion_inv_def)

lemma detached_thread_inv:
  assumes inv: "completion_inv d (map detached_job_start (d_jobs d) @ ps @ p # qs)"
    and stp: "detached_thread_step ok p d = (p', d')"
  shows "completion_inv d' (map detached_job_start (d_jobs d') @ ps @ opt_list id p' @ qs)"
proof -
  note i = inv [unfolded append_assoc [symmetric]]
  show ?thesis
  proof (cases p)
    case (Work_invoke w)
    then show ?thesis using stp inv by (auto simp: run_detached_work_def completion_inv_def)
  next
    case (Completion_schedule k)
    then show ?thesis using stp completion_inv_schedule [OF i [unfolded Completion_schedule]]
      by (auto simp: schedule_detached_completion_def Let_def split: if_splits)
  next
    case (Completion_submit k)
    then show ?thesis using stp completion_inv_submit [OF inv [unfolded Completion_submit]]
        completion_inv_owner_step(1) [OF i]
      by (auto simp: submit_completion_def detached_submit_def split: if_splits)
  next
    case (Completion_invoke k)
    then show ?thesis using stp completion_inv_owner_step(2) [OF i] by auto
  next
    case Completion_next
    then show ?thesis using stp completion_inv_owner_step(3,4) [OF i]
      by (auto simp: run_detached_completion_next_def split: list.splits)
  qed
qed

lemma detached_step_inv: "detached_step d d' \<Longrightarrow> detached_inv d \<Longrightarrow> detached_inv d'"
proof (induction rule: detached_step.induct)
  case (detached_pick d j js)
  then show ?case using detached_pick_inv [of d j "map detached_job_start js" "d_threads d"]
    by (simp add: detached_inv_def detached_pcs_def completion_inv_def)
next
  case (detached_run d ps p qs ok p' d')
  then show ?case using detached_thread_inv [of d ps p qs ok p' d']
    by (simp add: detached_inv_def detached_pcs_def)
next
  case (detached_call work completion d r work' completion' d')
  then show ?case
    by (auto simp: mudmux_workers_submit_def detached_submit_def detached_inv_def detached_pcs_def
        completion_inv_def split: option.splits if_splits)
qed (simp_all add: detached_inv_def detached_pcs_def)

lemma detached_init_inv: "detached_init d \<Longrightarrow> detached_inv d"
  by (simp add: detached_init_def detached_inv_def completion_inv_def detached_pcs_def)

interpretation detached_sys: inductive_invariant detached_init detached_step detached_inv
  by unfold_locales (blast intro: detached_init_inv detached_step_inv)+

section \<open>Properties\<close>

text \<open>
  C31. Detached completions are serialized and none is lost: under every interleaving at most one
  completion is on its way or running, and they are invoked in the order in which their works
  finished. When no job and no thread is left, every completion that was taken over from a caller has
  been invoked exactly once, so stopping the workers finds no completion to destroy.
\<close>
theorem detached_completions_delivered:
  assumes "reachable detached_init detached_step d"
  shows "length (filter completion_owner (detached_pcs d)) \<le> 1 \<and>
    prefix (d_delivered d) (d_scheduled d) \<and>
    (d_jobs d = [] \<and> d_threads d = [] \<longrightarrow>
       mset (map k_closure (d_delivered d)) = mset (d_accepted d) \<and>
       fst (workers_stop_completions d) = [])"
proof -
  have i: "completion_inv d (detached_pcs d)"
    using detached_sys.reachable_inv [OF assms] by (simp add: detached_inv_def)
  have "d_pending d = []" if "d_jobs d = []" "d_threads d = []"
    using i that by (auto simp: completion_inv_def detached_pcs_def split: if_splits)
  then show ?thesis using i
    by (auto simp: completion_inv_def detached_pcs_def workers_stop_completions_def)
qed

definition sample_closure :: "nat \<Rightarrow> async_closure" where
  "sample_closure n = \<lparr>cl_invoke = Some n, cl_destroy = None, cl_context = n\<rparr>"

definition sample_detached :: detached where
  "sample_detached = \<lparr>d_running = True, d_pending = [], d_active = False, d_jobs = [], d_accepting = True,
     d_threads = [], d_accepted = [], d_scheduled = [], d_delivered = []\<rparr>"

definition sample_submitted :: detached where
  "sample_submitted = snd (snd (snd (mudmux_workers_submit (Some (sample_closure 1)) (Some (sample_closure 2)) sample_detached)))"

theorem detached_completions_delivered_witness:
  "length (filter completion_owner (detached_pcs sample_submitted)) \<le> 1 \<and>
   d_accepted sample_submitted = [sample_closure 2]"
proof -
  have "reachable detached_init detached_step sample_detached"
    by (rule reachable_init) (simp add: detached_init_def sample_detached_def)
  moreover have "detached_step sample_detached sample_submitted"
    unfolding sample_submitted_def by (rule detached_call) (simp add: prod_eq_iff)
  ultimately have "reachable detached_init detached_step sample_submitted" by (rule reachable_step)
  from detached_completions_delivered [OF this] show ?thesis
    by (simp add: sample_submitted_def mudmux_workers_submit_def sample_detached_def sample_closure_def
        async_closure_is_valid_def detached_submit_def)
qed

end
