(* ===== verification/Dispatch.thy ===== *)
theory Dispatch
  imports Lane_Safety Event_Lane Detached_Work Thread_Pool
begin

text \<open>
  The entry points of \<^verbatim>\<open>src/execution.cpp\<close> that tie the lanes together: configuration, starting and
  stopping the workers, the choice between inline and worker execution, and
  \<^verbatim>\<open>mudmux_execution_dispatch\<close>. The state has the slot lanes, the event lane, the detached work and a
  component \<open>'w\<close> that stands for everything a hook invoked inline can change.
\<close>

section \<open>Configuration\<close>

datatype mudmux_determinism_mode = MUDMUX_DETERMINISM_STRICT | MUDMUX_DETERMINISM_RELAXED

record 'w execution_state =
  x_thread_pool_size :: int
  x_backlog_capacity :: nat
  x_determinism_mode :: mudmux_determinism_mode
  x_running :: bool
  x_lanes :: lanes
  x_events :: events
  x_detached :: detached
  x_world :: 'w

definition mudmux_workers_configure :: "int \<Rightarrow> nat \<Rightarrow> 'w execution_state \<Rightarrow> 'w execution_state" where
  "mudmux_workers_configure thread_pool_size backlog_capacity x =
     (let mode = (if thread_pool_size = 1 then MUDMUX_DETERMINISM_STRICT else MUDMUX_DETERMINISM_RELAXED)
      in x\<lparr>x_thread_pool_size := thread_pool_size, x_backlog_capacity := backlog_capacity,
           x_determinism_mode := mode,
           x_lanes := (x_lanes x)\<lparr>l_backlog := backlog_capacity\<rparr>,
           x_events := (x_events x)\<lparr>v_strict := (mode = MUDMUX_DETERMINISM_STRICT)\<rparr>\<rparr>)"

definition set_running :: "bool \<Rightarrow> 'w execution_state \<Rightarrow> 'w execution_state" where
  "set_running b x =
     x\<lparr>x_running := b, x_lanes := (x_lanes x)\<lparr>l_running := b\<rparr>,
       x_events := (x_events x)\<lparr>v_running := b\<rparr>, x_detached := (x_detached x)\<lparr>d_running := b\<rparr>\<rparr>"

definition set_accepting :: "bool \<Rightarrow> 'w execution_state \<Rightarrow> 'w execution_state" where
  "set_accepting b x =
     x\<lparr>x_lanes := (x_lanes x)\<lparr>l_accepting := b\<rparr>,
       x_events := (x_events x)\<lparr>v_accepting := b\<rparr>, x_detached := (x_detached x)\<lparr>d_accepting := b\<rparr>\<rparr>"

text \<open>\<open>pool_started\<close> is the result of starting the pool, modelled in \<^verbatim>\<open>Thread_Pool\<close>.\<close>

definition mudmux_workers_start :: "bool \<Rightarrow> 'w execution_state \<Rightarrow> bool \<times> 'w execution_state" where
  "mudmux_workers_start pool_started x =
     (if x_running x then (False, set_running True x)
      else if \<not> pool_started then (False, set_running False x)
      else (True, set_accepting True (set_running True x)))"

text \<open>
  Stopping: \<^verbatim>\<open>worker_pool.stop()\<close> returns once every accepted job has run, which is the state the
  second part starts from.
\<close>

definition workers_stop_begin :: "'w execution_state \<Rightarrow> 'w execution_state" where
  "workers_stop_begin x = set_accepting False (set_running False x)"

definition workers_stop_end :: "'w execution_state \<Rightarrow> async_closure list \<times> 'w execution_state" where
  "workers_stop_end x =
     (case workers_stop_completions (x_detached x) of
        (destroyed, d) \<Rightarrow>
          (destroyed, x\<lparr>x_lanes := (x_lanes x)\<lparr>l_states := []\<rparr>,
                        x_events := workers_stop_events (x_events x), x_detached := d\<rparr>))"

fun asynchronous_hook :: "mudmux_hook_type \<Rightarrow> bool" where
  "asynchronous_hook HOOK_CONNECT = True"
| "asynchronous_hook HOOK_DISCONNECT = True"
| "asynchronous_hook HOOK_MESSAGE_INBOUND = True"
| "asynchronous_hook HOOK_MESSAGE_OUTBOUND = True"
| "asynchronous_hook HOOK_TRANSPORT_READY = True"
| "asynchronous_hook HOOK_PROMPT = True"
| "asynchronous_hook HOOK_TELNET_SUBNEG = True"
| "asynchronous_hook _ = False"

definition mudmux_execution_should_dispatch_async :: "'w execution_state \<Rightarrow> mudmux_hook_type \<Rightarrow> bool" where
  "mudmux_execution_should_dispatch_async x t \<longleftrightarrow>
     x_determinism_mode x = MUDMUX_DETERMINISM_RELAXED \<and> asynchronous_hook t"

section \<open>Dispatch\<close>

definition MUDMUX_EXECUTION_TIMELY_EVENT :: u32 where "MUDMUX_EXECUTION_TIMELY_EVENT = 1"

text \<open>The calls an event dispatch makes after admission, when nothing runs in between.\<close>

definition enqueue_event_call ::
  "mudmux_execution \<Rightarrow> bool \<Rightarrow> events \<Rightarrow> mudmux_dispatch_result \<times> events" where
  "enqueue_event_call e timely v =
     (case enqueue_event_execution e timely v of
        (None, v1) \<Rightarrow> (MUDMUX_DISPATCH_QUEUED, v1)
      | (Some (Dispatch_submit e1 t), v1) \<Rightarrow>
          (case event_submit e1 t v1 of
             (True, v2) \<Rightarrow> (MUDMUX_DISPATCH_QUEUED, v2)
           | (False, v2) \<Rightarrow> (MUDMUX_DISPATCH_ERROR, if t then v2 else snd (enqueue_event_failed e1 v2)))
      | (Some _, v1) \<Rightarrow> (MUDMUX_DISPATCH_ERROR, v1))"

text \<open>
  Inline execution: the hook runs with output flushing, then the completion, then a requested await of
  the current slot is started. \<open>Inl\<close> is an exception that leaves the call.
\<close>

definition dispatch_inline ::
  "'w registry \<Rightarrow> (nat \<Rightarrow> 'w hook_func) \<Rightarrow> (nat \<Rightarrow> int \<Rightarrow> 'w \<Rightarrow> 'w) \<Rightarrow> ('w \<Rightarrow> 'w) \<Rightarrow> tls \<Rightarrow>
   mudmux_execution \<Rightarrow> int \<Rightarrow> 'w execution_state \<Rightarrow> (unit + mudmux_dispatch_result) \<times> 'w execution_state" where
  "dispatch_inline all_hooks callback completion flush loc e requested_current_slot x =
     (case execution_invoke all_hooks callback flush True e loc (x_world x) of
        (Threw, w) \<Rightarrow> (Inl (), x\<lparr>x_world := w\<rparr>)
      | (Returned r, w) \<Rightarrow>
          (let x1 = x\<lparr>x_world := execution_complete completion e w\<rparr>;
               x2 = (if is_registered_hook e then
                       (case finalize_section requested_current_slot (l_states (x_lanes x1)) of
                          (Some (g, work), states) \<Rightarrow>
                            x1\<lparr>x_lanes := (x_lanes x1)\<lparr>l_states := states,
                                l_threads := l_threads (x_lanes x1) @ [Await_submit requested_current_slot g work]\<rparr>\<rparr>
                        | (None, states) \<Rightarrow> x1)
                     else x1)
           in (Inr (if r < 0 then MUDMUX_DISPATCH_ERROR else MUDMUX_DISPATCH_OK), x2)))"

definition with_output_slot :: "mudmux_execution \<Rightarrow> mudmux_execution" where
  "with_output_slot e =
     (if is_registered_hook e \<and> execution_hook_type e = HOOK_MESSAGE_OUTBOUND \<and> e_current_slot e < 0
      then e\<lparr>e_current_slot := e_msg e\<rparr> else e)"

definition dispatch_registered ::
  "'w registry \<Rightarrow> (nat \<Rightarrow> 'w hook_func) \<Rightarrow> (nat \<Rightarrow> int \<Rightarrow> 'w \<Rightarrow> 'w) \<Rightarrow> ('w \<Rightarrow> 'w) \<Rightarrow> tls \<Rightarrow>
   mudmux_execution \<Rightarrow> 'w execution_state \<Rightarrow> (unit + mudmux_dispatch_result option) \<times> 'w execution_state" where
  "dispatch_registered all_hooks callback completion flush loc e0 x =
     (let e = with_output_slot e0; t = execution_hook_type e in
      if x_determinism_mode x = MUDMUX_DETERMINISM_STRICT \<or> \<not> mudmux_execution_should_dispatch_async x t
      then map_prod (map_sum id Some) id (dispatch_inline all_hooks callback completion flush loc e (e_current_slot e0) x)
      else let allow_pending = (t \<noteq> HOOK_MESSAGE_INBOUND \<and> t \<noteq> HOOK_TELNET_SUBNEG);
               queue_slot = (if t = HOOK_TELNET_SUBNEG then e_current_slot e else e_msg e) in
           if queue_slot < 0 then (Inr (Some MUDMUX_DISPATCH_ERROR), x)
           else case mudmux_execution_enqueue (l_gens (x_lanes x) queue_slot) e allow_pending queue_slot (x_lanes x) of
                  (r, l) \<Rightarrow> (Inr r, x\<lparr>x_lanes := l\<rparr>))"

definition dispatch_event ::
  "'w registry \<Rightarrow> (nat \<Rightarrow> 'w hook_func) \<Rightarrow> (nat \<Rightarrow> int \<Rightarrow> 'w \<Rightarrow> 'w) \<Rightarrow> ('w \<Rightarrow> 'w) \<Rightarrow> tls \<Rightarrow>
   mudmux_execution \<Rightarrow> bool \<Rightarrow> 'w execution_state \<Rightarrow> (unit + mudmux_dispatch_result option) \<times> 'w execution_state"
where
  "dispatch_event all_hooks callback completion flush loc e timely x =
     (case dispatch_event_admit e timely (x_events x) of
        (Inl r, v) \<Rightarrow> (Inr (Some r), x\<lparr>x_events := v\<rparr>)
      | (Inr _, v) \<Rightarrow>
          (let x1 = x\<lparr>x_events := v\<rparr> in
           if x_determinism_mode x = MUDMUX_DETERMINISM_STRICT then
             (case dispatch_inline all_hooks callback completion flush loc e (e_current_slot e) x1 of
                (r, x2) \<Rightarrow> (map_sum id Some r,
                            x2\<lparr>x_events := release_registration_scope (e_registration e) (x_events x2)\<rparr>))
           else
             (case enqueue_event_call e timely v of
                (r, v1) \<Rightarrow> (Inr (Some r),
                   x1\<lparr>x_events := (if r = MUDMUX_DISPATCH_QUEUED then v1
                                   else release_registration_scope (e_registration e) v1)\<rparr>))))"

text \<open>\<open>Inr None\<close> means that the accepted task is still being handed to the pool.\<close>

definition mudmux_execution_dispatch ::
  "'w registry \<Rightarrow> (nat \<Rightarrow> 'w hook_func) \<Rightarrow> (nat \<Rightarrow> int \<Rightarrow> 'w \<Rightarrow> 'w) \<Rightarrow> ('w \<Rightarrow> 'w) \<Rightarrow> tls \<Rightarrow>
   mudmux_execution \<Rightarrow> u32 \<Rightarrow> 'w execution_state \<Rightarrow> (unit + mudmux_dispatch_result option) \<times> 'w execution_state"
where
  "mudmux_execution_dispatch all_hooks callback completion flush loc e flags x =
     (if flags AND NOT MUDMUX_EXECUTION_TIMELY_EVENT \<noteq> 0 then (Inr (Some MUDMUX_DISPATCH_ERROR), x)
      else let timely = (flags AND MUDMUX_EXECUTION_TIMELY_EVENT \<noteq> 0) in
      if timely \<and> (is_registered_hook e \<or> \<not> x_running x) then (Inr (Some MUDMUX_DISPATCH_ERROR), x)
      else if is_registered_hook e then dispatch_registered all_hooks callback completion flush loc e x
      else dispatch_event all_hooks callback completion flush loc e timely x)"

section \<open>Properties\<close>

lemma dispatch_inline_cases:
  "execution_invoke all_hooks callback flush True e loc (x_world x) = (Threw, w) \<Longrightarrow>
     dispatch_inline all_hooks callback completion flush loc e slot x = (Inl (), x\<lparr>x_world := w\<rparr>)"
  "execution_invoke all_hooks callback flush True e loc (x_world x) = (Returned r, w) \<Longrightarrow>
     fst (dispatch_inline all_hooks callback completion flush loc e slot x) =
       Inr (if r < 0 then MUDMUX_DISPATCH_ERROR else MUDMUX_DISPATCH_OK) \<and>
     x_world (snd (dispatch_inline all_hooks callback completion flush loc e slot x)) =
       execution_complete completion e w"
  by (auto simp: dispatch_inline_def Let_def split: prod.splits option.splits)

lemma dispatch_inline_events:
  "x_events (snd (dispatch_inline all_hooks callback completion flush loc e slot x)) = x_events x"
  by (auto simp: dispatch_inline_def Let_def split: prod.splits hook_result.splits option.splits)

lemma dispatch_plain:
  "mudmux_execution_dispatch all_hooks callback completion flush loc e 0 x =
     (if is_registered_hook e then dispatch_registered all_hooks callback completion flush loc e x
      else dispatch_event all_hooks callback completion flush loc e False x)"
  by (simp add: mudmux_execution_dispatch_def)


text \<open>
  C33. Whatever an event callback does when it runs inline, return, report an error or throw, and also
  when the dispatch is refused, its registration is released again: the in-flight table is what it was.
\<close>
theorem inline_event_releases_registration:
  assumes "\<not> is_registered_hook e" "x_determinism_mode x = MUDMUX_DETERMINISM_STRICT"
  shows "v_in_flight (x_events (snd (mudmux_execution_dispatch all_hooks callback completion flush loc e flags x))) =
    v_in_flight (x_events x)"
proof -
  have "v_in_flight (x_events (snd (dispatch_event all_hooks callback completion flush loc e timely x))) =
      v_in_flight (x_events x)" for timely
  proof (cases "dispatch_event_admit e timely (x_events x)")
    case (Pair a v)
    then show ?thesis
    proof (cases a)
      case (Inl r)
      then show ?thesis using Pair
        by (auto simp: dispatch_event_def dispatch_event_admit_def split: if_splits)
    next
      case (Inr p)
      have "v_in_flight v = (\<lambda>r. v_in_flight (x_events x) r + of_bool (e_registration e = Some r))"
        using Pair Inr by (auto simp: dispatch_event_admit_def fun_eq_iff split: if_splits option.splits)
      then show ?thesis using Pair Inr assms(2)
        dispatch_inline_events [of all_hooks callback completion flush loc e "e_current_slot e" "x\<lparr>x_events := v\<rparr>"]
        by (auto simp: dispatch_event_def Let_def fun_eq_iff split: prod.splits)
    qed
  qed
  then show ?thesis using assms(1) by (auto simp: mudmux_execution_dispatch_def Let_def)
qed

text \<open>
  A complete stop leaves nothing behind: once the pool has run its accepted jobs, no slot and no
  event registration reports itself busy, and every detached completion taken over from the
  application has been invoked, so none is destroyed without being run.
\<close>
theorem workers_stop_leaves_nothing:
  assumes "reachable event_init (event_step T) \<lparr>es_events = x_events x, es_threads = [], es_admitted = adm, es_taken = tk\<rparr>"
    and "v_jobs (x_events x) = []"
    and "reachable detached_init detached_step (x_detached x)" "d_jobs (x_detached x) = []" "d_threads (x_detached x) = []"
    and "workers_stop_end x = (destroyed, x')"
  shows "destroyed = [] \<and> \<not> mudmux_execution_slot_busy slot (l_states (x_lanes x')) \<and>
    \<not> mudmux_execution_event_busy reg (x_events x')"
proof -
  let ?y = "\<lparr>es_events = x_events x, es_threads = [], es_admitted = adm, es_taken = tk\<rparr>"
  have i: "event_inv T adm tk (x_events x) (job_pcs (x_events x))"
    using event_sys.reachable_inv [OF assms(1)] by (simp add: events_inv_def event_pcs_def)
  have d: "completion_inv (x_detached x) (detached_pcs (x_detached x))"
    using detached_sys.reachable_inv [OF assms(3)] by (simp add: detached_inv_def)
  then have "d_pending (x_detached x) = []"
    using assms(4,5) by (auto simp: completion_inv_def detached_pcs_def split: if_splits)
  then show ?thesis using assms(2,6) i
    by (auto simp: workers_stop_end_def workers_stop_completions_def workers_stop_events_def
        mudmux_execution_slot_busy_def mudmux_execution_event_busy_def event_inv_def job_pcs_def
        split: option.splits)
qed

text \<open>Concrete runs: a relaxed scheduler, and a hook that throws in strict mode.\<close>

definition sample_scheduler :: "mudmux_determinism_mode \<Rightarrow> nat execution_state" where
  "sample_scheduler mode = \<lparr>x_thread_pool_size = 4, x_backlog_capacity = 8, x_determinism_mode = mode,
     x_running = True, x_lanes = sample_started, x_events = es_events sample_event_start,
     x_detached = sample_detached, x_world = 0\<rparr>"

definition throwing_callback :: "nat \<Rightarrow> nat hook_func" where
  "throwing_callback f = (\<lambda>loc m data w. (Threw, w + 1))"


theorem inline_event_releases_registration_witness:
  "v_in_flight (x_events (snd (mudmux_execution_dispatch (\<lambda>_. None) throwing_callback (\<lambda>_ _ w. w) id initial_tls
     (sample_event 3) 1 (sample_scheduler MUDMUX_DETERMINISM_STRICT)))) 3 = 0"
proof -
  have "\<not> is_registered_hook (sample_event 3)" "x_determinism_mode (sample_scheduler MUDMUX_DETERMINISM_STRICT) = MUDMUX_DETERMINISM_STRICT"
    by (simp_all add: is_registered_hook_def sample_event_def sample_scheduler_def)
  from inline_event_releases_registration [OF this] show ?thesis
    by (simp add: sample_scheduler_def sample_event_start_def)
qed

theorem workers_stop_leaves_nothing_witness:
  "fst (workers_stop_end (sample_scheduler MUDMUX_DETERMINISM_RELAXED)) = [] \<and>
   \<not> mudmux_execution_event_busy (Some 1) (x_events (snd (workers_stop_end (sample_scheduler MUDMUX_DETERMINISM_RELAXED))))"
proof -
  let ?x = "sample_scheduler MUDMUX_DETERMINISM_RELAXED"
  have h: "reachable event_init (event_step {}) \<lparr>es_events = x_events ?x, es_threads = [], es_admitted = [], es_taken = []\<rparr>"
    "v_jobs (x_events ?x) = []" "reachable detached_init detached_step (x_detached ?x)"
    "d_jobs (x_detached ?x) = []" "d_threads (x_detached ?x) = []"
    "workers_stop_end ?x = (fst (workers_stop_end ?x), snd (workers_stop_end ?x))"
    by (auto simp: sample_scheduler_def sample_event_start_def sample_detached_def event_init_def
        detached_init_def intro!: reachable_init)
  from workers_stop_leaves_nothing [OF h] show ?thesis by blast
qed

end
