(* ===== verification/Telnet_Control.thy ===== *)
theory Telnet_Control
  imports Outbound Telnet_Parser Hooks
begin

text \<open>
  The sending half of Telnet in \<^verbatim>\<open>lib/comm/telnet.cpp\<close> and the input modes of
  \<^verbatim>\<open>lib/comm/input_mode.cpp\<close> (its POSIX half): commands and subnegotiations, the opening offer, the
  capabilities learned from the client, line and character mode, and echo.

  The console is slot 0; its terminal is the state \<open>tm\<close>, \<open>None\<close> when \<^verbatim>\<open>tcgetattr\<close> fails. Functions on a slot
  record are only called with a resolved slot; the functions of the interface take the table and check it.
\<close>

section \<open>Commands\<close>

definition comm_telnet_send_will :: "(nat option \<Rightarrow> bool) \<Rightarrow> byte \<Rightarrow> comm_abstract \<Rightarrow> comm_abstract" where
  "comm_telnet_send_will arm option c =
     (if c_wbio c = None then c
      else comm_buffered_write_comm_no_telnet_normalize arm [255, 251, option] c)"

definition comm_telnet_send_wont :: "(nat option \<Rightarrow> bool) \<Rightarrow> byte \<Rightarrow> comm_abstract \<Rightarrow> comm_abstract" where
  "comm_telnet_send_wont arm option c =
     (if c_wbio c = None then c
      else comm_buffered_write_comm_no_telnet_normalize arm [255, 252, option] c)"

definition comm_telnet_send_do :: "(nat option \<Rightarrow> bool) \<Rightarrow> byte \<Rightarrow> comm_abstract \<Rightarrow> comm_abstract" where
  "comm_telnet_send_do arm option c =
     (if c_wbio c = None then c
      else comm_buffered_write_comm_no_telnet_normalize arm [255, 253, option] c)"

definition comm_telnet_send_dont :: "(nat option \<Rightarrow> bool) \<Rightarrow> byte \<Rightarrow> comm_abstract \<Rightarrow> comm_abstract" where
  "comm_telnet_send_dont arm option c =
     (if c_wbio c = None then c
      else comm_buffered_write_comm_no_telnet_normalize arm [255, 254, option] c)"

definition comm_telnet_send_subnegotiation ::
  "(nat option \<Rightarrow> bool) \<Rightarrow> byte \<Rightarrow> byte list \<Rightarrow> comm_abstract \<Rightarrow> comm_abstract" where
  "comm_telnet_send_subnegotiation arm option data c =
     (if c_wbio c = None \<or> data = [] then c
      else comm_buffered_write_comm_no_telnet_normalize arm [255, 240]
        (comm_buffered_write_comm_no_telnet_normalize arm data
          (comm_buffered_write_comm_no_telnet_normalize arm [255, 250, option] c)))"

section \<open>Opening offer and capabilities\<close>

definition start_telnet_negotiation :: "(nat option \<Rightarrow> bool) \<Rightarrow> comm_abstract \<Rightarrow> comm_abstract" where
  "start_telnet_negotiation arm c =
     (if c_ssl c \<noteq> None then c
      else comm_telnet_send_do arm TELOPT_LINEMODE
        (comm_telnet_send_wont arm TELOPT_ECHO
          (comm_telnet_send_do arm TELOPT_SGA (comm_telnet_send_will arm TELOPT_SGA c))))"

definition comm_enable_telnet_for_slot :: "(nat option \<Rightarrow> bool) \<Rightarrow> comm_abstract \<Rightarrow> comm_abstract" where
  "comm_enable_telnet_for_slot arm c =
     (if comm_has_flag c C_ENABLE_WEBSOCKET \<and> \<not> C_WEBSOCKET_IS_READY (c_flags c) then c
      else if comm_has_flag c C_ENABLE_TELNET then c
      else let c1 = comm_set_flag C_ENABLE_TELNET c in
           if C_WEBSOCKET_STATE (c_flags c1) \<noteq> WS_TELNET_PENDING then start_telnet_negotiation arm c1 else c1)"

definition update_slot :: "(comm_abstract \<Rightarrow> comm_abstract) \<Rightarrow> int \<Rightarrow> slot_table \<Rightarrow> slot_table" where
  "update_slot f slot t =
     (case comm_abstract_get t slot of None \<Rightarrow> t | Some c \<Rightarrow> set_slot slot (f c) t)"

definition comm_enable_telnet :: "(nat option \<Rightarrow> bool) \<Rightarrow> tls \<Rightarrow> slot_table \<Rightarrow> slot_table" where
  "comm_enable_telnet arm loc t =
     (if current_hook_type loc \<noteq> HOOK_CONNECT \<or> current_slot loc < 0 then t
      else update_slot (comm_enable_telnet_for_slot arm) (current_slot loc) t)"

definition comm_start_telnet_negotiation :: "(nat option \<Rightarrow> bool) \<Rightarrow> comm_abstract \<Rightarrow> comm_abstract" where
  "comm_start_telnet_negotiation arm c =
     (if \<not> comm_has_flag c C_ENABLE_TELNET then c else start_telnet_negotiation arm c)"

definition comm_process_telnet_options ::
  "(nat option \<Rightarrow> bool) \<Rightarrow> telnet_negotiation \<Rightarrow> comm_abstract \<Rightarrow> comm_abstract" where
  "comm_process_telnet_options arm ng c =
     (let c1 = (if THEY_WILL ng TELOPT_LINEMODE then
                  (let c' = c\<lparr>c_caps := (c_caps c)\<lparr>telnet_linemode := True\<rparr>\<rparr> in
                   if comm_has_flag c' C_LINE_INPUT
                   then comm_telnet_send_subnegotiation arm TELOPT_LINEMODE [1, 1] c' else c')
                else if THEY_WONT ng TELOPT_LINEMODE
                then c\<lparr>c_caps := (c_caps c)\<lparr>telnet_linemode := False\<rparr>\<rparr>
                else c)
      in if PLEASE_DO ng TELOPT_ECHO then c1\<lparr>c_caps := (c_caps c1)\<lparr>telnet_echo := True\<rparr>\<rparr>
         else if PLEASE_DONT ng TELOPT_ECHO then c1\<lparr>c_caps := (c_caps c1)\<lparr>telnet_echo := False\<rparr>\<rparr>
         else c1)"

text \<open>
  The execution a completed subnegotiation is dispatched with, if any: the option is the message and
  the rest the payload.
\<close>

definition subnegotiation_execution :: "bool \<Rightarrow> telnet_negotiation \<Rightarrow> int \<Rightarrow> mudmux_execution option" where
  "subnegotiation_execution hook_registered ng slot =
     (if tn_subopt ng = [] \<or> \<not> hook_registered then None
      else Some \<lparr>e_target = Inl HOOK_TELNET_SUBNEG, e_msg = int (unat (hd (tn_subopt ng))),
                 e_current_slot = slot, e_registration = None, e_payload = tl (tn_subopt ng),
                 e_completion = None\<rparr>)"

section \<open>Input modes\<close>

definition COMM_SLOT_CONSOLE :: int where "COMM_SLOT_CONSOLE = 0"

record terminal =
  t_icanon :: bool
  t_echo :: bool
  t_vmin :: nat
  t_vtime :: nat

definition negotiate_telnet_line_input :: "(nat option \<Rightarrow> bool) \<Rightarrow> bool \<Rightarrow> comm_abstract \<Rightarrow> comm_abstract" where
  "negotiate_telnet_line_input arm enable c =
     (if c_ssl c \<noteq> None then c
      else if enable then
        (if telnet_linemode (c_caps c) then comm_telnet_send_subnegotiation arm TELOPT_LINEMODE [1, 1] c else c)
      else
        (let c1 = (if telnet_linemode (c_caps c)
                   then comm_telnet_send_subnegotiation arm TELOPT_LINEMODE [1, 0] c else c)
         in if \<not> telnet_echo (c_caps c1) then comm_telnet_send_will arm TELOPT_ECHO c1 else c1))"

definition set_client_echo :: "bool \<Rightarrow> comm_abstract \<Rightarrow> comm_abstract" where
  "set_client_echo echo c = (if echo then comm_set_flag C_CLIENT_ECHO c else comm_clear_flag C_CLIENT_ECHO c)"

definition set_echo_comm ::
  "(nat option \<Rightarrow> bool) \<Rightarrow> int \<Rightarrow> bool \<Rightarrow> comm_abstract \<Rightarrow> terminal option \<Rightarrow>
   bool \<times> comm_abstract \<times> terminal option" where
  "set_echo_comm arm slot echo c tm =
     (if slot = COMM_SLOT_CONSOLE then
        (case tm of
           None \<Rightarrow> (False, c, tm)
         | Some tio \<Rightarrow> (True, set_client_echo echo c, Some (tio\<lparr>t_echo := echo\<rparr>)))
      else
        (let c1 = (if comm_has_flag c C_ENABLE_TELNET \<and> c_ssl c = None then
                     (if echo \<and> telnet_echo (c_caps c) then comm_telnet_send_wont arm TELOPT_ECHO c
                      else if \<not> echo \<and> \<not> telnet_echo (c_caps c) then comm_telnet_send_will arm TELOPT_ECHO c
                      else c)
                   else c)
         in (True, set_client_echo echo c1, tm)))"

definition set_line_input_comm ::
  "(nat option \<Rightarrow> bool) \<Rightarrow> int \<Rightarrow> bool \<Rightarrow> comm_abstract \<Rightarrow> terminal option \<Rightarrow>
   bool \<times> comm_abstract \<times> terminal option" where
  "set_line_input_comm arm slot echo c tm =
     (if comm_has_flag c C_LINE_INPUT then set_echo_comm arm slot echo c tm
      else if slot = COMM_SLOT_CONSOLE then
        (case tm of
           None \<Rightarrow> (False, c, tm)
         | Some tio \<Rightarrow> set_echo_comm arm slot echo (comm_set_flag C_LINE_INPUT c)
                         (Some (tio\<lparr>t_icanon := echo, t_echo := echo\<rparr>)))
      else set_echo_comm arm slot echo
             (comm_set_flag C_LINE_INPUT
               (if comm_has_flag c C_ENABLE_TELNET then negotiate_telnet_line_input arm True c else c)) tm)"

definition set_char_input_comm ::
  "(nat option \<Rightarrow> bool) \<Rightarrow> int \<Rightarrow> comm_abstract \<Rightarrow> terminal option \<Rightarrow> bool \<times> comm_abstract \<times> terminal option" where
  "set_char_input_comm arm slot c tm =
     (if \<not> comm_has_flag c C_LINE_INPUT then set_echo_comm arm slot False c tm
      else if slot = COMM_SLOT_CONSOLE then
        (case tm of
           None \<Rightarrow> (False, c, tm)
         | Some tio \<Rightarrow> set_echo_comm arm slot False (comm_clear_flag C_LINE_INPUT c)
                         (Some (tio\<lparr>t_icanon := False, t_echo := False, t_vmin := 0, t_vtime := 0\<rparr>)))
      else if comm_has_flag c C_ENABLE_TELNET then
        (True, comm_clear_flag (set_flag C_LINE_INPUT C_CLIENT_ECHO) (negotiate_telnet_line_input arm False c), tm)
      else set_echo_comm arm slot False (comm_clear_flag C_LINE_INPUT c) tm)"

definition on_slot ::
  "(comm_abstract \<Rightarrow> terminal option \<Rightarrow> bool \<times> comm_abstract \<times> terminal option) \<Rightarrow> int \<Rightarrow>
   slot_table \<times> terminal option \<Rightarrow> bool \<times> slot_table \<times> terminal option" where
  "on_slot f slot = (\<lambda>(t, tm).
     (case comm_abstract_get t slot of
        None \<Rightarrow> (False, t, tm)
      | Some c \<Rightarrow> (case f c tm of (ok, c', tm') \<Rightarrow> (ok, set_slot slot c' t, tm'))))"

definition comm_set_echo ::
  "(nat option \<Rightarrow> bool) \<Rightarrow> int \<Rightarrow> bool \<Rightarrow> slot_table \<times> terminal option \<Rightarrow> bool \<times> slot_table \<times> terminal option"
  where "comm_set_echo arm slot echo = on_slot (set_echo_comm arm slot echo) slot"

definition comm_set_line_input ::
  "(nat option \<Rightarrow> bool) \<Rightarrow> int \<Rightarrow> bool \<Rightarrow> slot_table \<times> terminal option \<Rightarrow> bool \<times> slot_table \<times> terminal option"
  where "comm_set_line_input arm slot echo = on_slot (set_line_input_comm arm slot echo) slot"

definition comm_set_char_input ::
  "(nat option \<Rightarrow> bool) \<Rightarrow> int \<Rightarrow> slot_table \<times> terminal option \<Rightarrow> bool \<times> slot_table \<times> terminal option"
  where "comm_set_char_input arm slot = on_slot (set_char_input_comm arm slot) slot"

section \<open>Commands as bytes appended to the output\<close>

text \<open>\<open>n\<close> more bytes fit into the last outbound buffer.\<close>

definition tail_fits :: "nat \<Rightarrow> outbound_buffer list \<Rightarrow> bool" where
  "tail_fits n bs \<longleftrightarrow>
     (if bs = [] then n \<le> BUFFER_SIZE
      else length bs < MAX_OUTBOUND_BUFFERS_PER_SLOT \<and> length (ob_data (last bs)) + n \<le> BUFFER_SIZE)"

definition plain_slot :: "comm_abstract \<Rightarrow> bool" where
  "plain_slot c \<longleftrightarrow> c_wbio c \<noteq> None \<and> \<not> has_flag (c_flags c) C_ENABLE_WEBSOCKET \<and>
     \<not> C_WEBSOCKET_IS_READY (c_flags c) \<and> chain_wf (c_outbound c)"

text \<open>Flags that no write touches.\<close>

definition untouched :: "u32 \<Rightarrow> bool" where
  "untouched k \<longleftrightarrow> C_BUFFERED_WRITE AND k = 0 \<and> C_SOCKET_WRITABLE AND k = 0"

definition wrote :: "byte list \<Rightarrow> nat \<Rightarrow> comm_abstract \<Rightarrow> comm_abstract \<Rightarrow> bool" where
  "wrote bs n c c' \<longleftrightarrow>
     plain_slot c' \<and> tail_fits n (c_outbound c') \<and>
     outbound_bytes (c_outbound c') = outbound_bytes (c_outbound c) @ bs \<and>
     c_ssl c' = c_ssl c \<and> c_caps c' = c_caps c \<and> c_inbound c' = c_inbound c \<and>
     (\<forall>k. untouched k \<longrightarrow> has_flag (c_flags c') k = has_flag (c_flags c) k)"

lemma wrote_trans: "wrote a m c c1 \<Longrightarrow> wrote b n c1 c2 \<Longrightarrow> wrote (a @ b) n c c2"
  by (simp add: wrote_def)

lemma untouched_flags [simp]:
  "untouched C_LINE_INPUT" "untouched C_CLIENT_ECHO" "untouched C_ENABLE_TELNET"
  "untouched C_ENABLE_WEBSOCKET" "untouched C_CLOSING" "untouched C_DEFERRED_INBOUND"
  "untouched C_AWAITING_HOOK" "untouched C_INVOKED_PROMPT" "untouched C_ENABLE_ANSI"
  by (simp_all add: untouched_def flag_defs)

lemma has_flag_set_untouched: "untouched k \<Longrightarrow> \<not> has_flag C_BUFFERED_WRITE k \<and> \<not> has_flag C_SOCKET_WRITABLE k"
  by (simp add: untouched_def has_flag_def)

lemma written_chain_tail:
  assumes "buf \<noteq> []" "tail_fits (length buf) bs"
  shows "written_chain buf bs =
    (if bs = [] then [empty_outbound_buffer\<lparr>ob_data := buf\<rparr>]
     else butlast bs @ [(last bs)\<lparr>ob_data := ob_data (last bs) @ buf\<rparr>])"
proof -
  have "raw_fill n obb buf = [obb\<lparr>ob_data := ob_data obb @ buf\<rparr>]"
    if "length (ob_data obb) + length buf \<le> BUFFER_SIZE" for n obb
    using that by (subst raw_fill.simps) (simp add: Let_def)
  then show ?thesis using assms
    by (auto simp: written_chain_def tail_fits_def split: if_splits)
qed

lemma plain_write:
  assumes "plain_slot c" "buf \<noteq> []" "tail_fits (length buf + n) (c_outbound c)"
  shows "wrote buf n c (comm_buffered_write_comm_no_telnet_normalize arm buf c)"
proof -
  let ?bs = "c_outbound c"
  have len: "length ?bs < MAX_OUTBOUND_BUFFERS_PER_SLOT" "length buf \<le> BUFFER_SIZE" "tail_fits (length buf) ?bs"
    using assms(3) by (auto simp: tail_fits_def MAX_OUTBOUND_BUFFERS_PER_SLOT_def split: if_splits)
  have c': "comm_buffered_write_comm_no_telnet_normalize arm buf c =
      c\<lparr>c_outbound := written_chain buf ?bs,
        c_flags := (let f = set_flag (c_flags c) C_BUFFERED_WRITE
                    in if \<not> has_flag f C_SOCKET_WRITABLE \<and> arm (c_wbio c) then set_flag f C_SOCKET_WRITABLE else f)\<rparr>"
    using assms(1,2) len
    by (auto simp: comm_buffered_write_comm_no_telnet_normalize_def comm_buffered_write_comm_impl_def
        plain_slot_def mux_simps raw_write_cases MAX_OUTBOUND_BUFFERS_PER_SLOT_def)
  have wf: "chain_wf ?bs" using assms(1) by (simp add: plain_slot_def)
  have "length buf \<le> chain_room ?bs"
    using len by (auto simp: chain_room_def tail_room_def tail_fits_def MAX_OUTBOUND_BUFFERS_PER_SLOT_def split: if_splits)
  then have b: "outbound_bytes (written_chain buf ?bs) = outbound_bytes ?bs @ buf" "chain_wf (written_chain buf ?bs)"
    using written_chain_spec [OF wf len(1), of buf] by simp_all
  have t: "tail_fits n (written_chain buf ?bs)"
    using assms(3) len(1) by (simp add: written_chain_tail [OF assms(2) len(3)] tail_fits_def
        MAX_OUTBOUND_BUFFERS_PER_SLOT_def split: if_splits)
  have "C_BUFFERED_WRITE AND M_WEBSOCKET_STATE = 0" "C_SOCKET_WRITABLE AND M_WEBSOCKET_STATE = 0"
    by (simp_all add: flag_defs)
  then show ?thesis using assms(1) b t
    by (auto simp: c' wrote_def plain_slot_def C_WEBSOCKET_IS_READY_def Let_def has_flag_set_untouched)
qed

lemma wrote_commands:
  assumes "plain_slot c" "tail_fits (3 + n) (c_outbound c)"
  shows "wrote [255, 251, x] n c (comm_telnet_send_will arm x c)"
    and "wrote [255, 252, x] n c (comm_telnet_send_wont arm x c)"
    and "wrote [255, 253, x] n c (comm_telnet_send_do arm x c)"
proof -
  have "wrote [255, v, x] n c (comm_buffered_write_comm_no_telnet_normalize arm [255, v, x] c)" for v
    by (rule plain_write) (use assms in \<open>simp_all add: numeral_3_eq_3\<close>)
  then show "wrote [255, 251, x] n c (comm_telnet_send_will arm x c)"
    and "wrote [255, 252, x] n c (comm_telnet_send_wont arm x c)"
    and "wrote [255, 253, x] n c (comm_telnet_send_do arm x c)"
    using assms(1)
    by (auto simp: comm_telnet_send_will_def comm_telnet_send_wont_def comm_telnet_send_do_def plain_slot_def)
qed

lemma wrote_next: "wrote a m c c1 \<Longrightarrow> plain_slot c1 \<and> tail_fits m (c_outbound c1)"
  by (simp add: wrote_def)

lemma wrote_subnegotiation:
  assumes "plain_slot c" "data \<noteq> []" "tail_fits (5 + length data + n) (c_outbound c)"
  shows "wrote ([255, 250, x] @ data @ [255, 240]) n c (comm_telnet_send_subnegotiation arm x data c)"
proof -
  let ?w = "comm_buffered_write_comm_no_telnet_normalize arm"
  have 1: "wrote [255, 250, x] (length data + (2 + n)) c (?w [255, 250, x] c)"
    using assms by (intro plain_write) (simp_all add: eval_nat_numeral algebra_simps)
  have 2: "wrote data (2 + n) (?w [255, 250, x] c) (?w data (?w [255, 250, x] c))"
    using wrote_next [OF 1] assms(2) by (intro plain_write) auto
  have 3: "wrote [255, 240] n (?w data (?w [255, 250, x] c)) (?w [255, 240] (?w data (?w [255, 250, x] c)))"
    using wrote_next [OF 2] by (intro plain_write) auto
  show ?thesis using wrote_trans [OF 1 wrote_trans [OF 2 3]] assms(1,2)
    by (auto simp: comm_telnet_send_subnegotiation_def plain_slot_def)
qed

lemma wrote_nothing: "plain_slot c \<Longrightarrow> tail_fits n (c_outbound c) \<Longrightarrow> wrote [] n c c"
  by (simp add: wrote_def)

lemma tail_fits_mono: "tail_fits m bs \<Longrightarrow> n \<le> m \<Longrightarrow> tail_fits n bs"
  by (auto simp: tail_fits_def split: if_splits)

section \<open>The opening offer\<close>

definition telnet_offer :: "byte list" where
  "telnet_offer = [255, 251, TELOPT_SGA, 255, 253, TELOPT_SGA, 255, 252, TELOPT_ECHO, 255, 253, TELOPT_LINEMODE]"

lemma wrote_offer:
  assumes "plain_slot c" "tail_fits (12 + n) (c_outbound c)" "c_ssl c = None"
  shows "wrote telnet_offer n c (start_telnet_negotiation arm c)"
proof -
  define c1 where "c1 = comm_telnet_send_will arm TELOPT_SGA c"
  define c2 where "c2 = comm_telnet_send_do arm TELOPT_SGA c1"
  define c3 where "c3 = comm_telnet_send_wont arm TELOPT_ECHO c2"
  have 1: "wrote [255, 251, TELOPT_SGA] (9 + n) c c1"
    unfolding c1_def using assms by (intro wrote_commands) (simp_all add: algebra_simps)
  have 2: "wrote [255, 253, TELOPT_SGA] (6 + n) c1 c2"
    unfolding c2_def using wrote_next [OF 1] by (intro wrote_commands) (simp_all add: algebra_simps)
  have 3: "wrote [255, 252, TELOPT_ECHO] (3 + n) c2 c3"
    unfolding c3_def using wrote_next [OF 2] by (intro wrote_commands) (simp_all add: algebra_simps)
  have 4: "wrote [255, 253, TELOPT_LINEMODE] n c3 (comm_telnet_send_do arm TELOPT_LINEMODE c3)"
    using wrote_next [OF 3] by (intro wrote_commands) (simp_all add: algebra_simps)
  show ?thesis using wrote_trans [OF 1 wrote_trans [OF 2 wrote_trans [OF 3 4]]] assms(3)
    by (simp add: start_telnet_negotiation_def telnet_offer_def c1_def c2_def c3_def)
qed

lemma has_flag_self [simp]:
  "has_flag C_ENABLE_TELNET C_ENABLE_TELNET" "has_flag C_LINE_INPUT C_LINE_INPUT" "has_flag C_CLIENT_ECHO C_CLIENT_ECHO"
  "has_flag C_ENABLE_WEBSOCKET C_ENABLE_WEBSOCKET"
  by (simp_all add: has_flag_def flag_defs)

lemma has_flag_cleared: "has_flag (clear_flag f m) k \<Longrightarrow> has_flag f k"
proof -
  assume "has_flag (clear_flag f m) k"
  moreover have "clear_flag f m AND k = (f AND k) AND NOT m"
    by (auto simp: clear_flag_def bit_eq_iff bit_simps)
  ultimately show ?thesis by (auto simp: has_flag_def)
qed

lemma plain_slot_flags:
  assumes "m AND M_WEBSOCKET_STATE = 0" "\<not> has_flag m C_ENABLE_WEBSOCKET"
  shows "plain_slot (comm_set_flag m c) = plain_slot c"
    and "plain_slot c \<Longrightarrow> plain_slot (comm_clear_flag m c)"
  using assms by (auto simp: plain_slot_def mux_simps C_WEBSOCKET_IS_READY_def dest: has_flag_cleared)


definition sample_slot :: comm_abstract where
  "sample_slot = zero_comm\<lparr>c_wbio := Some 3, c_outbound := five_bytes\<rparr>"

lemma sample_slot_ok [simp]:
  "plain_slot sample_slot" "tail_fits 20 (c_outbound sample_slot)" "tail_fits 12 (c_outbound sample_slot)"
  "c_ssl sample_slot = None" "c_flags sample_slot = 0" "c_caps sample_slot = no_capabilities"
  "outbound_bytes (c_outbound sample_slot) = [1, 2, 3, 4, 5]"
  by (simp_all add: sample_slot_def plain_slot_def tail_fits_def five_bytes_def chain_wf_def ob_wf_def ob_unsent_def
      BUFFER_SIZE_def MAX_OUTBOUND_BUFFERS_PER_SLOT_def zero_comm_def has_flag_def C_WEBSOCKET_IS_READY_def
      C_WEBSOCKET_STATE_def WS_HANDSHAKE_def)


section \<open>Line and character mode\<close>

definition char_mode_bytes :: "client_capabilities \<Rightarrow> byte list" where
  "char_mode_bytes caps =
     (if telnet_linemode caps then [255, 250, TELOPT_LINEMODE, 1, 0, 255, 240] else []) @
     (if telnet_echo caps then [] else [255, 251, TELOPT_ECHO])"

definition line_mode_bytes :: "client_capabilities \<Rightarrow> byte list" where
  "line_mode_bytes caps =
     (if telnet_linemode caps then [255, 250, TELOPT_LINEMODE, 1, 1, 255, 240] else []) @
     (if telnet_echo caps then [255, 252, TELOPT_ECHO] else [])"

lemma wrote_linemode:
  assumes "plain_slot c" "tail_fits (7 + n) (c_outbound c)"
  shows "wrote (if telnet_linemode (c_caps c) then [255, 250, TELOPT_LINEMODE, 1, m, 255, 240] else []) n c
     (if telnet_linemode (c_caps c) then comm_telnet_send_subnegotiation arm TELOPT_LINEMODE [1, m] c else c)"
  using wrote_subnegotiation [OF assms(1), of "[1, m]" n TELOPT_LINEMODE arm] assms
    wrote_nothing [OF assms(1) tail_fits_mono [OF assms(2)]]
  by (auto simp: eval_nat_numeral)

lemma char_mode_wrote:
  assumes "plain_slot c" "tail_fits (10 + n) (c_outbound c)" "c_ssl c = None"
  shows "wrote (char_mode_bytes (c_caps c)) n c (negotiate_telnet_line_input arm False c)"
proof -
  define c1 where "c1 = (if telnet_linemode (c_caps c)
     then comm_telnet_send_subnegotiation arm TELOPT_LINEMODE [1, 0] c else c)"
  have 1: "wrote (if telnet_linemode (c_caps c) then [255, 250, TELOPT_LINEMODE, 1, 0, 255, 240] else []) (3 + n) c c1"
    unfolding c1_def using assms by (intro wrote_linemode) (simp_all add: algebra_simps)
  have 2: "wrote [255, 251, TELOPT_ECHO] n c1 (comm_telnet_send_will arm TELOPT_ECHO c1)" "wrote [] n c1 c1"
    using wrote_next [OF 1] by (auto intro!: wrote_commands wrote_nothing elim: tail_fits_mono)
  have caps: "c_caps c1 = c_caps c" using 1 by (simp add: wrote_def)
  show ?thesis
    using wrote_trans [OF 1 2(1)] wrote_trans [OF 1 2(2)] assms(3) caps
    by (simp add: negotiate_telnet_line_input_def char_mode_bytes_def c1_def [symmetric])
qed

lemma line_mode_wrote:
  assumes "plain_slot c" "tail_fits (7 + n) (c_outbound c)" "c_ssl c = None"
  shows "wrote (if telnet_linemode (c_caps c) then [255, 250, TELOPT_LINEMODE, 1, 1, 255, 240] else []) n c
    (negotiate_telnet_line_input arm True c)"
  using wrote_linemode [OF assms(1,2)] assms(3) by (simp add: negotiate_telnet_line_input_def)

text \<open>A slot reached by writing only, with flags changed outside the ones a write depends on.\<close>

lemma wrote_reflag:
  assumes "wrote bs n c c'" "m AND M_WEBSOCKET_STATE = 0" "\<not> has_flag m C_ENABLE_WEBSOCKET"
  shows "plain_slot (comm_set_flag m c') \<and> tail_fits n (c_outbound (comm_set_flag m c'))"
    and "plain_slot (comm_clear_flag m c') \<and> tail_fits n (c_outbound (comm_clear_flag m c'))"
  using assms(1) plain_slot_flags [OF assms(2,3), of c'] by (auto simp: wrote_def mux_simps)

definition telnet_line_slot :: "int \<Rightarrow> comm_abstract \<Rightarrow> bool" where
  "telnet_line_slot slot c \<longleftrightarrow> slot \<noteq> COMM_SLOT_CONSOLE \<and> plain_slot c \<and> tail_fits 20 (c_outbound c) \<and>
     c_ssl c = None \<and> comm_has_flag c C_ENABLE_TELNET \<and> comm_has_flag c C_LINE_INPUT"

lemma char_input_slot:
  assumes "telnet_line_slot slot c" "set_char_input_comm arm slot c tm = (ok, c1, tm1)"
  shows "ok \<and> tm1 = tm \<and> plain_slot c1 \<and> tail_fits 10 (c_outbound c1) \<and> c_ssl c1 = None \<and>
    c_caps c1 = c_caps c \<and> comm_has_flag c1 C_ENABLE_TELNET \<and>
    outbound_bytes (c_outbound c1) = outbound_bytes (c_outbound c) @ char_mode_bytes (c_caps c) \<and>
    \<not> comm_has_flag c1 C_LINE_INPUT \<and> \<not> comm_has_flag c1 C_CLIENT_ECHO"
proof -
  let ?m = "set_flag C_LINE_INPUT C_CLIENT_ECHO"
  let ?c = "negotiate_telnet_line_input arm False c"
  have w: "wrote (char_mode_bytes (c_caps c)) 10 c ?c"
    using assms(1) by (intro char_mode_wrote) (simp_all add: telnet_line_slot_def)
  have c1: "ok" "tm1 = tm" "c1 = comm_clear_flag ?m ?c"
    using assms by (auto simp: set_char_input_comm_def telnet_line_slot_def)
  have m: "?m AND M_WEBSOCKET_STATE = 0" "\<not> has_flag ?m C_ENABLE_WEBSOCKET" "?m AND C_ENABLE_TELNET = 0"
    by (simp_all add: set_flag_def has_flag_def flag_defs)
  have cl: "\<not> has_flag (clear_flag f ?m) C_LINE_INPUT" "\<not> has_flag (clear_flag f ?m) C_CLIENT_ECHO"
    "has_flag (clear_flag f ?m) C_ENABLE_TELNET = has_flag f C_ENABLE_TELNET" for f
    using m(3) by (simp_all add: clear_flag_and_other has_flag_def) (simp_all add: clear_flag_def set_flag_def flag_defs and.assoc)
  show ?thesis
    using wrote_reflag(2) [OF w m(1,2)] w cl c1 assms(1)
    by (simp add: wrote_def mux_simps telnet_line_slot_def)
qed

lemma line_input_slot:
  assumes "slot \<noteq> COMM_SLOT_CONSOLE" "plain_slot c" "tail_fits 10 (c_outbound c)" "c_ssl c = None"
    and "comm_has_flag c C_ENABLE_TELNET" "\<not> comm_has_flag c C_LINE_INPUT"
    and "set_line_input_comm arm slot True c tm = (ok, c1, tm1)"
  shows "ok \<and> tm1 = tm \<and> c_caps c1 = c_caps c \<and> comm_has_flag c1 C_LINE_INPUT \<and> comm_has_flag c1 C_CLIENT_ECHO \<and>
    comm_has_flag c1 C_ENABLE_TELNET \<and>
    outbound_bytes (c_outbound c1) = outbound_bytes (c_outbound c) @ line_mode_bytes (c_caps c)"
proof -
  define c2 where "c2 = negotiate_telnet_line_input arm True c"
  define c3 where "c3 = comm_set_flag C_LINE_INPUT c2"
  define c4 where "c4 = (if telnet_echo (c_caps c3) then comm_telnet_send_wont arm TELOPT_ECHO c3 else c3)"
  have 2: "wrote (if telnet_linemode (c_caps c) then [255, 250, TELOPT_LINEMODE, 1, 1, 255, 240] else []) 3 c c2"
    unfolding c2_def using assms by (intro line_mode_wrote) simp_all
  have 3: "plain_slot c3 \<and> tail_fits 3 (c_outbound c3)"
    unfolding c3_def by (rule wrote_reflag(1) [OF 2]) (simp_all add: flag_defs has_flag_def)
  have 4: "wrote (if telnet_echo (c_caps c3) then [255, 252, TELOPT_ECHO] else []) 0 c3 c4"
    unfolding c4_def using 3 by (auto intro!: wrote_commands wrote_nothing elim: tail_fits_mono)
  have f3: "comm_has_flag c3 C_ENABLE_TELNET" "comm_has_flag c3 C_LINE_INPUT" "c_ssl c3 = None" "c_caps c3 = c_caps c"
    using 2 assms by (simp_all add: c3_def wrote_def mux_simps)
  have c1: "ok" "tm1 = tm" "c1 = comm_set_flag C_CLIENT_ECHO c4"
    using assms(1,5-7) f3
    by (auto simp: set_line_input_comm_def set_echo_comm_def set_client_echo_def c3_def c2_def c4_def Let_def)
  show ?thesis using c1 2 4 f3
    by (auto simp: wrote_def mux_simps c3_def line_mode_bytes_def)
qed

text \<open>
  C35. Switching a Telnet client to character mode and back. On a slot in line mode,
  \<^verbatim>\<open>comm_set_char_input\<close> followed by \<^verbatim>\<open>comm_set_line_input\<close> succeeds, queues exactly the
  negotiation for what the client supports (LINEMODE off and WILL ECHO, then LINEMODE on and WONT ECHO),
  leaves the slot without line input and echo in between, and restores both flags at the end.
\<close>

theorem char_mode_round_trip:
  assumes "telnet_line_slot slot c"
    and "set_char_input_comm arm slot c tm = (ok1, c1, tm1)"
    and "set_line_input_comm arm slot True c1 tm1 = (ok2, c2, tm2)"
  shows "ok1 \<and> ok2 \<and> tm2 = tm \<and> \<not> comm_has_flag c1 C_LINE_INPUT \<and> \<not> comm_has_flag c1 C_CLIENT_ECHO \<and>
    comm_has_flag c2 C_LINE_INPUT \<and> comm_has_flag c2 C_CLIENT_ECHO \<and>
    outbound_bytes (c_outbound c2) =
      outbound_bytes (c_outbound c) @ char_mode_bytes (c_caps c) @ line_mode_bytes (c_caps c)"
proof -
  note c1 = char_input_slot [OF assms(1,2)]
  have "slot \<noteq> COMM_SLOT_CONSOLE" using assms(1) by (simp add: telnet_line_slot_def)
  from line_input_slot [OF this _ _ _ _ _ assms(3)] c1 show ?thesis by auto
qed

theorem char_mode_round_trip_witness:
  "\<exists>c1 c2. set_char_input_comm (\<lambda>_. True) 5 (sample_slot\<lparr>c_flags := set_flag C_ENABLE_TELNET C_LINE_INPUT\<rparr>) None = (True, c1, None) \<and>
     set_line_input_comm (\<lambda>_. True) 5 True c1 None = (True, c2, None) \<and>
     outbound_bytes (c_outbound c2) = [1, 2, 3, 4, 5, 255, 251, 1]"
proof -
  let ?c = "sample_slot\<lparr>c_flags := set_flag C_ENABLE_TELNET C_LINE_INPUT\<rparr>"
  have l: "telnet_line_slot 5 ?c"
    using sample_slot_ok(1,2,3) by (simp add: telnet_line_slot_def plain_slot_def COMM_SLOT_CONSOLE_def mux_simps
        set_flag_def flag_defs has_flag_def C_WEBSOCKET_IS_READY_def C_WEBSOCKET_STATE_def)
  obtain ok1 c1 tm1 where 1: "set_char_input_comm (\<lambda>_. True) 5 ?c None = (ok1, c1, tm1)"
    by (metis prod_cases3)
  obtain ok2 c2 tm2 where 2: "set_line_input_comm (\<lambda>_. True) 5 True c1 tm1 = (ok2, c2, tm2)"
    by (metis prod_cases3)
  from char_input_slot [OF l 1] have "tm1 = None" by simp
  with char_mode_round_trip [OF l 1 2] 1 2 show ?thesis
    by (auto simp: char_mode_bytes_def line_mode_bytes_def no_capabilities_def TELOPT_ECHO_def)
qed

text \<open>
  On the console, asking for line input without echo puts the terminal out of canonical mode, and the
  slot still claims line input.
\<close>

lemma console_line_input_without_echo:
  "\<not> comm_has_flag c C_LINE_INPUT \<Longrightarrow>
   set_line_input_comm arm COMM_SLOT_CONSOLE False c (Some tio) =
     (True, comm_clear_flag C_CLIENT_ECHO (comm_set_flag C_LINE_INPUT c),
      Some (tio\<lparr>t_icanon := False, t_echo := False\<rparr>))"
  by (simp add: set_line_input_comm_def set_echo_comm_def set_client_echo_def)

end
