(* ===== verification/Inbound_Chain.thy ===== *)
theory Inbound_Chain
  imports Comm_Types Websocket_Handshake
begin

text \<open>
  The inbound buffer chain of \<^verbatim>\<open>lib/comm/inbound.cpp\<close>: copying and consuming a prefix of the data, finding
  and stripping a line, finding one unit of character input, and recycling buffers. \<^verbatim>\<open>mbrlen\<close> depends on
  the process locale and is a parameter.
\<close>

section \<open>Prefixes of the chain\<close>

definition SIZE_MAX :: nat where "SIZE_MAX = 2 ^ 64 - 1"

fun comm_copy_inbound_data_prefix :: "nat \<Rightarrow> inbound_buffer list \<Rightarrow> byte list" where
  "comm_copy_inbound_data_prefix limit [] = []"
| "comm_copy_inbound_data_prefix limit (b # bs) =
     (if limit = 0 then []
      else if ib_band b \<noteq> INBOUND_BAND_DATA \<or> length (ib_data b) \<le> ib_start b
      then comm_copy_inbound_data_prefix limit bs
      else let chunk = min (length (ib_data b) - ib_start b) limit in
           take chunk (drop (ib_start b) (ib_data b)) @ comm_copy_inbound_data_prefix (limit - chunk) bs)"

fun comm_consume_inbound_data :: "nat \<Rightarrow> inbound_buffer list \<Rightarrow> inbound_buffer list" where
  "comm_consume_inbound_data bytes [] = []"
| "comm_consume_inbound_data bytes (b # bs) =
     (if bytes = 0 then b # bs
      else if ib_band b \<noteq> INBOUND_BAND_DATA then comm_consume_inbound_data bytes bs
      else let available = length (ib_data b) - ib_start b in
           if available = 0 then comm_consume_inbound_data bytes bs
           else let consume = min available bytes; b' = b\<lparr>ib_start := ib_start b + consume\<rparr> in
                if ib_start b' \<ge> length (ib_data b') then comm_consume_inbound_data (bytes - consume) bs
                else b' # comm_consume_inbound_data (bytes - consume) bs)"

definition comm_has_pending_inbound :: "(comm_abstract \<Rightarrow> bool) \<Rightarrow> comm_abstract \<Rightarrow> bool" where
  "comm_has_pending_inbound websocket_pending c \<longleftrightarrow>
     comm_has_flag c C_DEFERRED_INBOUND \<or>
     list_ex (\<lambda>b. ib_start b < length (ib_data b)) (c_inbound c) \<or> websocket_pending c"

fun skip_non_data_head_buffers :: "inbound_buffer list \<Rightarrow> inbound_buffer list" where
  "skip_non_data_head_buffers [] = []"
| "skip_non_data_head_buffers (b # bs) =
     (if ib_band b \<noteq> INBOUND_BAND_DATA then skip_non_data_head_buffers bs else b # bs)"

text \<open>The current buffer is always the head of the chain.\<close>

fun recycle_current_inbound_buffer :: "inbound_buffer list \<Rightarrow> inbound_buffer list" where
  "recycle_current_inbound_buffer [] = []"
| "recycle_current_inbound_buffer (b # bs) = skip_non_data_head_buffers (bs @ [inbound_buffer_reset b])"

section \<open>Lines\<close>

definition is_eol :: "byte \<Rightarrow> bool" where
  "is_eol b \<longleftrightarrow> b = 13 \<or> b = 10 \<or> b = 0"

function strip_leading :: "nat \<Rightarrow> nat \<Rightarrow> byte list \<Rightarrow> nat \<times> byte list" where
  "strip_leading start line_end data =
     (if start < line_end \<and> isspace (data ! start) then strip_leading (start + 1) line_end (data[start := 0])
      else (start, data))"
  by pat_completeness auto
termination by (relation "measure (\<lambda>(start, line_end, data). line_end - start)") auto

function strip_trailing :: "nat \<Rightarrow> nat \<Rightarrow> byte list \<Rightarrow> nat \<times> byte list" where
  "strip_trailing start line_end data =
     (if start < line_end \<and> isspace (data ! (line_end - 1))
      then strip_trailing start (line_end - 1) (data[line_end - 1 := 0])
      else (line_end, data))"
  by pat_completeness auto
termination by (relation "measure (\<lambda>(start, line_end, data). line_end)") auto

declare strip_leading.simps [simp del] strip_trailing.simps [simp del]

text \<open>The first terminator from index \<open>i\<close> on.\<close>

function find_eol :: "byte list \<Rightarrow> nat \<Rightarrow> nat option" where
  "find_eol data i =
     (if i < length data then if is_eol (data ! i) then Some i else find_eol data (i + 1) else None)"
  by pat_completeness auto
termination by (relation "measure (\<lambda>(data, i). length data - i)") auto

declare find_eol.simps [simp del]

text \<open>
  The result is the index after the line, the length of the stripped line and the buffer with its new
  start and overwritten bytes.
\<close>

definition find_newline_and_strip :: "inbound_buffer \<Rightarrow> (nat \<times> nat \<times> inbound_buffer) option" where
  "find_newline_and_strip b =
     (let data = ib_data b; start = ib_start b in
      if start \<ge> length data then None
      else case find_eol data start of
        None \<Rightarrow> None
      | Some i \<Rightarrow>
          (let (line_end, ret, data1) =
             (if data ! i = 13 \<and> i + 1 < length data \<and> (data ! (i + 1) = 10 \<or> data ! (i + 1) = 0)
              then (i, i + 2, data[i + 1 := 0])
              else if (data ! i = 10 \<or> data ! i = 0) \<and> i > start \<and> data ! (i - 1) = 13
              then (i - 1, i + 1, data)
              else (i, i + 1, data));
             (start', data2) = strip_leading start line_end (data1[line_end := 0]);
             (line_end', data3) = strip_trailing start' line_end data2
           in Some (ret, line_end' - start', b\<lparr>ib_start := start', ib_data := data3\<rparr>)))"

section \<open>Character input\<close>

datatype mbr = Mbr_invalid | Mbr_incomplete | Mbr nat

definition isdigit :: "byte \<Rightarrow> bool" where "isdigit b \<longleftrightarrow> 48 \<le> b \<and> b \<le> 57"

function skip_parameters :: "byte list \<Rightarrow> nat \<Rightarrow> nat" where
  "skip_parameters data i =
     (if i < length data \<and> (isdigit (data ! i) \<or> data ! i = 59) then skip_parameters data (i + 1) else i)"
  by pat_completeness auto
termination by (relation "measure (\<lambda>(data, i). length data - i)") auto

declare skip_parameters.simps [simp del]

definition ansi_final :: "byte \<Rightarrow> bool" where
  "ansi_final b \<longleftrightarrow> (65 \<le> b \<and> b \<le> 90) \<or> (97 \<le> b \<and> b \<le> 122) \<or> b = 126"

definition multibyte_sequence :: "(byte list \<Rightarrow> mbr) \<Rightarrow> inbound_buffer \<Rightarrow> (nat \<times> nat) option" where
  "multibyte_sequence mbrlen b =
     (case mbrlen (drop (ib_start b) (ib_data b)) of
        Mbr_incomplete \<Rightarrow> None
      | Mbr_invalid \<Rightarrow> Some (ib_start b + 1, 1)
      | Mbr n \<Rightarrow> Some (ib_start b + n, n))"

text \<open>The index after the unit of input, and its length; \<open>None\<close> when more data is needed.\<close>

definition find_char_input_sequence ::
  "(byte list \<Rightarrow> mbr) \<Rightarrow> u32 \<Rightarrow> inbound_buffer \<Rightarrow> (nat \<times> nat) option" where
  "find_char_input_sequence mbrlen flags b =
     (let data = ib_data b; start = ib_start b in
      if start \<ge> length data then None
      else if has_flag flags C_ENABLE_ANSI \<and> data ! start = 27 then
        (if start + 1 \<ge> length data then None
         else if data ! (start + 1) = 91 then
           (let i = skip_parameters data (start + 2) in
            if i \<ge> length data then None
            else if ansi_final (data ! i) then Some (i + 1, i + 1 - start)
            else Some (start + 1, 1))
         else multibyte_sequence mbrlen b)
      else multibyte_sequence mbrlen b)"

section \<open>Bytes of the chain\<close>

definition inbound_bytes :: "inbound_buffer list \<Rightarrow> byte list" where
  "inbound_bytes bs = concat (map ib_unread (filter (\<lambda>b. ib_band b = INBOUND_BAND_DATA) bs))"

lemma inbound_bytes_simps [simp]:
  "inbound_bytes [] = []"
  "inbound_bytes (b # bs) = (if ib_band b = INBOUND_BAND_DATA then ib_unread b else []) @ inbound_bytes bs"
  "inbound_bytes (bs @ cs) = inbound_bytes bs @ inbound_bytes cs"
  by (simp_all add: inbound_bytes_def)

lemma copy_prefix_take: "comm_copy_inbound_data_prefix n bs = take n (inbound_bytes bs)"
  by (induction n bs rule: comm_copy_inbound_data_prefix.induct)
    (auto simp: ib_unread_def Let_def min_def)

lemma consume_zero [simp]: "comm_consume_inbound_data 0 bs = bs"
  by (cases bs) auto

lemma consume_drop: "inbound_bytes (comm_consume_inbound_data n bs) = drop n (inbound_bytes bs)"
  by (induction n bs rule: comm_consume_inbound_data.induct)
    (auto simp: ib_unread_def Let_def min_def not_le add.commute)

lemma consume_wf: "list_all ib_wf bs \<Longrightarrow> list_all ib_wf (comm_consume_inbound_data n bs)"
  by (induction n bs rule: comm_consume_inbound_data.induct) (auto simp: ib_wf_def Let_def)

lemma skip_non_data_bytes [simp]: "inbound_bytes (skip_non_data_head_buffers bs) = inbound_bytes bs"
  by (induction bs) auto

lemma recycle_bytes:
  "ib_unread b = [] \<Longrightarrow> inbound_bytes (recycle_current_inbound_buffer (b # bs)) = inbound_bytes bs"
  by (simp add: ib_unread_def inbound_buffer_reset_def)

section \<open>What stripping a line does\<close>

lemma drop_take_Suc: "s < e \<Longrightarrow> e \<le> length d \<Longrightarrow> take (e - s) (drop s d) = d ! s # take (e - Suc s) (drop (Suc s) d)"
  by (metis Cons_nth_drop_Suc Suc_diff_Suc order_less_le_trans take_Suc_Cons)

lemma drop_take_last:
  "s < e \<Longrightarrow> e \<le> length d \<Longrightarrow> take (e - s) (drop s d) = take (e - 1 - s) (drop s d) @ [d ! (e - 1)]"
proof -
  assume a: "s < e" "e \<le> length d"
  then have "e - s = Suc (e - 1 - s)" "e - 1 - s < length (drop s d)" by auto
  then show ?thesis using a by (simp only: take_Suc_conv_app_nth) simp
qed

lemma strip_leading_spec:
  "s \<le> e \<Longrightarrow> e \<le> length d \<Longrightarrow> strip_leading s e d = (s', d') \<Longrightarrow>
     s' = s + length (takeWhile isspace (take (e - s) (drop s d))) \<and> length d' = length d \<and> drop s' d' = drop s' d"
proof (induction s e d arbitrary: s' d' rule: strip_leading.induct)
  case (1 s e d)
  show ?case
  proof (cases "s < e \<and> isspace (d ! s)")
    case True
    then have r: "s + 1 \<le> e" "e \<le> length (d[s := 0])" "strip_leading (s + 1) e (d[s := 0]) = (s', d')"
      using 1(3,4) by (simp_all add: strip_leading.simps [of s])
    note ih = 1(1) [OF True r]
    then have "drop s' (d[s := 0]) = drop s' d" by (intro drop_update_cancel) simp
    with ih True 1(3) show ?thesis by (auto simp: drop_take_Suc)
  next
    case False
    then have "s' = s" "d' = d" using 1(4) by (auto simp: strip_leading.simps [of s] split: if_splits)
    with False 1(2,3) show ?thesis by (cases "s < e") (auto simp: drop_take_Suc)
  qed
qed

lemma strip_trailing_spec:
  "s \<le> e \<Longrightarrow> e \<le> length d \<Longrightarrow> strip_trailing s e d = (e', d') \<Longrightarrow>
     e' = s + length (dropWhile isspace (rev (take (e - s) (drop s d)))) \<and> e' \<le> e \<and> length d' = length d \<and>
     take e' d' = take e' d \<and> drop e d' = drop e d"
proof (induction s e d arbitrary: e' d' rule: strip_trailing.induct)
  case (1 s e d)
  show ?case
  proof (cases "s < e \<and> isspace (d ! (e - 1))")
    case True
    then have r: "s \<le> e - 1" "e - 1 \<le> length (d[e - 1 := 0])" "strip_trailing s (e - 1) (d[e - 1 := 0]) = (e', d')"
      using 1(3,4) by (auto simp: strip_trailing.simps [of s e])
    note ih = 1(1) [OF True r]
    have "take (e - 1 - s) (drop s (d[e - 1 := 0])) = take (e - 1 - s) (drop s d)"
      using r(1) by (simp add: drop_update_swap)
    moreover have "take e' (d[e - 1 := 0]) = take e' d" using ih by simp
    moreover have "drop e d' = drop 1 (drop (e - 1) (d[e - 1 := 0]))"
      using ih True by (metis Suc_pred' drop_drop less_nat_zero_code not_gr_zero plus_1_eq_Suc)
    then have "drop e d' = drop e d" using True by (simp add: drop_update_cancel)
    ultimately show ?thesis using ih True 1(3) by (auto simp: drop_take_last [of s e d])
  next
    case False
    then have "e' = e" "d' = d" using 1(4) by (auto simp: strip_trailing.simps [of s e] split: if_splits)
    with False 1(2,3) show ?thesis by (cases "s < e") (auto simp: drop_take_last)
  qed
qed

lemma find_eol_spec:
  "find_eol d i = (let j = length (takeWhile (\<lambda>b. \<not> is_eol b) (drop i d)) in
     if i + j < length d then Some (i + j) else None)"
proof (induction d i rule: find_eol.induct)
  case (1 d i)
  show ?case
  proof (cases "i < length d")
    case True
    then have "drop i d = d ! i # drop (i + 1) d" by (simp add: Cons_nth_drop_Suc)
    then show ?thesis using 1 True by (subst find_eol.simps) (simp add: Let_def)
  qed (subst find_eol.simps, simp add: Let_def)
qed

text \<open>The bytes that the terminator at the front of \<open>bs\<close> takes.\<close>

fun eol_length :: "byte list \<Rightarrow> nat" where
  "eol_length (b # c # bs) = (if b = 13 \<and> (c = 10 \<or> c = 0) then 2 else 1)"
| "eol_length _ = 1"

lemma eol_length_drop:
  assumes "i < length d"
  shows "eol_length (drop i d) =
    (if d ! i = 13 \<and> i + 1 < length d \<and> (d ! (i + 1) = 10 \<or> d ! (i + 1) = 0) then 2 else 1)"
proof (cases "i + 1 < length d")
  case True
  then have "drop i d = d ! i # d ! (i + 1) # drop (i + 2) d"
    using assms by (metis Cons_nth_drop_Suc Suc_eq_plus1 add_2_eq_Suc')
  then show ?thesis using True by simp
next
  case False
  then have "drop i d = [d ! i]" using assms by (simp add: Cons_nth_drop_Suc [symmetric])
  then show ?thesis using False by simp
qed

definition line_text :: "byte list \<Rightarrow> byte list" where
  "line_text bs = takeWhile (\<lambda>b. \<not> is_eol b) bs"

definition after_line :: "byte list \<Rightarrow> byte list" where
  "after_line bs = (let r = dropWhile (\<lambda>b. \<not> is_eol b) bs in drop (eol_length r) r)"

lemma find_newline_none:
  "find_newline_and_strip b = None \<longleftrightarrow> list_all (\<lambda>x. \<not> is_eol x) (ib_unread b)"
proof -
  let ?u = "drop (ib_start b) (ib_data b)"
  have *: "length (takeWhile (\<lambda>x. \<not> is_eol x) ?u) < length ?u \<longleftrightarrow> \<not> list_all (\<lambda>x. \<not> is_eol x) ?u"
    by (metis (mono_tags, lifting) length_takeWhile_le list_all_iff order_le_imp_less_or_eq order_less_irrefl
        takeWhile_eq_all_conv takeWhile_eq_take take_all_iff)
  show ?thesis
  proof (cases "ib_start b < length (ib_data b)")
    case True
    then have "ib_start b + length (takeWhile (\<lambda>x. \<not> is_eol x) ?u) < length (ib_data b) \<longleftrightarrow>
        length (takeWhile (\<lambda>x. \<not> is_eol x) ?u) < length ?u" by auto
    with True * show ?thesis
      by (auto simp: find_newline_and_strip_def Let_def find_eol_spec ib_unread_def split: prod.splits)
  qed (simp add: find_newline_and_strip_def ib_unread_def)
qed

lemma take_length_dropWhile_rev: "take (length (dropWhile P (rev xs))) xs = rev (dropWhile P (rev xs))"
proof -
  have "rev (rev xs) = rev (dropWhile P (rev xs)) @ rev (takeWhile P (rev xs))"
    by (metis rev_append takeWhile_dropWhile_id)
  then show ?thesis by (metis append_eq_conv_conj length_rev rev_rev_ident)
qed

lemma drop_length_takeWhile: "drop (length (takeWhile P xs)) xs = dropWhile P xs"
  by (induction xs) auto

lemma drop_eq_from:
  assumes "drop m xs = drop m ys" "m \<le> n"
  shows "drop n xs = drop n ys"
  using assms by (metis drop_drop le_add_diff_inverse2)

lemma strip_both:
  assumes "s \<le> i" "i \<le> length d"
    and "strip_leading s i d = (s', d2)" "strip_trailing s' i d2 = (e', d3)"
  shows "take (e' - s') (drop s' d3) = trim_ascii (take (i - s) (drop s d)) \<and>
    s \<le> s' \<and> s' \<le> e' \<and> e' \<le> i \<and> length d3 = length d \<and> drop i d3 = drop i d"
proof -
  define L where "L = take (i - s) (drop s d)"
  note l = strip_leading_spec [OF assms(1,2,3)]
  then have s': "s' = s + length (takeWhile isspace L)" by (simp add: L_def)
  have len: "length L = i - s" using assms(1,2) by (simp add: L_def)
  have le: "s \<le> s'" "s' \<le> i" using s' len length_takeWhile_le [of isspace L] assms(1) by auto
  have "take (i - s') (drop s' d) = drop (length (takeWhile isspace L)) L"
    by (simp add: L_def drop_take s' add.commute)
  moreover have "drop s' d2 = drop s' d" using l by blast
  ultimately have m: "take (i - s') (drop s' d2) = dropWhile isspace L"
    by (simp only: drop_length_takeWhile)
  note t = strip_trailing_spec [OF le(2) _ assms(4)]
  have t: "e' = s' + length (dropWhile isspace (rev (dropWhile isspace L)))" "e' \<le> i"
    "length d3 = length d" "take e' d3 = take e' d2" "drop i d3 = drop i d2"
    using t l assms(2) m by auto
  have "take (e' - s') (drop s' d3) = drop s' (take e' d2)"
    using t(4) by (metis drop_take)
  also have "\<dots> = take (e' - s') (take (i - s') (drop s' d2))"
    using t(2) le by (simp add: drop_take)
  also have "\<dots> = trim_ascii L"
    using t(1) by (simp add: m take_length_dropWhile_rev trim_ascii_def)
  finally have "take (e' - s') (drop s' d3) = trim_ascii (take (i - s) (drop s d))" by (simp add: L_def)
  moreover have "drop i d3 = drop i d"
    using t(5) drop_eq_from [of s' d2 d i] le l by metis
  ultimately show ?thesis using t(1,2,3) le by simp
qed

lemma find_newline_some:
  assumes "find_newline_and_strip b = Some (ret, n, b')"
  shows "take n (ib_unread b') = trim_ascii (line_text (ib_unread b)) \<and> drop ret (ib_data b') = after_line (ib_unread b) \<and>
    ib_start b < ret \<and> ret \<le> length (ib_data b') \<and> length (ib_data b') = length (ib_data b) \<and>
    ib_start b' + n < ret \<and> ib_band b' = ib_band b"
proof -
  define d where "d = ib_data b"
  define s where "s = ib_start b"
  define u where "u = drop s d"
  define i where "i = s + length (line_text u)"
  have lt: "s < length d" "find_eol d s = Some i" "i < length d"
    using assms by (auto simp: find_newline_and_strip_def d_def s_def find_eol_spec Let_def i_def u_def line_text_def
        split: if_splits option.splits)
  have rest: "dropWhile (\<lambda>b. \<not> is_eol b) u = drop i d"
    by (simp add: i_def u_def line_text_def add.commute flip: drop_length_takeWhile) 
  have tk: "take (i - s) (drop s d) = line_text u"
    by (simp add: i_def u_def line_text_def flip: takeWhile_eq_take)
  have noteol: "\<not> is_eol (d ! k)" if "s \<le> k" "k < i" for k
  proof -
    have "line_text u ! (k - s) = d ! k" using that lt by (simp flip: tk)
    moreover have "k - s < length (line_text u)" using that by (simp add: i_def)
    ultimately show ?thesis using nth_mem set_takeWhileD unfolding line_text_def by metis
  qed
  have eol: "is_eol (d ! i)"
    using rest lt by (metis (mono_tags, lifting) Cons_nth_drop_Suc dropWhile_eq_Cons_conv)
  define two where "two \<longleftrightarrow> d ! i = 13 \<and> i + 1 < length d \<and> (d ! (i + 1) = 10 \<or> d ! (i + 1) = 0)"
  define d1 where "d1 = (if two then d[i + 1 := 0] else d)[i := 0]"
  obtain s' d2 where a: "strip_leading s i d1 = (s', d2)" by fastforce
  obtain e' d3 where e: "strip_trailing s' i d2 = (e', d3)" by fastforce
  have "\<not> (i > s \<and> d ! (i - 1) = 13)" using noteol [of "i - 1"] by (auto simp: is_eol_def)
  then have "(if two then (i, i + 2, d[i + 1 := 0])
        else if (d ! i = 10 \<or> d ! i = 0) \<and> i > s \<and> d ! (i - 1) = 13 then (i - 1, i + 1, d)
        else (i, i + 1, d)) = (i, if two then i + 2 else i + 1, if two then d[i + 1 := 0] else d)"
    by auto
  then have "find_newline_and_strip b =
      Some (if two then i + 2 else i + 1, e' - s', b\<lparr>ib_start := s', ib_data := d3\<rparr>)"
    using lt a e unfolding find_newline_and_strip_def Let_def two_def d_def [symmetric] s_def [symmetric] d1_def
    by simp
  then have r: "ret = (if two then i + 2 else i + 1)" "n = e' - s'" "b' = b\<lparr>ib_start := s', ib_data := d3\<rparr>"
    using assms by simp_all
  have "s \<le> i" by (simp add: i_def)
  have d1: "length d1 = length d" "take (i - s) (drop s d1) = line_text u" "drop ret d1 = drop ret d"
    using \<open>s \<le> i\<close> r(1) by (auto simp: d1_def drop_update_swap tk two_def)
  note st = strip_both [OF \<open>s \<le> i\<close> _ a e, unfolded d1]
  have "drop ret d3 = drop ret d1"
    using drop_eq_from [of i d3 d1 ret] st lt r(1) by auto
  moreover have "after_line u = drop ret d"
    using lt by (auto simp: after_line_def Let_def rest r(1) two_def eol_length_drop)
  ultimately show ?thesis
    using st lt d1 r eol \<open>s \<le> i\<close>
    by (auto simp: ib_unread_def u_def [symmetric] d_def [symmetric] s_def [symmetric] two_def)
qed

end
