(* ===== verification/Connection.thy ===== *)
theory Connection
  imports Telnet_Control Websocket_Inbound Websocket_Handshake Inbound_Chain "HOL-Library.Monad_Syntax"
begin

text \<open>
  The life of a connection between the transport and the application: the connect and transport-ready
  hooks and their completions (\<^verbatim>\<open>inbound.cpp\<close>), the TLS handshake step (\<^verbatim>\<open>ssl.cpp\<close>), flushing and
  closing (\<^verbatim>\<open>outbound.cpp\<close>).

  These functions call the scheduler, which in strict mode runs an application hook inside the call. The
  hook may change any slot and may close its own, so the functions work on the whole state and look the slot
  up again after every dispatch, as \<^verbatim>\<open>comm_abstract_ptr\<close> does. A function returns \<open>None\<close> when it does not
  return to its caller: an access through a null slot pointer, an exception of a hook, or a transport that
  takes no byte forever.
\<close>

section \<open>State and environment\<close>

record 'x world =
  w_slots :: slot_table
  w_deferred :: bool
  w_terminal :: "terminal option"
  w_shutdown :: bool
  w_released :: "release list"
  w_ext :: 'x

datatype read_outcome = Read_data "byte list" | Read_retry | Read_closed

datatype handshake = Hs_finished | Hs_done | Hs_want_read | Hs_want_write | Hs_failed

text \<open>
  What the functions call: the scheduler (\<open>sv_dispatch\<close>, \<open>sv_async\<close>, \<open>sv_busy\<close>, \<open>sv_cancel\<close>: the operations of
  \<^verbatim>\<open>execution.cpp\<close> on the rest \<open>'x\<close> of the state), the runtime, OpenSSL and the console.
\<close>

record 'x services =
  sv_dispatch :: "mudmux_execution \<Rightarrow> 'x world \<Rightarrow> (mudmux_dispatch_result \<times> 'x world) option"
  sv_async :: "mudmux_hook_type \<Rightarrow> bool"
  sv_busy :: "int \<Rightarrow> 'x world \<Rightarrow> bool"
  sv_cancel :: "int \<Rightarrow> 'x world \<Rightarrow> 'x world"
  sv_hooked :: "mudmux_hook_type \<Rightarrow> bool"
  sv_arm :: "nat option \<Rightarrow> bool"
  sv_modify :: "int \<Rightarrow> bool \<Rightarrow> 'x \<Rightarrow> 'x"
  sv_remove_fd :: "int \<Rightarrow> 'x \<Rightarrow> 'x"
  sv_post_error :: "int \<Rightarrow> 'x \<Rightarrow> 'x"
  sv_send :: "comm_abstract \<Rightarrow> 'x \<Rightarrow> byte list \<Rightarrow> write_outcome \<times> 'x"
  sv_handshake :: "nat \<Rightarrow> 'x \<Rightarrow> handshake \<times> 'x"
  sv_ssl_shutdown :: "nat \<Rightarrow> 'x \<Rightarrow> 'x"
  sv_shutdown_wr :: "nat option \<Rightarrow> 'x \<Rightarrow> 'x"
  sv_bio_fd :: "nat \<Rightarrow> int"
  sv_unix_path :: "nat \<Rightarrow> byte list option"
  sv_file_inputs :: bool
  sv_console_eof :: "'x \<Rightarrow> 'x"
  sv_sha1 :: "byte list \<Rightarrow> byte list option"
  sv_b64 :: "byte list \<Rightarrow> byte list option"
  sv_mbrlen :: "byte list \<Rightarrow> mbr"
  sv_ssl_read :: "nat \<Rightarrow> 'x \<Rightarrow> read_outcome \<times> bool \<times> 'x"
  sv_bio_read :: "nat option \<Rightarrow> 'x \<Rightarrow> read_outcome \<times> 'x"
  sv_entry_name :: "int \<Rightarrow> slot_table \<Rightarrow> byte list"

definition comm_at :: "int \<Rightarrow> 'x world \<Rightarrow> comm_abstract option" where
  "comm_at slot w = comm_abstract_get (w_slots w) slot"

definition put_comm :: "int \<Rightarrow> comm_abstract \<Rightarrow> 'x world \<Rightarrow> 'x world" where
  "put_comm slot c w = w\<lparr>w_slots := set_slot slot c (w_slots w)\<rparr>"

text \<open>An update through the slot pointer; \<open>None\<close> when it is null.\<close>

definition via_comm :: "int \<Rightarrow> (comm_abstract \<Rightarrow> comm_abstract) \<Rightarrow> 'x world \<Rightarrow> 'x world option" where
  "via_comm slot f w = map_option (\<lambda>c. put_comm slot (f c) w) (comm_at slot w)"

definition on_ext :: "('x \<Rightarrow> 'x) \<Rightarrow> 'x world \<Rightarrow> 'x world" where
  "on_ext f w = w\<lparr>w_ext := f (w_ext w)\<rparr>"

definition hook_execution :: "mudmux_hook_type \<Rightarrow> int \<Rightarrow> int \<Rightarrow> byte list \<Rightarrow> nat option \<Rightarrow> mudmux_execution" where
  "hook_execution t msg cur data completion =
     \<lparr>e_target = Inl t, e_msg = msg, e_current_slot = cur, e_registration = None,
      e_payload = data, e_completion = completion\<rparr>"

text \<open>Identities of the completion callbacks.\<close>

definition resume_after_transport_ready_hook :: nat where "resume_after_transport_ready_hook = 1"
definition resume_after_connect_hook :: nat where "resume_after_connect_hook = 2"
definition resume_after_inbound_hook :: nat where "resume_after_inbound_hook = 3"
definition disconnect_hook_complete :: nat where "disconnect_hook_complete = 4"

section \<open>Connect and transport ready\<close>

definition comm_invoke_transport_ready :: "'x services \<Rightarrow> int \<Rightarrow> 'x world \<Rightarrow> 'x world option" where
  "comm_invoke_transport_ready S slot w =
     (if slot < 0 then Some w
      else case comm_at slot w of
        None \<Rightarrow> Some w
      | Some c \<Rightarrow>
          if comm_has_flag c C_CLOSING \<or> comm_has_flag c C_TRANSPORT_READY then Some w
          else if c_ssl c \<noteq> None \<and> \<not> comm_has_flag c C_TLS_ESTABLISHED then Some w
          else if comm_has_flag c C_ENABLE_WEBSOCKET \<and> \<not> C_WEBSOCKET_IS_READY (c_flags c) then Some w
          else let await_ready_hook = sv_async S HOOK_TRANSPORT_READY;
                   c1 = comm_set_flag C_TRANSPORT_READY c;
                   c2 = (if await_ready_hook then comm_set_flag C_AWAITING_HOOK c1 else c1) in
               do {
                 (r, w1) \<leftarrow> sv_dispatch S
                   (hook_execution HOOK_TRANSPORT_READY slot slot []
                      (if await_ready_hook then Some resume_after_transport_ready_hook else None))
                   (put_comm slot c2 w);
                 if mudmux_dispatch_accepted r then Some w1
                 else via_comm slot (comm_clear_flag (set_flag C_TRANSPORT_READY C_AWAITING_HOOK)) w1
               })"

definition resume_input_after_transport_ready_hook :: "int \<Rightarrow> 'x world \<Rightarrow> 'x world" where
  "resume_input_after_transport_ready_hook slot w =
     (case comm_at slot w of
        None \<Rightarrow> w
      | Some c \<Rightarrow>
          (put_comm slot (comm_set_flag C_DEFERRED_INBOUND
             (if comm_has_flag c C_CLOSING then c else comm_clear_flag C_AWAITING_HOOK c)) w)
          \<lparr>w_deferred := True\<rparr>)"

definition resume_input_after_connect_hook :: "'x services \<Rightarrow> int \<Rightarrow> 'x world \<Rightarrow> 'x world option" where
  "resume_input_after_connect_hook S slot w =
     (case comm_at slot w of
        None \<Rightarrow> Some w
      | Some c \<Rightarrow> do {
          w1 \<leftarrow> comm_invoke_transport_ready S slot
            (if comm_has_flag c C_CLOSING then w else put_comm slot (comm_clear_flag C_AWAITING_HOOK c) w);
          w2 \<leftarrow> via_comm slot (comm_set_flag C_DEFERRED_INBOUND) w1;
          Some (w2\<lparr>w_deferred := True\<rparr>)
        })"

definition resume_input_after_inbound_hook :: "int \<Rightarrow> 'x world \<Rightarrow> 'x world" where
  "resume_input_after_inbound_hook slot w =
     (case comm_at slot w of
        None \<Rightarrow> w
      | Some c \<Rightarrow> (put_comm slot (comm_set_flag C_DEFERRED_INBOUND c) w)\<lparr>w_deferred := True\<rparr>)"

definition comm_invoke_connect ::
  "'x services \<Rightarrow> int \<Rightarrow> int \<Rightarrow> 'x world \<Rightarrow> (mudmux_dispatch_result \<times> 'x world) option" where
  "comm_invoke_connect S slot entry_slot w =
     (let await_connect_hook = sv_async S HOOK_CONNECT;
          w0 = (if await_connect_hook then
                  (case comm_at slot w of None \<Rightarrow> w | Some c \<Rightarrow> put_comm slot (comm_set_flag C_AWAITING_HOOK c) w)
                else w) in
      do {
        (r, w1) \<leftarrow> sv_dispatch S
          (hook_execution HOOK_CONNECT slot slot (sv_entry_name S entry_slot (w_slots w))
             (if await_connect_hook then Some resume_after_connect_hook else None)) w0;
        let w2 = (if await_connect_hook \<and> \<not> mudmux_dispatch_accepted r then
                    (case comm_at slot w1 of
                       None \<Rightarrow> w1 | Some c \<Rightarrow> put_comm slot (comm_clear_flag C_AWAITING_HOOK c) w1)
                  else w1);
        w3 \<leftarrow> (if await_connect_hook then Some w2 else comm_invoke_transport_ready S slot w2);
        Some (r, w3)
      })"

section \<open>TLS handshake\<close>

definition socket_of :: "'x services \<Rightarrow> nat option \<Rightarrow> int option" where
  "socket_of S bio = comm_bio_get_socket_fd (sv_bio_fd S) bio"

definition update_slot_event_interest :: "'x services \<Rightarrow> comm_abstract \<Rightarrow> bool \<Rightarrow> 'x world \<Rightarrow> 'x world" where
  "update_slot_event_interest S c want_write w =
     (case socket_of S (c_rbio c) of
        None \<Rightarrow> w
      | Some fd \<Rightarrow> on_ext (sv_modify S fd (want_write \<or> comm_has_flag c C_SOCKET_WRITABLE)) w)"

definition comm_tls_handshake_step :: "'x services \<Rightarrow> int \<Rightarrow> 'x world \<Rightarrow> (int \<times> 'x world) option" where
  "comm_tls_handshake_step S slot w =
     (if slot < 0 then Some (-1, w)
      else case comm_at slot w of
        None \<Rightarrow> Some (-1, w)
      | Some c \<Rightarrow>
          (case c_ssl c of
             None \<Rightarrow> Some (1, w)
           | Some ssl \<Rightarrow>
               if comm_has_flag c C_TLS_ESTABLISHED then Some (1, w)
               else (case sv_handshake S ssl (w_ext w) of
                       (h, x) \<Rightarrow>
                         (let c1 = comm_set_flag C_TLS_ESTABLISHED c; w1 = w\<lparr>w_ext := x\<rparr> in
                          (case h of
                             Hs_finished \<Rightarrow> map_option (Pair 1) (comm_invoke_transport_ready S slot (put_comm slot c1 w1))
                           | Hs_done \<Rightarrow> map_option (Pair 1)
                               (comm_invoke_transport_ready S slot
                                 (update_slot_event_interest S c1 False (put_comm slot c1 w1)))
                           | Hs_want_read \<Rightarrow> Some (0, update_slot_event_interest S c False w1)
                           | Hs_want_write \<Rightarrow> Some (0, update_slot_event_interest S c True w1)
                           | Hs_failed \<Rightarrow> Some (-1, w1))))))"

section \<open>Flushing\<close>

text \<open>The write loop; after a failed write the output is dropped and the error reported to the event loop.\<close>

definition flush_outbound :: "'x services \<Rightarrow> int \<Rightarrow> 'x world \<Rightarrow> 'x world option" where
  "flush_outbound S slot w =
     do {
       c \<leftarrow> comm_at slot w;
       (st, sent, rest, x) \<leftarrow> flush_chain (sv_send S c)
         (length (outbound_bytes (c_outbound c)) + length (c_outbound c)) (w_ext w) (c_outbound c);
       let w1 = w\<lparr>w_ext := x\<rparr>;
       Some (if st = Broken then
               (let closing = comm_has_flag c C_CLOSING;
                    c1 = (if c_ssl c \<noteq> None \<and> closing then comm_clear_flag C_TLS_ESTABLISHED c else c);
                    w2 = put_comm slot (comm_clear_flag C_BUFFERED_WRITE (comm_free_outbound_buffers c1)) w1
                in if closing then w2 else on_ext (sv_post_error S slot) w2)
             else put_comm slot (c\<lparr>c_outbound := rest\<rparr>) w1)
     }"

text \<open>The last part: readiness interest, the buffered-write flag and the shutdown of a closing connection.\<close>

definition finish_flush :: "'x services \<Rightarrow> int \<Rightarrow> 'x world \<Rightarrow> 'x world option" where
  "finish_flush S slot w =
     do {
       c \<leftarrow> comm_at slot w;
       (case socket_of S (c_wbio c) of
          None \<Rightarrow> Some w
        | Some fd \<Rightarrow>
            if c_outbound c \<noteq> [] then
              (if comm_has_flag c C_SOCKET_WRITABLE then Some w
               else Some (on_ext (sv_modify S fd True) (put_comm slot (comm_set_flag C_SOCKET_WRITABLE c) w)))
            else
              (let w1 = (if comm_has_flag c C_SOCKET_WRITABLE then on_ext (sv_modify S fd False) w else w);
                   c1 = comm_clear_flag C_BUFFERED_WRITE (comm_clear_flag C_SOCKET_WRITABLE c);
                   w2 = put_comm slot c1 w1;
                   waiting_for_websocket_close =
                     (C_WEBSOCKET_IS_READY (c_flags c1) \<and> C_WEBSOCKET_STATE (c_flags c1) \<noteq> WS_CLOSE_RECEIVED)
               in Some (if comm_has_flag c1 C_CLOSING \<and> \<not> waiting_for_websocket_close then
                          (case c_ssl c1 of
                             Some ssl \<Rightarrow> on_ext (if comm_has_flag c1 C_TLS_ESTABLISHED then sv_ssl_shutdown S ssl
                                                 else sv_shutdown_wr S (c_wbio c1)) w2
                           | None \<Rightarrow> on_ext (sv_shutdown_wr S (c_wbio c1)) w2)
                        else w2)))
     }"

definition flush_handshake :: "'x services \<Rightarrow> int \<Rightarrow> comm_abstract \<Rightarrow> 'x world \<Rightarrow> (bool \<times> 'x world) option" where
  "flush_handshake S slot c w =
     (if c_ssl c \<noteq> None \<and> \<not> comm_has_flag c C_TLS_ESTABLISHED \<and> \<not> comm_has_flag c C_CLOSING then
        do {
          (hs, w1) \<leftarrow> comm_tls_handshake_step S slot w;
          if hs < 0 then
            do { c1 \<leftarrow> comm_at slot w1;
                 Some (False, if comm_has_flag c1 C_CLOSING then w1 else on_ext (sv_post_error S slot) w1) }
          else if hs = 0 then do { _ \<leftarrow> comm_at slot w1; Some (False, w1) }
          else Some (True, w1)
        }
      else Some (True, w))"

text \<open>
  \<open>comm_flush\<close> calls itself once the HTTP 101 response has drained and once the upgrade barrier is released;
  the first argument bounds the depth of these calls.
\<close>

fun comm_flush :: "nat \<Rightarrow> 'x services \<Rightarrow> int \<Rightarrow> 'x world \<Rightarrow> 'x world option" where
  "comm_flush 0 S slot w = None"
| "comm_flush (Suc n) S slot w =
     (case comm_at slot w of
        None \<Rightarrow> Some w
      | Some c0 \<Rightarrow>
          if c_wbio c0 = None then Some w
          else do {
            (go, w1) \<leftarrow> flush_handshake S slot c0 w;
            if \<not> go then Some w1
            else do {
              w2 \<leftarrow> flush_outbound S slot w1;
              c \<leftarrow> comm_at slot w2;
              let pending = (c_outbound c = [] \<and> C_WEBSOCKET_STATE (c_flags c) = WS_TELNET_PENDING);
              let c1 = (if pending then c\<lparr>c_flags := C_WEBSOCKET_SET_STATE (c_flags c) WS_READY\<rparr> else c);
              if pending \<and> \<not> comm_has_flag c1 C_CLOSING
              then comm_flush n S slot (put_comm slot (comm_start_telnet_negotiation (sv_arm S) c1) w2)
              else if c_outbound c1 = [] \<and> C_WEBSOCKET_IS_READY (c_flags c1) \<and> c_websocket_upgrade_barrier c1 \<noteq> []
              then do {
                w3 \<leftarrow> comm_invoke_transport_ready S slot
                  (put_comm slot (comm_set_flag C_BUFFERED_WRITE
                     (c1\<lparr>c_outbound := c_websocket_upgrade_barrier c1, c_websocket_upgrade_barrier := []\<rparr>)) w2);
                if comm_at slot w3 = None then Some w3 else comm_flush n S slot w3
              }
              else do {
                w3 \<leftarrow> (if c_outbound c1 = [] \<and> C_WEBSOCKET_IS_READY (c_flags c1)
                       then comm_invoke_transport_ready S slot (put_comm slot c1 w2)
                       else Some (put_comm slot c1 w2));
                finish_flush S slot w3
              }
            }
          })"

section \<open>Closing\<close>

text \<open>The disconnect hook of a slot: \<open>False\<close> when the close must wait for it.\<close>

definition close_disconnect :: "'x services \<Rightarrow> int \<Rightarrow> comm_abstract \<Rightarrow> 'x world \<Rightarrow> (bool \<times> 'x world) option" where
  "close_disconnect S slot c w =
     do {
       w1 \<leftarrow> via_comm slot (comm_set_flag C_AWAITING_HOOK)
         (sv_cancel S slot (put_comm slot (comm_clear_flag C_DISCONNECT_PENDING (comm_set_flag C_CLOSING c)) w));
       (r, w2) \<leftarrow> sv_dispatch S (hook_execution HOOK_DISCONNECT slot (-1) [] (Some disconnect_hook_complete)) w1;
       if r = MUDMUX_DISPATCH_QUEUE_FULL then
         do { w3 \<leftarrow> via_comm slot (\<lambda>c. comm_clear_flag C_AWAITING_HOOK (comm_set_flag C_DISCONNECT_PENDING c)) w2;
              Some (False, w3) }
       else
         do { w3 \<leftarrow> (if mudmux_dispatch_accepted r then Some w2
                     else via_comm slot (comm_clear_flag C_AWAITING_HOOK) w2);
              w4 \<leftarrow> via_comm slot (comm_clear_flag C_ENABLE_PROMPT) w3;
              Some (r \<noteq> MUDMUX_DISPATCH_QUEUED, w4) }
     }"

definition close_remove :: "'x services \<Rightarrow> int \<Rightarrow> 'x world \<Rightarrow> 'x world" where
  "close_remove S slot w =
     (case comm_abstract_remove (sv_unix_path S) (w_slots w) slot of
        (rel, t) \<Rightarrow> w\<lparr>w_slots := t, w_released := w_released w @ rel\<rparr>)"

text \<open>From the second test of the await flag on.\<close>

definition close_transport :: "'x services \<Rightarrow> int \<Rightarrow> bool \<Rightarrow> comm_abstract \<Rightarrow> 'x world \<Rightarrow> bool \<times> 'x world" where
  "close_transport S slot signal_console_eof c w =
     (if comm_has_flag c C_AWAITING_HOOK then (False, w)
      else if slot = COMM_SLOT_CONSOLE then
        (let w1 = put_comm slot (comm_clear_flag C_BUFFERED_WRITE (comm_free_outbound_buffers c)) w in
         if sv_file_inputs S then (True, (close_remove S slot w1)\<lparr>w_shutdown := True\<rparr>)
         else (False, if signal_console_eof then on_ext (sv_console_eof S) w1 else w1))
      else
        (let early_tls = (c_ssl c \<noteq> None \<and> \<not> comm_has_flag c C_TLS_ESTABLISHED) in
         if comm_has_flag c C_BUFFERED_WRITE \<and> \<not> early_tls then (False, w)
         else
           (let c1 = (if comm_has_flag c C_BUFFERED_WRITE
                      then comm_clear_flag C_BUFFERED_WRITE (comm_free_outbound_buffers c) else c);
                w1 = put_comm slot c1 w;
                st = C_WEBSOCKET_STATE (c_flags c1) in
            if C_WEBSOCKET_IS_READY (c_flags c1) \<and> st \<noteq> WS_CLOSE_SENT \<and> st \<noteq> WS_CLOSE_RECEIVED
            then (False, put_comm slot (snd (comm_websocket_queue_close (sv_arm S) [0x03, 0xe8] c1)) w1)
            else if C_WEBSOCKET_IS_READY (c_flags c1) \<and> st \<noteq> WS_CLOSE_RECEIVED then (False, w1)
            else
              (let w2 = (case c_ssl c1 of
                           Some ssl \<Rightarrow> if comm_has_flag c1 C_TLS_ESTABLISHED then on_ext (sv_ssl_shutdown S ssl) w1 else w1
                         | None \<Rightarrow> w1);
                   drop_fd = (\<lambda>bio w. case socket_of S bio of None \<Rightarrow> w | Some fd \<Rightarrow> on_ext (sv_remove_fd S fd) w);
                   w3 = drop_fd (c_wbio c1) (drop_fd (c_rbio c1) w2)
               in (True, close_remove S slot w3)))))"

definition comm_close_impl :: "'x services \<Rightarrow> int \<Rightarrow> bool \<Rightarrow> 'x world \<Rightarrow> (bool \<times> 'x world) option" where
  "comm_close_impl S slot signal_console_eof w =
     (case comm_at slot w of
        None \<Rightarrow> Some (True, w)
      | Some c \<Rightarrow>
          do {
            (go, w1) \<leftarrow> (if \<not> comm_has_flag c C_CLOSING \<or> comm_has_flag c C_DISCONNECT_PENDING
                        then close_disconnect S slot c w else Some (True, w));
            if \<not> go then Some (False, w1)
            else do { c1 \<leftarrow> comm_at slot w1; Some (close_transport S slot signal_console_eof c1 w1) }
          })"

definition comm_close :: "'x services \<Rightarrow> int \<Rightarrow> 'x world \<Rightarrow> (bool \<times> 'x world) option" where
  "comm_close S slot w = comm_close_impl S slot True w"

definition comm_close_after_console_eof :: "'x services \<Rightarrow> int \<Rightarrow> 'x world \<Rightarrow> (bool \<times> 'x world) option" where
  "comm_close_after_console_eof S slot w = comm_close_impl S slot False w"

definition disconnect_complete :: "int \<Rightarrow> 'x world \<Rightarrow> 'x world" where
  "disconnect_complete slot w =
     (case comm_at slot w of None \<Rightarrow> w | Some c \<Rightarrow> put_comm slot (comm_clear_flag C_AWAITING_HOOK c) w)"

definition comm_invoke_disconnect ::
  "'x services \<Rightarrow> int \<Rightarrow> 'x world \<Rightarrow> (mudmux_dispatch_result \<times> 'x world) option" where
  "comm_invoke_disconnect S slot w = sv_dispatch S (hook_execution HOOK_DISCONNECT slot (-1) [] None) w"

text \<open>The slots of the two loops of \<^verbatim>\<open>comm_flush_all\<close>, in their order.\<close>

fun flush_slots :: "nat \<Rightarrow> 'x services \<Rightarrow> int list \<Rightarrow> 'x world \<Rightarrow> 'x world option" where
  "flush_slots n S [] w = Some w"
| "flush_slots n S (slot # slots) w = do { w1 \<leftarrow> comm_flush n S slot w; flush_slots n S slots w1 }"

fun progress_slots :: "'x services \<Rightarrow> int list \<Rightarrow> 'x world \<Rightarrow> 'x world option" where
  "progress_slots S [] w = Some w"
| "progress_slots S (slot # slots) w =
     (case comm_at slot w of
        Some c \<Rightarrow>
          if comm_has_flag c C_CLOSING \<and> \<not> comm_has_flag c C_AWAITING_HOOK
          then do { (_, w1) \<leftarrow> comm_close S slot w; progress_slots S slots w1 }
          else progress_slots S slots w
      | None \<Rightarrow> progress_slots S slots w)"

definition comm_flush_all :: "nat \<Rightarrow> 'x services \<Rightarrow> 'x world \<Rightarrow> 'x world option" where
  "comm_flush_all n S w =
     do {
       w1 \<leftarrow> flush_slots n S (rev [0..comm_max_slot (w_slots w)]) w;
       progress_slots S (rev [0..comm_max_slot (w_slots w1) - 1]) w1
     }"

section \<open>Output of the application\<close>

definition comm_buffered_write :: "'x services \<Rightarrow> tls \<Rightarrow> int \<Rightarrow> byte list \<Rightarrow> 'x world \<Rightarrow> 'x world" where
  "comm_buffered_write S loc slot buf w =
     (let own = (current_hook_type loc = HOOK_MESSAGE_OUTBOUND \<or> current_hook_type loc = HOOK_PROMPT) in
      if own \<and> (current_slot loc < 0 \<or> slot \<noteq> current_slot loc) then w
      else if sv_hooked S HOOK_MESSAGE_OUTBOUND \<and> \<not> own then w
      else case comm_at slot w of
        None \<Rightarrow> w
      | Some c \<Rightarrow>
          (let c1 = (if comm_has_flag c C_ENABLE_PROMPT \<and> \<not> comm_has_flag c C_LINE_INPUT \<and>
                        current_hook_type loc \<noteq> HOOK_PROMPT
                     then comm_clear_flag C_INVOKED_PROMPT c else c)
           in put_comm slot (comm_buffered_write_comm (sv_arm S) buf c1) w))"

definition comm_add_message :: "'x services \<Rightarrow> tls \<Rightarrow> int \<Rightarrow> byte list \<Rightarrow> 'x world \<Rightarrow> 'x world option" where
  "comm_add_message S loc to_slot buf w =
     (if buf = [] then Some w
      else if current_hook_type loc = HOOK_MESSAGE_OUTBOUND \<or> current_hook_type loc = HOOK_PROMPT then Some w
      else if \<not> sv_hooked S HOOK_MESSAGE_OUTBOUND then Some (comm_buffered_write S loc to_slot buf w)
      else map_option snd (sv_dispatch S (hook_execution HOOK_MESSAGE_OUTBOUND to_slot (-1) buf None) w))"

text \<open>\<open>formatted_size\<close> and \<open>message\<close> are what the two calls of \<^verbatim>\<open>vsnprintf\<close> return and write.\<close>

definition comm_add_vformatted_message ::
  "'x services \<Rightarrow> tls \<Rightarrow> int \<Rightarrow> int \<Rightarrow> byte list \<Rightarrow> 'x world \<Rightarrow> 'x world option" where
  "comm_add_vformatted_message S loc to_slot formatted_size message w =
     (if formatted_size \<le> 0 then Some w
      else if int (length message) \<noteq> formatted_size then Some w
      else comm_add_message S loc to_slot message w)"

section \<open>Slots of the state\<close>

text \<open>The slot array has the length the table says; this is what the accessors rely on.\<close>

definition sized_table :: "slot_table \<Rightarrow> bool" where
  "sized_table t \<longleftrightarrow> (case all_comms t of None \<Rightarrow> True | Some cs \<Rightarrow> length cs = max_comms t)"

definition world_wf :: "'x world \<Rightarrow> bool" where
  "world_wf w \<longleftrightarrow> sized_table (w_slots w)"

lemma comm_at_used: "comm_at slot w = Some c \<Longrightarrow> comm_used c"
  using resolve_ptr by (auto simp: comm_at_def comm_abstract_get_def)

lemma comm_at_put:
  assumes "world_wf w" "comm_at slot w = Some c" "comm_used c'"
  shows "comm_at s (put_comm slot c' w) = (if s = slot then Some c' else comm_at s w)"
    and "world_wf (put_comm slot c' w)"
proof -
  have "slot_ptr_unlocked (w_slots w) slot = Some c"
    using assms(2) resolve_ptr by (auto simp: comm_at_def comm_abstract_get_def)
  then obtain cs where cs: "all_comms (w_slots w) = Some cs" "0 \<le> slot" "slot < int (max_comms (w_slots w))"
    "length cs = max_comms (w_slots w)"
    using assms(1) by (auto simp: slot_ptr_unlocked_def world_wf_def sized_table_def split: option.splits if_splits)
  then have "slot_ptr_unlocked (set_slot slot c' (w_slots w)) s =
      (if s = slot then Some c' else slot_ptr_unlocked (w_slots w) s)"
    by (auto simp: slot_ptr_unlocked_def set_slot_def nth_list_update eq_nat_nat_iff)
  then show "comm_at s (put_comm slot c' w) = (if s = slot then Some c' else comm_at s w)"
    using assms(3) by (simp add: comm_at_def comm_abstract_get_def put_comm_def resolve_slot_unlocked_def)
  show "world_wf (put_comm slot c' w)"
    using cs by (simp add: world_wf_def sized_table_def put_comm_def set_slot_def)
qed

lemma put_comm_fields [simp]:
  "w_ext (put_comm slot c w) = w_ext w" "w_deferred (put_comm slot c w) = w_deferred w"
  "w_terminal (put_comm slot c w) = w_terminal w" "w_shutdown (put_comm slot c w) = w_shutdown w"
  "w_released (put_comm slot c w) = w_released w"
  by (simp_all add: put_comm_def)

text \<open>Output never touches the input buffers or the transport of a slot.\<close>

definition same_input :: "comm_abstract \<Rightarrow> comm_abstract \<Rightarrow> bool" where
  "same_input c c' \<longleftrightarrow> c_inbound c' = c_inbound c \<and> c_rbio c' = c_rbio c \<and> c_wbio c' = c_wbio c \<and>
     c_generation c' = c_generation c"

lemma same_input_used: "same_input c c' \<Longrightarrow> comm_used c' = comm_used c"
  by (simp add: same_input_def comm_used_def)

lemma same_input_refl: "same_input c c"
  by (simp add: same_input_def)

lemma raw_write_same_input: "same_input c (comm_buffered_write_raw_comm arm buf c)"
  by (simp add: same_input_def raw_write_cases)

lemma barrier_same_input: "same_input c (snd (append_websocket_upgrade_barrier buf c))"
  by (auto simp: same_input_def append_websocket_upgrade_barrier_def mux_simps Let_def split: prod.splits)

lemma write_same_input: "same_input c (comm_buffered_write_comm arm buf c)"
  unfolding comm_buffered_write_comm_def comm_buffered_write_comm_impl_def Let_def
  by (simp add: raw_write_same_input barrier_same_input same_input_refl split: option.split)

lemma world_fields [simp]:
  "comm_at slot (w\<lparr>w_terminal := tm\<rparr>) = comm_at slot w" "comm_at slot (w\<lparr>w_deferred := d\<rparr>) = comm_at slot w"
  "world_wf (w\<lparr>w_terminal := tm\<rparr>) = world_wf w" "world_wf (w\<lparr>w_deferred := d\<rparr>) = world_wf w"
  by (simp_all add: comm_at_def world_wf_def)

end
