(* ===== verification/Inbound.thy ===== *)
theory Inbound
  imports Connection
begin

text \<open>
  Input processing of \<^verbatim>\<open>lib/comm/inbound.cpp\<close> and the session half of \<^verbatim>\<open>lib/comm/websocket.cpp\<close>: the WebSocket
  upgrade, refilling the inbound buffers from the transport through the Telnet decoder, cutting the buffered
  bytes into messages in line and character mode, the WebSocket path on top of both, deferred input and
  prompts. The conventions are those of \<^verbatim>\<open>Connection\<close>.

  Loops that call the scheduler take a fuel argument: what a hook does to the state is not bounded by the
  code. \<^verbatim>\<open>Inbound_Lines\<close> shows how much fuel is enough.
\<close>

section \<open>WebSocket upgrade\<close>

definition WEBSOCKET_MAX_HANDSHAKE_BYTES :: nat where "WEBSOCKET_MAX_HANDSHAKE_BYTES = 8192"

definition send_websocket_rejection ::
  "'x services \<Rightarrow> int \<Rightarrow> int \<Rightarrow> comm_abstract \<Rightarrow> 'x world \<Rightarrow> 'x world option" where
  "send_websocket_rejection S slot status_code c w =
     (let c1 = comm_clear_flag C_ENABLE_WEBSOCKET (comm_free_inbound_buffers (comm_free_outbound_buffers c));
          c2 = comm_buffered_write_raw_comm (sv_arm S) (rejection_response status_code) c1
      in map_option snd (comm_close S slot (put_comm slot c2 w)))"

definition complete_upgrade :: "'x services \<Rightarrow> byte list \<Rightarrow> nat \<Rightarrow> bool \<Rightarrow> comm_abstract \<Rightarrow> comm_abstract" where
  "complete_upgrade S response header_len negotiated_telnet c =
     (let c1 = comm_buffered_write_raw_comm (sv_arm S) response c;
          c2 = c1\<lparr>c_inbound := comm_consume_inbound_data header_len (c_inbound c1)\<rparr>;
          c3 = c2\<lparr>c_flags := C_WEBSOCKET_SET_STATE (c_flags c2) WS_READY\<rparr>
      in if negotiated_telnet then
           comm_enable_telnet_for_slot (sv_arm S) (c3\<lparr>c_flags := C_WEBSOCKET_SET_STATE (c_flags c3) WS_TELNET_PENDING\<rparr>)
         else c3)"

definition comm_try_upgrade_websocket :: "'x services \<Rightarrow> int \<Rightarrow> 'x world \<Rightarrow> 'x world option" where
  "comm_try_upgrade_websocket S slot w =
     (case comm_at slot w of
        None \<Rightarrow> Some w
      | Some c \<Rightarrow>
          if \<not> comm_has_flag c C_ENABLE_WEBSOCKET \<or> C_WEBSOCKET_IS_READY (c_flags c) then Some w
          else let request = comm_copy_inbound_data_prefix WEBSOCKET_MAX_HANDSHAKE_BYTES (c_inbound c) in
          if request = [] then Some w
          else case find_http_header_end request of
            None \<Rightarrow> if length request \<ge> WEBSOCKET_MAX_HANDSHAKE_BYTES
                    then send_websocket_rejection S slot 431 c w else Some w
          | Some header_len \<Rightarrow>
              (case comm_websocket_build_upgrade_response (sv_sha1 S) (sv_b64 S) (take header_len request)
                      (comm_websocket_preferred_protocols c) of
                 Inl status \<Rightarrow> send_websocket_rejection S slot status c w
               | Inr (response, negotiated_telnet) \<Rightarrow>
                   Some (put_comm slot (complete_upgrade S response header_len negotiated_telnet c) w)))"

definition comm_enable_websocket_for_slot :: "int \<Rightarrow> byte list \<Rightarrow> 'x world \<Rightarrow> bool \<times> 'x world" where
  "comm_enable_websocket_for_slot slot preferred w =
     (case comm_at slot w of
        None \<Rightarrow> (False, w)
      | Some c \<Rightarrow>
          if c_rbio c = None \<or> c_wbio c = None then (False, w)
          else if comm_has_flag c C_ENABLE_TELNET then (False, w)
          else (True, put_comm slot (comm_set_flag C_ENABLE_WEBSOCKET
                  (c\<lparr>c_websocket := Some ((websocket_of c)\<lparr>preferred_protocols := preferred\<rparr>)\<rparr>)) w))"

definition comm_enable_websocket :: "tls \<Rightarrow> byte list \<Rightarrow> 'x world \<Rightarrow> bool \<times> 'x world" where
  "comm_enable_websocket loc preferred w =
     (if current_hook_type loc \<noteq> HOOK_CONNECT \<or> current_slot loc < 0 then (False, w)
      else comm_enable_websocket_for_slot (current_slot loc) preferred w)"

section \<open>Refilling the buffers\<close>

definition comm_dispatch_telnet_subnegotiation ::
  "'x services \<Rightarrow> telnet_negotiation \<Rightarrow> int \<Rightarrow> 'x world \<Rightarrow> (mudmux_dispatch_result \<times> 'x world) option" where
  "comm_dispatch_telnet_subnegotiation S ng slot w =
     (case subnegotiation_execution (sv_hooked S HOOK_TELNET_SUBNEG) ng slot of
        None \<Rightarrow> Some (MUDMUX_DISPATCH_OK, w)
      | Some e \<Rightarrow>
          do {
            (r, w1) \<leftarrow> sv_dispatch S e w;
            if r = MUDMUX_DISPATCH_QUEUE_FULL then
              do { w2 \<leftarrow> via_comm slot (comm_set_flag C_DEFERRED_INBOUND) w1; Some (r, w2\<lparr>w_deferred := True\<rparr>) }
            else Some (r, w1)
          })"

text \<open>The first empty buffer, or the last one.\<close>

fun refill_target :: "inbound_buffer list \<Rightarrow> nat" where
  "refill_target (b # b' # bs) =
     (if length (ib_data b) = ib_start b then 0 else Suc (refill_target (b' # bs)))"
| "refill_target _ = 0"

definition make_room :: "inbound_buffer \<Rightarrow> inbound_buffer" where
  "make_room b =
     (let b1 = (if ib_start b \<ge> length (ib_data b) then b\<lparr>ib_start := 0, ib_data := []\<rparr> else b)
      in if length (ib_data b1) = BUFFER_SIZE \<and> ib_start b1 > 0
         then b1\<lparr>ib_start := 0, ib_data := drop (ib_start b1) (ib_data b1)\<rparr> else b1)"

text \<open>
  One pass of the loop over a buffer with room for \<open>k\<close> bytes: how many raw bytes are consumed, whether
  Telnet parsing is paused from now on, and the new state. \<open>None\<close> is a null slot pointer or an exception.
\<close>

definition refill_pass ::
  "'x services \<Rightarrow> int \<Rightarrow> nat \<Rightarrow> bool \<Rightarrow> byte list \<Rightarrow> comm_abstract \<Rightarrow> 'x world \<Rightarrow> (nat \<times> bool \<times> 'x world) option" where
  "refill_pass S slot i paused src c w =
     (let handshake_pending = (comm_has_flag c C_ENABLE_WEBSOCKET \<and> \<not> C_WEBSOCKET_IS_READY (c_flags c));
          add = (\<lambda>bytes c. c\<lparr>c_inbound := (c_inbound c)[i := (c_inbound c ! i)\<lparr>ib_data := ib_data (c_inbound c ! i) @ bytes\<rparr>]\<rparr>)
      in if comm_has_flag c C_ENABLE_TELNET \<and> \<not> handshake_pending \<and> \<not> C_WEBSOCKET_IS_READY (c_flags c) \<and> \<not> paused then
           (case comm_telnet_process_inbound src (c_flags c AND M_TELNET_STATE) no_negotiation of
              (data, consumed, state, ng) \<Rightarrow>
                (let c1 = c\<lparr>c_flags := telnet_set_state (c_flags c) state\<rparr>;
                     c2 = (if consumed > length data then comm_process_telnet_options (sv_arm S) ng c1 else c1)
                 in do {
                      (r, w1) \<leftarrow> (if tn_subopt ng \<noteq> [] then
                                   comm_dispatch_telnet_subnegotiation S ng slot (put_comm slot c2 w)
                                 else Some (MUDMUX_DISPATCH_OK, put_comm slot c2 w));
                      c3 \<leftarrow> comm_at slot w1;
                      Some (consumed, r = MUDMUX_DISPATCH_QUEUE_FULL,
                            if r = MUDMUX_DISPATCH_QUEUE_FULL
                            then (put_comm slot (add data (comm_set_flag C_DEFERRED_INBOUND c3)) w1)\<lparr>w_deferred := True\<rparr>
                            else put_comm slot (add data c3) w1)
                    }))
         else Some (length src, paused, put_comm slot (add src c) w))"

text \<open>The result is the part of the source that did not fit.\<close>

fun refill_loop ::
  "nat \<Rightarrow> 'x services \<Rightarrow> int \<Rightarrow> nat \<Rightarrow> bool \<Rightarrow> byte list \<Rightarrow> 'x world \<Rightarrow> (byte list \<times> 'x world) option" where
  "refill_loop 0 S slot i paused src w = None"
| "refill_loop (Suc n) S slot i paused src w =
     do {
       c \<leftarrow> comm_at slot w;
       if src = [] \<or> i \<ge> length (c_inbound c) then Some (src, w)
       else let b = make_room (c_inbound c ! i); c1 = c\<lparr>c_inbound := (c_inbound c)[i := b]\<rparr> in
       if ib_band b \<noteq> INBOUND_BAND_DATA then refill_loop n S slot (i + 1) paused src (put_comm slot c1 w)
       else let k = min (length src) (BUFFER_SIZE - length (ib_data b)) in
       if k = 0 then Some (src, put_comm slot c1 w)
       else do {
         (consumed, paused', w1) \<leftarrow> refill_pass S slot i paused (take k src) c1 w;
         refill_loop n S slot i paused' (drop consumed src) w1
       }
     }"

text \<open>Every pass consumes a byte or moves to the next buffer, so the fuel below is never used up.\<close>

definition refill_inbound_buffers_from_src ::
  "'x services \<Rightarrow> int \<Rightarrow> byte list \<Rightarrow> 'x world \<Rightarrow> (bool \<times> 'x world) option" where
  "refill_inbound_buffers_from_src S slot src w =
     (case comm_at slot w of
        None \<Rightarrow> Some (False, w)
      | Some c \<Rightarrow>
          (let chain = (if c_inbound c = [] then [empty_inbound_buffer] else c_inbound c) in
           do {
             (rest, w1) \<leftarrow> refill_loop (length src + length chain + 1) S slot (refill_target chain) False src
               (put_comm slot (c\<lparr>c_inbound := chain\<rparr>) w);
             c1 \<leftarrow> comm_at slot w1;
             w2 \<leftarrow> (if comm_has_flag c1 C_ENABLE_WEBSOCKET \<and> \<not> C_WEBSOCKET_IS_READY (c_flags c1)
                    then comm_try_upgrade_websocket S slot w1 else Some w1);
             Some (rest = [], w2)
           }))"

definition comm_append_decoded_input :: "'x services \<Rightarrow> int \<Rightarrow> byte list \<Rightarrow> 'x world \<Rightarrow> (bool \<times> 'x world) option" where
  "comm_append_decoded_input S slot src w = refill_inbound_buffers_from_src S slot src w"

text \<open>
  Reading from the transport. Outside Windows SSL reads from the socket BIO itself, which holds no bytes of its
  own (\<^verbatim>\<open>BIO_ctrl_pending\<close> is 0), so one handshake step is made per call. \<open>sv_ssl_read\<close> gives the outcome of one
  \<^verbatim>\<open>SSL_read_ex\<close> and whether decrypted bytes are still pending.
\<close>

fun tls_read_loop :: "nat \<Rightarrow> 'x services \<Rightarrow> int \<Rightarrow> 'x world \<Rightarrow> (bool \<times> 'x world) option" where
  "tls_read_loop 0 S slot w = None"
| "tls_read_loop (Suc n) S slot w =
     do {
       c \<leftarrow> comm_at slot w;
       ssl \<leftarrow> c_ssl c;
       (case sv_ssl_read S ssl (w_ext w) of
          (Read_data data, pending, x) \<Rightarrow>
            if data = [] then Some (True, w\<lparr>w_ext := x\<rparr>)
            else do {
              (ok, w1) \<leftarrow> refill_inbound_buffers_from_src S slot data (w\<lparr>w_ext := x\<rparr>);
              if \<not> ok then Some (False, w1) else if \<not> pending then Some (True, w1) else tls_read_loop n S slot w1
            }
        | (Read_retry, pending, x) \<Rightarrow> Some (True, w\<lparr>w_ext := x\<rparr>)
        | (Read_closed, pending, x) \<Rightarrow> Some (False, w\<lparr>w_ext := x\<rparr>))
     }"

definition comm_refill_inbound_buffers ::
  "nat \<Rightarrow> 'x services \<Rightarrow> int \<Rightarrow> byte list option \<Rightarrow> 'x world \<Rightarrow> (bool \<times> 'x world) option" where
  "comm_refill_inbound_buffers n S slot src w =
     (case comm_at slot w of
        None \<Rightarrow> Some (False, w)
      | Some c \<Rightarrow>
          if c_ssl c \<noteq> None then
            do {
              (hs, w1) \<leftarrow> (if comm_has_flag c C_TLS_ESTABLISHED then Some (1, w) else comm_tls_handshake_step S slot w);
              if hs < 0 then Some (False, w1)
              else if hs = 1 then tls_read_loop n S slot w1
              else do { _ \<leftarrow> comm_at slot w1; Some (True, w1) }
            }
          else (case src of
                  Some data \<Rightarrow> refill_inbound_buffers_from_src S slot data w
                | None \<Rightarrow>
                    (case sv_bio_read S (c_rbio c) (w_ext w) of
                       (Read_data data, x) \<Rightarrow>
                         if data = [] then Some (True, w\<lparr>w_ext := x\<rparr>)
                         else refill_inbound_buffers_from_src S slot data (w\<lparr>w_ext := x\<rparr>)
                     | (Read_retry, x) \<Rightarrow> Some (True, w\<lparr>w_ext := x\<rparr>)
                     | (Read_closed, x) \<Rightarrow> Some (False, w\<lparr>w_ext := x\<rparr>))))"

section \<open>Messages\<close>

datatype comm_process_result = COMM_PROCESS_ERROR | COMM_PROCESS_OK | COMM_PROCESS_CLOSED | COMM_PROCESS_DEFERRED

definition mark_deferred :: "int \<Rightarrow> 'x world \<Rightarrow> 'x world option" where
  "mark_deferred slot w = map_option (\<lambda>w. w\<lparr>w_deferred := True\<rparr>) (via_comm slot (comm_set_flag C_DEFERRED_INBOUND) w)"

definition comm_invoke_inbound_message ::
  "'x services \<Rightarrow> int \<Rightarrow> byte list \<Rightarrow> 'x world \<Rightarrow> (mudmux_dispatch_result \<times> 'x world) option" where
  "comm_invoke_inbound_message S slot data w =
     (case comm_at slot w of
        None \<Rightarrow> Some (MUDMUX_DISPATCH_ERROR, w)
      | Some c \<Rightarrow>
          (let await_inbound_hook = sv_async S HOOK_MESSAGE_INBOUND;
               c1 = comm_clear_flag C_INVOKED_PROMPT c;
               w1 = (if await_inbound_hook
                     then (put_comm slot (comm_set_flag C_DEFERRED_INBOUND c1) w)\<lparr>w_deferred := True\<rparr>
                     else put_comm slot c1 w)
           in sv_dispatch S (hook_execution HOOK_MESSAGE_INBOUND slot slot data
                (if await_inbound_hook then Some resume_after_inbound_hook else None)) w1))"

definition invoke_char_input_message ::
  "'x services \<Rightarrow> int \<Rightarrow> byte list \<Rightarrow> 'x world \<Rightarrow> (mudmux_dispatch_result \<times> 'x world) option" where
  "invoke_char_input_message S slot data w =
     (case comm_at slot w of
        None \<Rightarrow> Some (MUDMUX_DISPATCH_ERROR, w)
      | Some c \<Rightarrow>
          do {
            (r, w1) \<leftarrow> comm_invoke_inbound_message S slot data (put_comm slot (comm_clear_flag C_INVOKED_PROMPT c) w);
            Some (r, if sv_async S HOOK_MESSAGE_INBOUND then w1 else resume_input_after_inbound_hook slot w1)
          })"

definition set_head_start :: "nat \<Rightarrow> comm_abstract \<Rightarrow> comm_abstract" where
  "set_head_start k c =
     c\<lparr>c_inbound := (case c_inbound c of [] \<Rightarrow> [] | b # bs \<Rightarrow> b\<lparr>ib_start := k\<rparr> # bs)\<rparr>"

text \<open>
  What line mode does with the chain after looking for a line in its head: \<open>next\<close> is the index after a line
  that was found. \<open>None\<close> ends the loop.
\<close>

definition line_advance :: "nat option \<Rightarrow> inbound_buffer list \<Rightarrow> inbound_buffer list option \<times> inbound_buffer list" where
  "line_advance next chain =
     (case chain of
        [] \<Rightarrow> (None, chain)
      | b # bs \<Rightarrow>
          (let space = BUFFER_SIZE - (length (ib_data b) - ib_start b) in
           if next = None \<and> space = 0 then (None, chain)
           else if next = None \<or> the next < length (ib_data b) then
             (case bs of
                b2 # rest \<Rightarrow>
                  if ib_start b2 < length (ib_data b2) then
                    (if ib_band b2 = INBOUND_BAND_DATA then
                       (let copy_len = min space (length (ib_data b2) - ib_start b2);
                            b1 = (if ib_start b > 0 then b\<lparr>ib_start := 0, ib_data := drop (ib_start b) (ib_data b)\<rparr> else b);
                            b1' = b1\<lparr>ib_data := ib_data b1 @ take copy_len (drop (ib_start b2) (ib_data b2))\<rparr>;
                            b2' = b2\<lparr>ib_start := ib_start b2 + copy_len\<rparr>;
                            chain' = (if ib_start b2' = length (ib_data b2')
                                      then b1' # rest @ [inbound_buffer_reset b2'] else b1' # b2' # rest)
                        in (Some chain', chain'))
                     else (Some (b # rest), b # rest))
                  else if next = None then (None, chain) else (Some chain, chain)
              | [] \<Rightarrow> if next = None then (None, chain) else (Some chain, chain))
           else (let chain' = recycle_current_inbound_buffer chain in
                 case chain' of
                   [] \<Rightarrow> (None, chain')
                 | b' # _ \<Rightarrow> if length (ib_data b') \<le> ib_start b' then (None, chain') else (Some chain', chain'))))"

text \<open>One line: the echo of the newline for Telnet clients, then the hook.\<close>

definition line_message ::
  "'x services \<Rightarrow> int \<Rightarrow> nat \<Rightarrow> inbound_buffer \<Rightarrow> comm_abstract \<Rightarrow> 'x world \<Rightarrow>
   (mudmux_dispatch_result \<times> 'x world) option" where
  "line_message S slot line_len b c w =
     (let c1 = c\<lparr>c_inbound := b # tl (c_inbound c)\<rparr>;
          c2 = (if comm_has_flag c1 C_ENABLE_TELNET \<and> \<not> comm_has_flag c1 C_CLOSING
                then comm_buffered_write_comm (sv_arm S) [13, 10] c1 else c1)
      in comm_invoke_inbound_message S slot (take line_len (drop (ib_start b) (ib_data b))) (put_comm slot c2 w))"

fun line_loop :: "nat \<Rightarrow> 'x services \<Rightarrow> int \<Rightarrow> int \<Rightarrow> int \<Rightarrow> 'x world \<Rightarrow> 'x world option" where
  "line_loop 0 S slot max_message num w = None"
| "line_loop (Suc n) S slot max_message num w =
     do {
       c \<leftarrow> comm_at slot w;
       if c_inbound c = [] \<or> \<not> (max_message < 0 \<or> num < max_message) then Some w
       else let b = hd (c_inbound c) in
       if length (ib_data b) \<le> ib_start b then Some w
       else case find_newline_and_strip b of
         None \<Rightarrow>
           (case line_advance None (c_inbound c) of
              (None, chain) \<Rightarrow> Some (put_comm slot (c\<lparr>c_inbound := chain\<rparr>) w)
            | (Some _, chain) \<Rightarrow> line_loop n S slot max_message num (put_comm slot (c\<lparr>c_inbound := chain\<rparr>) w))
       | Some (next, line_len, b') \<Rightarrow>
           do {
             (r, w1) \<leftarrow> line_message S slot line_len b' c w;
             if r = MUDMUX_DISPATCH_QUEUE_FULL then mark_deferred slot w1
             else case comm_at slot w1 of
               None \<Rightarrow> Some w1
             | Some c1 \<Rightarrow>
                 (let c2 = set_head_start next c1 in
                  if sv_busy S slot (put_comm slot c2 w1) then Some (put_comm slot c2 w1)
                  else (case line_advance (Some next) (c_inbound c2) of
                          (None, chain) \<Rightarrow> Some (put_comm slot (c2\<lparr>c_inbound := chain\<rparr>) w1)
                        | (Some _, chain) \<Rightarrow>
                            line_loop n S slot max_message (num + 1) (put_comm slot (c2\<lparr>c_inbound := chain\<rparr>) w1)))
           }
     }"

text \<open>
  Character mode delivers at most one unit of input per call: every path through the loop body ends it. The
  slot returns to line mode before the hook runs.
\<close>

definition char_step ::
  "'x services \<Rightarrow> int \<Rightarrow> int \<Rightarrow> 'x world \<Rightarrow> (comm_process_result option \<times> 'x world) option" where
  "char_step S slot max_message w =
     do {
       c \<leftarrow> comm_at slot w;
       if c_inbound c = [] \<or> max_message = 0 then Some (None, w)
       else case find_char_input_sequence (sv_mbrlen S) (c_flags c) (hd (c_inbound c)) of
         None \<Rightarrow> Some (None, w)
       | Some (next, char_len) \<Rightarrow>
           (let b = hd (c_inbound c) in
            case comm_set_line_input (sv_arm S) slot True (w_slots w, w_terminal w) of
              (ok, t, tm) \<Rightarrow>
                (let w1 = w\<lparr>w_slots := t, w_terminal := tm\<rparr>; data = take char_len (drop (ib_start b) (ib_data b)) in
                 if \<not> ok then Some (Some COMM_PROCESS_ERROR, w1)
                 else do {
                   c1 \<leftarrow> comm_at slot w1;
                   (r, w2) \<leftarrow> (if comm_has_flag c1 C_ENABLE_TELNET \<and> sv_async S HOOK_MESSAGE_INBOUND
                              then comm_invoke_inbound_message S slot data w1
                              else invoke_char_input_message S slot data w1);
                   if r = MUDMUX_DISPATCH_QUEUE_FULL then map_option (Pair None) (mark_deferred slot w2)
                   else Some (None, case comm_at slot w2 of
                                      None \<Rightarrow> w2 | Some c2 \<Rightarrow> put_comm slot (set_head_start next c2) w2)
                 }))
     }"

definition process_status :: "int \<Rightarrow> 'x world \<Rightarrow> comm_process_result" where
  "process_status slot w =
     (case comm_at slot w of
        None \<Rightarrow> COMM_PROCESS_CLOSED
      | Some c \<Rightarrow> if comm_has_flag c C_DEFERRED_INBOUND then COMM_PROCESS_DEFERRED else COMM_PROCESS_OK)"

text \<open>The dispatch on the input mode.\<close>

definition process_buffered ::
  "nat \<Rightarrow> 'x services \<Rightarrow> int \<Rightarrow> int \<Rightarrow> 'x world \<Rightarrow> (comm_process_result \<times> 'x world) option" where
  "process_buffered n S slot max_message w =
     do {
       c \<leftarrow> comm_at slot w;
       if comm_has_flag c C_LINE_INPUT then
         map_option (\<lambda>w1. (process_status slot w1, w1)) (line_loop n S slot max_message 0 w)
       else
         do { (r, w1) \<leftarrow> char_step S slot max_message w;
              Some (case r of Some e \<Rightarrow> e | None \<Rightarrow> process_status slot w1, w1) }
     }"

text \<open>
  \<open>websocket_input\<close> is \<^verbatim>\<open>comm_process_websocket_input\<close>, called when transport decoding is wanted on an upgraded
  connection.
\<close>

definition process_input ::
  "nat \<Rightarrow> 'x services \<Rightarrow> int \<Rightarrow> int \<Rightarrow>
   ('x world \<Rightarrow> (comm_process_result \<times> 'x world) option) option \<Rightarrow> 'x world \<Rightarrow> (comm_process_result \<times> 'x world) option" where
  "process_input n S slot max_message websocket_input w =
     (case comm_at slot w of
        None \<Rightarrow> Some (COMM_PROCESS_ERROR, w)
      | Some c \<Rightarrow>
          if comm_has_flag c C_AWAITING_HOOK \<or> sv_busy S slot w then Some (COMM_PROCESS_DEFERRED, w)
          else
            (let c1 = (comm_clear_flag C_DEFERRED_INBOUND c)\<lparr>c_inbound := skip_non_data_head_buffers (c_inbound c)\<rparr>;
                 w1 = put_comm slot c1 w in
             do {
               (early, w2) \<leftarrow>
                 (if comm_has_flag c1 C_ENABLE_WEBSOCKET \<and> \<not> C_WEBSOCKET_IS_READY (c_flags c1) then
                    map_option (\<lambda>w2. (case comm_at slot w2 of
                                        None \<Rightarrow> Some COMM_PROCESS_CLOSED
                                      | Some c2 \<Rightarrow> if C_WEBSOCKET_IS_READY (c_flags c2) then None
                                                   else Some COMM_PROCESS_OK, w2))
                      (comm_try_upgrade_websocket S slot w1)
                  else Some (None, w1));
               case early of
                 Some r \<Rightarrow> Some (r, w2)
               | None \<Rightarrow>
                   do {
                     c2 \<leftarrow> comm_at slot w2;
                     case websocket_input of
                       Some f \<Rightarrow> if C_WEBSOCKET_IS_READY (c_flags c2) then f w2
                                 else process_buffered n S slot max_message w2
                     | None \<Rightarrow> process_buffered n S slot max_message w2
                   }
             }))"

definition comm_process_decoded_input ::
  "nat \<Rightarrow> 'x services \<Rightarrow> int \<Rightarrow> int \<Rightarrow> 'x world \<Rightarrow> (comm_process_result \<times> 'x world) option" where
  "comm_process_decoded_input n S slot max_message w = process_input n S slot max_message None w"

section \<open>WebSocket input\<close>

definition on_websocket :: "(comm_websocket_state \<Rightarrow> comm_websocket_state) \<Rightarrow> comm_abstract \<Rightarrow> comm_abstract" where
  "on_websocket f c = c\<lparr>c_websocket := Some (f (websocket_of c))\<rparr>"

text \<open>
  Telnet inside WebSocket messages; the decoded bytes are appended to \<open>application_data\<close>. Every round consumes
  at least one byte, so fuel above the length of the payload is never used up.
\<close>

fun decode_websocket_telnet_payload ::
  "nat \<Rightarrow> 'x services \<Rightarrow> int \<Rightarrow> byte list \<Rightarrow> byte list \<Rightarrow> 'x world \<Rightarrow>
   (mudmux_dispatch_result \<times> byte list \<times> 'x world) option" where
  "decode_websocket_telnet_payload 0 S slot payload application_data w = None"
| "decode_websocket_telnet_payload (Suc n) S slot payload application_data w =
     (if payload = [] then Some (MUDMUX_DISPATCH_OK, application_data, w)
      else do {
        c \<leftarrow> comm_at slot w;
        (case comm_telnet_process_inbound payload (c_flags c AND M_TELNET_STATE) no_negotiation of
           (data, consumed, state, ng) \<Rightarrow>
             if consumed = 0 then Some (MUDMUX_DISPATCH_ERROR, application_data, w)
             else
               (let c1 = c\<lparr>c_flags := telnet_set_state (c_flags c) state\<rparr>;
                    c2 = (if consumed > length data then comm_process_telnet_options (sv_arm S) ng c1 else c1)
                in do {
                     (r, w1) \<leftarrow> (if tn_subopt ng \<noteq> [] then comm_dispatch_telnet_subnegotiation S ng slot (put_comm slot c2 w)
                                else Some (MUDMUX_DISPATCH_OK, put_comm slot c2 w));
                     if \<not> mudmux_dispatch_accepted r then Some (r, application_data, w1)
                     else decode_websocket_telnet_payload n S slot (drop consumed payload) (application_data @ data) w1
                   }))
      })"

definition process_websocket_decoded_input ::
  "nat \<Rightarrow> 'x services \<Rightarrow> int \<Rightarrow> int \<Rightarrow> 'x world \<Rightarrow> (comm_process_result \<times> 'x world) option" where
  "process_websocket_decoded_input n S slot max_message w =
     do {
       c \<leftarrow> comm_at slot w;
       let input = decoded_input (websocket_of c);
       if input = [] then Some (COMM_PROCESS_OK, w)
       else do {
         (ok, w1) \<leftarrow> comm_append_decoded_input S slot input w;
         if \<not> ok then Some (COMM_PROCESS_ERROR, w1)
         else do {
           w2 \<leftarrow> via_comm slot (on_websocket (decoded_input_update (\<lambda>_. []))) w1;
           (r, w3) \<leftarrow> comm_process_decoded_input n S slot max_message w2;
           w4 \<leftarrow> via_comm slot (\<lambda>c. (on_websocket
                     (decoded_input_update (\<lambda>_. comm_copy_inbound_data_prefix SIZE_MAX (c_inbound c))) c)
                     \<lparr>c_inbound := comm_consume_inbound_data SIZE_MAX (c_inbound c)\<rparr>) w3;
           Some (r, w4)
         }
       }
     }"

definition close_code_bytes :: "int \<Rightarrow> byte list" where
  "close_code_bytes code = [word_of_int (code div 256), word_of_int code]"

text \<open>One decoded message: Telnet decoding if enabled, then the input parser. \<open>None\<close> in the result means to go on.\<close>

definition websocket_message ::
  "nat \<Rightarrow> 'x services \<Rightarrow> int \<Rightarrow> int \<Rightarrow> byte list \<Rightarrow> 'x world \<Rightarrow> (comm_process_result option \<times> 'x world) option" where
  "websocket_message n S slot max_message message w =
     do {
       c \<leftarrow> comm_at slot w;
       (r, data, w1) \<leftarrow>
         (if comm_has_flag c C_ENABLE_TELNET
          then decode_websocket_telnet_payload (Suc (length message)) S slot message (decoded_input (websocket_of c)) w
          else Some (MUDMUX_DISPATCH_OK, decoded_input (websocket_of c), w));
       w2 \<leftarrow> via_comm slot (on_websocket (decoded_input_update (\<lambda>_. data))) w1;
       if \<not> mudmux_dispatch_accepted r then
         (if r = MUDMUX_DISPATCH_QUEUE_FULL
          then map_option (Pair (Some COMM_PROCESS_DEFERRED)) (mark_deferred slot w2)
          else Some (Some COMM_PROCESS_ERROR, w2))
       else do {
         c2 \<leftarrow> comm_at slot w2;
         let w3 = (if comm_has_flag c2 C_ENABLE_TELNET then w2
                   else put_comm slot (on_websocket (decoded_input_update (\<lambda>d. d @ message)) c2) w2);
         (pr, w4) \<leftarrow> process_websocket_decoded_input n S slot max_message w3;
         Some (if pr \<noteq> COMM_PROCESS_OK then Some pr
               else if comm_at slot w4 = None then Some COMM_PROCESS_CLOSED
               else if sv_busy S slot w4 then Some COMM_PROCESS_DEFERRED
               else None, w4)
       }
     }"

text \<open>
  The loop over the frames received so far, one message per round. \<open>comm_websocket_process_inbound\<close> is called
  with a limit of one message, so it returns at most one.
\<close>

fun websocket_loop ::
  "nat \<Rightarrow> 'x services \<Rightarrow> int \<Rightarrow> int \<Rightarrow> 'x world \<Rightarrow> (comm_process_result \<times> 'x world) option" where
  "websocket_loop 0 S slot max_message w = None"
| "websocket_loop (Suc n) S slot max_message w =
     do {
       c \<leftarrow> comm_at slot w;
       let wire = pending_wire (websocket_of c);
       if wire = [] then Some (COMM_PROCESS_OK, w)
       else case comm_websocket_process_inbound (sv_arm S) (Some 1) c wire of
         (False, _, _, code, c1) \<Rightarrow>
           (if code \<noteq> 0 then
              map_option (\<lambda>(_, w1). (COMM_PROCESS_CLOSED, w1))
                (comm_close S slot (put_comm slot (snd (comm_websocket_queue_close (sv_arm S) (close_code_bytes code) c1)) w))
            else Some (COMM_PROCESS_CLOSED, put_comm slot c1 w))
       | (True, consumed, messages, _, c1) \<Rightarrow>
           (if consumed = 0 then Some (COMM_PROCESS_OK, put_comm slot c1 w)
            else let w1 = put_comm slot (on_websocket (pending_wire_update (drop consumed)) c1) w in
            case messages of
              [] \<Rightarrow> websocket_loop n S slot max_message w1
            | m # _ \<Rightarrow>
                do {
                  (r, w2) \<leftarrow> websocket_message n S slot max_message m w1;
                  case r of Some pr \<Rightarrow> Some (pr, w2) | None \<Rightarrow> websocket_loop n S slot max_message w2
                })
     }"

definition comm_process_websocket_input ::
  "nat \<Rightarrow> 'x services \<Rightarrow> int \<Rightarrow> int \<Rightarrow> 'x world \<Rightarrow> (comm_process_result \<times> 'x world) option" where
  "comm_process_websocket_input n S slot max_message w =
     do {
       c \<leftarrow> comm_at slot w;
       let wire = comm_copy_inbound_data_prefix SIZE_MAX (c_inbound c);
       let c1 = (on_websocket (pending_wire_update (\<lambda>p. p @ wire)) c)
                  \<lparr>c_inbound := comm_consume_inbound_data (length wire) (c_inbound c)\<rparr>;
       (r, w1) \<leftarrow> process_websocket_decoded_input n S slot max_message (put_comm slot c1 w);
       if r \<noteq> COMM_PROCESS_OK then Some (r, w1) else websocket_loop n S slot max_message w1
     }"

definition comm_process_input ::
  "nat \<Rightarrow> 'x services \<Rightarrow> int \<Rightarrow> int \<Rightarrow> 'x world \<Rightarrow> (comm_process_result \<times> 'x world) option" where
  "comm_process_input n S slot max_message w =
     process_input n S slot max_message (Some (comm_process_websocket_input n S slot max_message)) w"

section \<open>Deferred input and prompts\<close>

definition comm_defer_input :: "int \<Rightarrow> 'x world \<Rightarrow> 'x world" where
  "comm_defer_input slot w =
     (case comm_at slot w of
        None \<Rightarrow> w
      | Some c \<Rightarrow> (put_comm slot (comm_set_flag C_DEFERRED_INBOUND c) w)\<lparr>w_deferred := True\<rparr>)"

definition comm_enable_prompt :: "int \<Rightarrow> bool \<Rightarrow> 'x world \<Rightarrow> 'x world" where
  "comm_enable_prompt slot enable w =
     (if slot < 0 then w
      else case comm_at slot w of
        None \<Rightarrow> w
      | Some c \<Rightarrow> put_comm slot (if enable then comm_set_flag C_ENABLE_PROMPT c else comm_clear_flag C_ENABLE_PROMPT c) w)"

fun resume_slots :: "nat \<Rightarrow> 'x services \<Rightarrow> int list \<Rightarrow> bool \<Rightarrow> 'x world \<Rightarrow> (bool \<times> 'x world) option" where
  "resume_slots n S [] any_deferred w = Some (any_deferred, w)"
| "resume_slots n S (slot # slots) any_deferred w =
     (case comm_at slot w of
        None \<Rightarrow> resume_slots n S slots any_deferred w
      | Some c \<Rightarrow>
          if \<not> comm_has_flag c C_DEFERRED_INBOUND then resume_slots n S slots any_deferred w
          else if sv_busy S slot w then resume_slots n S slots True w
          else do {
            (r, w1) \<leftarrow> comm_process_input n S slot (-1) (put_comm slot (comm_clear_flag C_DEFERRED_INBOUND c) w);
            if r = COMM_PROCESS_CLOSED \<or> r = COMM_PROCESS_ERROR then
              do { (_, w2) \<leftarrow> comm_close S slot w1; resume_slots n S slots any_deferred w2 }
            else resume_slots n S slots
                   (any_deferred \<or> (case comm_at slot w1 of
                                      None \<Rightarrow> False | Some c1 \<Rightarrow> comm_has_flag c1 C_DEFERRED_INBOUND)) w1
          })"

definition comm_resume_deferred_input :: "nat \<Rightarrow> 'x services \<Rightarrow> 'x world \<Rightarrow> 'x world option" where
  "comm_resume_deferred_input n S w =
     map_option (\<lambda>(any_deferred, w1). w1\<lparr>w_deferred := any_deferred\<rparr>)
       (resume_slots n S [0..comm_max_slot (w_slots w) - 1] False w)"

definition prompt_due :: "'x services \<Rightarrow> int \<Rightarrow> comm_abstract \<Rightarrow> 'x world \<Rightarrow> bool" where
  "prompt_due S slot c w \<longleftrightarrow>
     comm_has_flag c C_ENABLE_PROMPT \<and> \<not> comm_has_flag c C_INVOKED_PROMPT \<and>
     \<not> (comm_has_flag c C_BUFFERED_WRITE \<or> comm_has_flag c C_AWAITING_HOOK \<or> c_outbound c \<noteq> [] \<or>
        c_websocket_upgrade_barrier c \<noteq> [] \<or> comm_has_pending_inbound comm_websocket_has_pending_input c \<or>
        sv_busy S slot w)"

fun prompt_slots :: "'x services \<Rightarrow> int list \<Rightarrow> 'x world \<Rightarrow> 'x world option" where
  "prompt_slots S [] w = Some w"
| "prompt_slots S (slot # slots) w =
     (case comm_at slot w of
        None \<Rightarrow> prompt_slots S slots w
      | Some c \<Rightarrow>
          if \<not> prompt_due S slot c w then prompt_slots S slots w
          else do {
            (r, w1) \<leftarrow> sv_dispatch S (hook_execution HOOK_PROMPT slot slot [] None) w;
            w2 \<leftarrow> (if mudmux_dispatch_accepted r then via_comm slot (comm_set_flag C_INVOKED_PROMPT) w1 else Some w1);
            prompt_slots S slots w2
          })"

definition comm_invoke_prompt :: "'x services \<Rightarrow> 'x world \<Rightarrow> 'x world option" where
  "comm_invoke_prompt S w = prompt_slots S [0..comm_max_slot (w_slots w) - 1] w"

end
