(* ===== verification/Inbound_Lines.thy ===== *)
theory Inbound_Lines
  imports Inbound
begin

text \<open>
  What the input parser delivers. In line mode the application receives exactly the lines of the buffered
  bytes, stripped and in order, and the incomplete last line stays buffered; the loop ends. In character mode
  one unit of input is delivered and the slot is back in line mode.
\<close>

section \<open>Lines of a byte string\<close>

lemma after_line_shorter:
  assumes "\<not> list_all (\<lambda>b. \<not> is_eol b) bs"
  shows "length (after_line bs) < length bs"
proof -
  let ?r = "dropWhile (\<lambda>b. \<not> is_eol b) bs"
  have "0 < length ?r" using assms by (simp add: list_all_iff)
  moreover have "length ?r \<le> length bs" by (rule length_dropWhile_le)
  moreover have "0 < eol_length r" for r by (cases r rule: eol_length.cases) auto
  ultimately have "length ?r - eol_length ?r < length bs" by (meson diff_less order_less_le_trans)
  then show ?thesis by (simp only: after_line_def Let_def length_drop)
qed

function lines :: "byte list \<Rightarrow> byte list list" where
  "lines bs = (if list_all (\<lambda>b. \<not> is_eol b) bs then [] else trim_ascii (line_text bs) # lines (after_line bs))"
  by pat_completeness auto
termination by (relation "measure length") (auto simp: after_line_shorter)

function partial_line :: "byte list \<Rightarrow> byte list" where
  "partial_line bs = (if list_all (\<lambda>b. \<not> is_eol b) bs then bs else partial_line (after_line bs))"
  by pat_completeness auto
termination by (relation "measure length") (auto simp: after_line_shorter)

declare lines.simps [simp del] partial_line.simps [simp del]

section \<open>Line mode\<close>

text \<open>
  A hook that runs in the caller, leaves the input buffers of its slot alone and does not close it. \<open>heard\<close>
  reads off the messages the application has received.
\<close>

definition line_hook_ok :: "'x services \<Rightarrow> int \<Rightarrow> ('x \<Rightarrow> byte list list) \<Rightarrow> bool" where
  "line_hook_ok S slot heard \<longleftrightarrow>
     \<not> sv_async S HOOK_MESSAGE_INBOUND \<and> (\<forall>w. \<not> sv_busy S slot w) \<and>
     (\<forall>data w c. world_wf w \<longrightarrow> comm_at slot w = Some c \<longrightarrow>
        (\<exists>r w' c'. sv_dispatch S (hook_execution HOOK_MESSAGE_INBOUND slot slot data None) w = Some (r, w') \<and>
           r \<noteq> MUDMUX_DISPATCH_QUEUE_FULL \<and> world_wf w' \<and> comm_at slot w' = Some c' \<and>
           c_inbound c' = c_inbound c \<and> heard (w_ext w') = heard (w_ext w) @ [data]))"

definition one_buffer :: "inbound_buffer \<Rightarrow> comm_abstract \<Rightarrow> bool" where
  "one_buffer b c \<longleftrightarrow> c_inbound c = [b] \<and> ib_band b = INBOUND_BAND_DATA \<and> ib_wf b"

lemma line_message_ok:
  assumes "line_hook_ok S slot heard" "world_wf w" "comm_at slot w = Some c"
  shows "\<exists>r w' c'. line_message S slot k b c w = Some (r, w') \<and> r \<noteq> MUDMUX_DISPATCH_QUEUE_FULL \<and>
    world_wf w' \<and> comm_at slot w' = Some c' \<and> c_inbound c' = b # tl (c_inbound c) \<and>
    heard (w_ext w') = heard (w_ext w) @ [take k (ib_unread b)]"
proof -
  define c1 where "c1 = c\<lparr>c_inbound := b # tl (c_inbound c)\<rparr>"
  define c2 where "c2 = (if comm_has_flag c1 C_ENABLE_TELNET \<and> \<not> comm_has_flag c1 C_CLOSING
                then comm_buffered_write_comm (sv_arm S) [13, 10] c1 else c1)"
  have "comm_used c1" using comm_at_used [OF assms(3)] by (simp add: c1_def comm_used_def)
  then have c2: "comm_used c2" "c_inbound c2 = b # tl (c_inbound c)"
    using write_same_input [of c1 "sv_arm S" "[13, 10]"] same_input_used [of c1 c2]
    by (auto simp: c2_def same_input_def c1_def comm_used_def)
  define c3 where "c3 = comm_clear_flag C_INVOKED_PROMPT c2"
  have c3: "comm_used c3" "c_inbound c3 = b # tl (c_inbound c)"
    using c2 by (simp_all add: c3_def comm_clear_flag_def comm_used_def)
  note p2 = comm_at_put [OF assms(2,3) c2(1)]
  then have "comm_at slot (put_comm slot c2 w) = Some c2" by simp
  note p3 = comm_at_put [OF p2(2) this c3(1)]
  let ?w = "put_comm slot c3 (put_comm slot c2 w)"
  have m: "line_message S slot k b c w =
      sv_dispatch S (hook_execution HOOK_MESSAGE_INBOUND slot slot (take k (ib_unread b)) None) ?w"
    using assms(1) p2 by (simp add: line_message_def comm_invoke_inbound_message_def Let_def line_hook_ok_def
        c1_def [symmetric] c2_def [symmetric] c3_def [symmetric] ib_unread_def)
  have "comm_at slot ?w = Some c3" using p3 by simp
  with assms(1) p3(2) obtain r w' c' where
    "sv_dispatch S (hook_execution HOOK_MESSAGE_INBOUND slot slot (take k (ib_unread b)) None) ?w = Some (r, w')"
    "r \<noteq> MUDMUX_DISPATCH_QUEUE_FULL" "world_wf w'" "comm_at slot w' = Some c'" "c_inbound c' = c_inbound c3"
    "heard (w_ext w') = heard (w_ext ?w) @ [take k (ib_unread b)]"
    unfolding line_hook_ok_def by blast
  with m c3 show ?thesis by simp
qed

lemma line_advance_found:
  assumes "ib_wf b" "next \<le> length (ib_data b)"
  shows "line_advance (Some next) [b\<lparr>ib_start := next\<rparr>] =
    (if next < length (ib_data b) then (Some [b\<lparr>ib_start := next\<rparr>], [b\<lparr>ib_start := next\<rparr>])
     else (None, [inbound_buffer_reset b]))"
  using assms by (auto simp: line_advance_def Let_def inbound_buffer_reset_def)

lemma line_advance_none: "line_advance None [b] = (None, [b])"
  by (simp add: line_advance_def Let_def)

lemma line_round:
  assumes hook: "line_hook_ok S slot heard" and wf: "world_wf w" and at: "comm_at slot w = Some c"
    and one: "one_buffer b c" and eol: "\<not> list_all (\<lambda>x. \<not> is_eol x) (ib_unread b)"
  shows "\<exists>w' c' b'. world_wf w' \<and> comm_at slot w' = Some c' \<and> one_buffer b' c' \<and>
    ib_unread b' = after_line (ib_unread b) \<and>
    heard (w_ext w') = heard (w_ext w) @ [trim_ascii (line_text (ib_unread b))] \<and>
    line_loop (Suc n) S slot (-1) num w =
      (if after_line (ib_unread b) = [] then Some w' else line_loop n S slot (-1) (num + 1) w')"
proof -
  have chain: "c_inbound c = [b]" "ib_wf b" "ib_band b = INBOUND_BAND_DATA" using one by (simp_all add: one_buffer_def)
  obtain nx k b1 where nl: "find_newline_and_strip b = Some (nx, k, b1)"
    using eol find_newline_none by (metis option.exhaust prod_cases3)
  note f = find_newline_some [OF nl]
  have ne: "ib_start b < length (ib_data b)" using f by linarith
  from line_message_ok [OF hook wf at, of k b1] obtain r w1 c1 where
    m: "line_message S slot k b1 c w = Some (r, w1)" "r \<noteq> MUDMUX_DISPATCH_QUEUE_FULL" "world_wf w1"
      "comm_at slot w1 = Some c1" "c_inbound c1 = [b1]"
      "heard (w_ext w1) = heard (w_ext w) @ [trim_ascii (line_text (ib_unread b))]"
    using chain(1) f by auto
  define b2 where "b2 = (if nx < length (ib_data b1) then b1\<lparr>ib_start := nx\<rparr> else inbound_buffer_reset b1)"
  define c2 where "c2 = set_head_start nx c1"
  let ?c = "c2\<lparr>c_inbound := [b2]\<rparr>"
  have b1: "ib_wf b1" "ib_band b1 = INBOUND_BAND_DATA" using f chain by (auto simp: ib_wf_def)
  have b2: "one_buffer b2 ?c" "ib_unread b2 = after_line (ib_unread b)"
    using f b1 by (auto simp: b2_def one_buffer_def ib_wf_def ib_unread_def inbound_buffer_reset_def)
  have "after_line (ib_unread b) = [] \<longleftrightarrow> length (ib_data b1) \<le> nx" using f by (metis drop_eq_Nil)
  then have rest: "nx < length (ib_data b1) \<longleftrightarrow> after_line (ib_unread b) \<noteq> []" by auto
  have c2: "c_inbound c2 = [b1\<lparr>ib_start := nx\<rparr>]" "comm_used ?c"
    using m(5) comm_at_used [OF m(4)] by (simp_all add: c2_def set_head_start_def comm_used_def)
  have "line_loop (Suc n) S slot (-1) num w =
      (if after_line (ib_unread b) = [] then Some (put_comm slot ?c w1)
       else line_loop n S slot (-1) (num + 1) (put_comm slot ?c w1))"
    using at chain ne nl m hook line_advance_found [OF b1(1), of nx] f c2(1) rest
    by (simp add: Let_def c2_def [symmetric] b2_def line_hook_ok_def)
  then show ?thesis
    using comm_at_put [OF m(3,4) c2(2)] b2 m(6) by (intro exI [of _ "put_comm slot ?c w1"] exI [of _ ?c] exI [of _ b2]) simp
qed

lemma lines_delivered:
  assumes "line_hook_ok S slot heard"
  shows "world_wf w \<Longrightarrow> comm_at slot w = Some c \<Longrightarrow> one_buffer b c \<Longrightarrow> length (ib_unread b) < n \<Longrightarrow>
    \<exists>w' c' b'. line_loop n S slot (-1) num w = Some w' \<and> world_wf w' \<and> comm_at slot w' = Some c' \<and> one_buffer b' c' \<and>
      ib_unread b' = partial_line (ib_unread b) \<and> heard (w_ext w') = heard (w_ext w) @ lines (ib_unread b)"
proof (induction n arbitrary: num w c b)
  case (Suc n)
  note prems = Suc.prems(1-3)
  show ?case
  proof (cases "list_all (\<lambda>x. \<not> is_eol x) (ib_unread b)")
    case True
    then have none: "find_newline_and_strip b = None" by (simp add: find_newline_none)
    have chain: "c_inbound c = [b]" "put_comm slot (c\<lparr>c_inbound := [b]\<rparr>) w = put_comm slot c w"
      using prems(3) by (simp_all add: one_buffer_def) (metis comm_abstract.surjective comm_abstract.update_convs(4))
    have "line_loop (Suc n) S slot (-1) num w = Some w \<or> line_loop (Suc n) S slot (-1) num w = Some (put_comm slot c w)"
      using prems(2) chain none by (auto simp: line_advance_none Let_def)
    then show ?thesis
      using comm_at_put [OF prems(1,2) comm_at_used [OF prems(2)]] prems True
      by (auto simp: lines.simps [of "ib_unread b"] partial_line.simps [of "ib_unread b"])
  next
    case False
    from line_round [OF assms prems False, of n num] obtain w' c' b' where
      r: "world_wf w'" "comm_at slot w' = Some c'" "one_buffer b' c'" "ib_unread b' = after_line (ib_unread b)"
        "heard (w_ext w') = heard (w_ext w) @ [trim_ascii (line_text (ib_unread b))]"
        "line_loop (Suc n) S slot (-1) num w =
          (if after_line (ib_unread b) = [] then Some w' else line_loop n S slot (-1) (num + 1) w')"
      by blast
    show ?thesis
    proof (cases "after_line (ib_unread b) = []")
      case True
      then show ?thesis using r False
        by (auto simp: lines.simps [of "ib_unread b"] partial_line.simps [of "ib_unread b"] lines.simps [of "[]"]
            partial_line.simps [of "[]"])
    next
      case more: False
      from Suc.IH [OF r(1-3), of "num + 1"] after_line_shorter [OF False] Suc.prems(4) r more False
      show ?thesis by (auto simp: lines.simps [of "ib_unread b"] partial_line.simps [of "ib_unread b"])
    qed
  qed
qed simp

definition line_slot :: "comm_abstract \<Rightarrow> bool" where
  "line_slot c \<longleftrightarrow> comm_has_flag c C_LINE_INPUT \<and> \<not> comm_has_flag c C_AWAITING_HOOK \<and>
     \<not> comm_has_flag c C_ENABLE_WEBSOCKET \<and> \<not> C_WEBSOCKET_IS_READY (c_flags c)"

lemma deferred_other_flags:
  "has_flag (clear_flag f C_DEFERRED_INBOUND) C_LINE_INPUT = has_flag f C_LINE_INPUT"
  "has_flag (clear_flag f C_DEFERRED_INBOUND) C_ENABLE_WEBSOCKET = has_flag f C_ENABLE_WEBSOCKET"
  "has_flag (clear_flag f C_DEFERRED_INBOUND) C_ENABLE_TELNET = has_flag f C_ENABLE_TELNET"
  "has_flag (clear_flag f C_DEFERRED_INBOUND) C_ENABLE_ANSI = has_flag f C_ENABLE_ANSI"
  "C_WEBSOCKET_IS_READY (clear_flag f C_DEFERRED_INBOUND) = C_WEBSOCKET_IS_READY f"
proof -
  have d: "C_DEFERRED_INBOUND AND k = 0 \<Longrightarrow> has_flag (clear_flag f C_DEFERRED_INBOUND) k = has_flag f k" for k
    by (simp add: has_flag_def clear_flag_and_other)
  show "has_flag (clear_flag f C_DEFERRED_INBOUND) C_LINE_INPUT = has_flag f C_LINE_INPUT"
    "has_flag (clear_flag f C_DEFERRED_INBOUND) C_ENABLE_WEBSOCKET = has_flag f C_ENABLE_WEBSOCKET"
    "has_flag (clear_flag f C_DEFERRED_INBOUND) C_ENABLE_TELNET = has_flag f C_ENABLE_TELNET"
    "has_flag (clear_flag f C_DEFERRED_INBOUND) C_ENABLE_ANSI = has_flag f C_ENABLE_ANSI"
    by (rule d, simp add: flag_defs)+
  have "C_DEFERRED_INBOUND AND M_WEBSOCKET_STATE = 0" by (simp add: flag_defs)
  then show "C_WEBSOCKET_IS_READY (clear_flag f C_DEFERRED_INBOUND) = C_WEBSOCKET_IS_READY f"
    by (simp add: C_WEBSOCKET_IS_READY_def)
qed

text \<open>
  C2. Line mode delivers exactly the lines. For a slot in line mode whose hook runs in the caller, the
  parser returns, and the application has received every complete line of the buffered bytes once, in
  order, cut at CR LF, CR NUL, CR, LF or NUL and stripped of surrounding white space; the bytes after
  the last terminator stay buffered, unchanged.
\<close>

theorem line_mode_delivers_lines:
  assumes "line_hook_ok S slot heard" and "world_wf w" and "comm_at slot w = Some c"
    and "one_buffer b c" and "line_slot c" and "length (ib_unread b) < n"
  shows "\<exists>w' c' b'. comm_process_input n S slot (-1) w = Some (process_status slot w', w') \<and>
    heard (w_ext w') = heard (w_ext w) @ lines (ib_unread b) \<and>
    comm_at slot w' = Some c' \<and> one_buffer b' c' \<and> ib_unread b' = partial_line (ib_unread b)"
proof -
  define c1 where "c1 = (comm_clear_flag C_DEFERRED_INBOUND c)\<lparr>c_inbound := skip_non_data_head_buffers (c_inbound c)\<rparr>"
  have c1: "one_buffer b c1" "comm_used c1" "comm_has_flag c1 C_LINE_INPUT" "\<not> comm_has_flag c1 C_ENABLE_WEBSOCKET"
    "\<not> C_WEBSOCKET_IS_READY (c_flags c1)"
    using assms(4,5) comm_at_used [OF assms(3)]
    by (simp_all add: c1_def one_buffer_def comm_used_def line_slot_def mux_simps deferred_other_flags)
  note p = comm_at_put [OF assms(2,3) c1(2)]
  have at: "comm_at slot (put_comm slot c1 w) = Some c1" using p(1) by simp
  from lines_delivered [OF assms(1) p(2) at c1(1) assms(6), of 0] obtain w' c' b' where
    r: "line_loop n S slot (-1) 0 (put_comm slot c1 w) = Some w'" "comm_at slot w' = Some c'" "one_buffer b' c'"
      "ib_unread b' = partial_line (ib_unread b)" "heard (w_ext w') = heard (w_ext w) @ lines (ib_unread b)"
    by auto
  have "comm_process_input n S slot (-1) w = Some (process_status slot w', w')"
    using assms(1,3,5) c1 at r(1)
    by (simp add: comm_process_input_def process_input_def Let_def c1_def [symmetric] line_slot_def line_hook_ok_def
        process_buffered_def)
  with r show ?thesis by blast
qed

section \<open>Character mode\<close>

text \<open>Changing the input mode writes at most Telnet commands: it keeps the input buffers and the line flag.\<close>

definition keeps_line :: "comm_abstract \<Rightarrow> comm_abstract \<Rightarrow> bool" where
  "keeps_line c c' \<longleftrightarrow> same_input c c' \<and> (comm_has_flag c C_LINE_INPUT \<longrightarrow> comm_has_flag c' C_LINE_INPUT)"

lemma keeps_line_trans: "keeps_line a b \<Longrightarrow> keeps_line b c \<Longrightarrow> keeps_line a c"
  by (simp add: keeps_line_def same_input_def)

lemma keeps_line_refl: "keeps_line c c"
  by (simp add: keeps_line_def same_input_def)

lemma keeps_line_raw: "keeps_line c (comm_buffered_write_raw_comm arm buf c)"
  using raw_write_same_input [of c arm buf] by (auto simp: keeps_line_def raw_write_cases mux_simps Let_def)

lemma keeps_line_barrier: "keeps_line c (snd (append_websocket_upgrade_barrier buf c))"
  using barrier_same_input [of c buf]
  by (auto simp: keeps_line_def append_websocket_upgrade_barrier_def mux_simps Let_def split: prod.splits)

lemma keeps_line_write: "keeps_line c (comm_buffered_write_comm_no_telnet_normalize arm buf c)"
  unfolding comm_buffered_write_comm_no_telnet_normalize_def comm_buffered_write_comm_impl_def Let_def
  by (simp add: keeps_line_raw keeps_line_barrier keeps_line_refl split: option.split)

lemma keeps_line_commands:
  "keeps_line c (comm_telnet_send_wont arm x c)" "keeps_line c (comm_telnet_send_will arm x c)"
  "keeps_line c (comm_telnet_send_subnegotiation arm x data c)"
proof -
  show "keeps_line c (comm_telnet_send_wont arm x c)" "keeps_line c (comm_telnet_send_will arm x c)"
    by (simp_all add: comm_telnet_send_wont_def comm_telnet_send_will_def keeps_line_write keeps_line_refl)
  show "keeps_line c (comm_telnet_send_subnegotiation arm x data c)"
    using keeps_line_trans [OF keeps_line_trans [OF keeps_line_write keeps_line_write] keeps_line_write]
    by (simp add: comm_telnet_send_subnegotiation_def keeps_line_refl)
qed

lemma keeps_line_echo:
  assumes "slot \<noteq> COMM_SLOT_CONSOLE" "set_echo_comm arm slot e c tm = (ok, c', tm')"
  shows "ok \<and> keeps_line c c'"
proof -
  have "C_CLIENT_ECHO AND C_LINE_INPUT = 0" by (simp add: flag_defs)
  then have echo: "keeps_line c (set_client_echo e c)" for c
    by (simp add: keeps_line_def same_input_def set_client_echo_def mux_simps)
  define c1 where "c1 = (if comm_has_flag c C_ENABLE_TELNET \<and> c_ssl c = None then
       (if e \<and> telnet_echo (c_caps c) then comm_telnet_send_wont arm TELOPT_ECHO c
        else if \<not> e \<and> \<not> telnet_echo (c_caps c) then comm_telnet_send_will arm TELOPT_ECHO c else c) else c)"
  have "keeps_line c c1" by (simp add: c1_def keeps_line_commands keeps_line_refl)
  moreover have "(ok, c', tm') = (True, set_client_echo e c1, tm)"
    unfolding assms(2) [symmetric] set_echo_comm_def c1_def Let_def using assms(1) by simp
  ultimately show ?thesis using keeps_line_trans [OF _ echo] by simp
qed

lemma line_input_kept:
  assumes "slot \<noteq> COMM_SLOT_CONSOLE" "set_line_input_comm arm slot e c tm = (ok, c', tm')"
  shows "ok \<and> same_input c c' \<and> comm_has_flag c' C_LINE_INPUT"
proof (cases "comm_has_flag c C_LINE_INPUT")
  case True
  then show ?thesis using assms keeps_line_echo [OF assms(1), of arm e c tm]
    by (auto simp: set_line_input_comm_def keeps_line_def)
next
  case False
  define c1 where "c1 = (if comm_has_flag c C_ENABLE_TELNET then negotiate_telnet_line_input arm True c else c)"
  have "keeps_line c c1"
    by (simp add: c1_def negotiate_telnet_line_input_def keeps_line_commands keeps_line_refl)
  then have "same_input c (comm_set_flag C_LINE_INPUT c1)" "comm_has_flag (comm_set_flag C_LINE_INPUT c1) C_LINE_INPUT"
    by (simp_all add: keeps_line_def same_input_def mux_simps)
  moreover have "set_echo_comm arm slot e (comm_set_flag C_LINE_INPUT c1) tm = (ok, c', tm')"
    using assms False by (simp add: set_line_input_comm_def c1_def)
  ultimately show ?thesis
    using keeps_line_echo [OF assms(1), of arm e "comm_set_flag C_LINE_INPUT c1" tm]
    by (auto simp: keeps_line_def same_input_def)
qed

definition char_hook_ok :: "'x services \<Rightarrow> int \<Rightarrow> ('x \<Rightarrow> byte list list) \<Rightarrow> bool" where
  "char_hook_ok S slot heard \<longleftrightarrow>
     \<not> sv_async S HOOK_MESSAGE_INBOUND \<and> (\<forall>w. \<not> sv_busy S slot w) \<and>
     (\<forall>data w c. world_wf w \<longrightarrow> comm_at slot w = Some c \<longrightarrow>
        (\<exists>r w' c'. sv_dispatch S (hook_execution HOOK_MESSAGE_INBOUND slot slot data None) w = Some (r, w') \<and>
           r \<noteq> MUDMUX_DISPATCH_QUEUE_FULL \<and> world_wf w' \<and> comm_at slot w' = Some c' \<and>
           c_inbound c' = c_inbound c \<and> c_flags c' = c_flags c \<and> heard (w_ext w') = heard (w_ext w) @ [data]))"

lemma find_char_deferred:
  "find_char_input_sequence mb (clear_flag f C_DEFERRED_INBOUND) b = find_char_input_sequence mb f b"
  by (simp add: find_char_input_sequence_def deferred_other_flags Let_def)

definition char_slot :: "comm_abstract \<Rightarrow> bool" where
  "char_slot c \<longleftrightarrow> \<not> comm_has_flag c C_LINE_INPUT \<and> \<not> comm_has_flag c C_AWAITING_HOOK \<and>
     \<not> comm_has_flag c C_ENABLE_WEBSOCKET \<and> \<not> C_WEBSOCKET_IS_READY (c_flags c)"

lemma char_message_ok:
  assumes hook: "char_hook_ok S slot heard" and wf: "world_wf w" and at: "comm_at slot w = Some c"
  shows "\<exists>r w' c'. invoke_char_input_message S slot data w = Some (r, w') \<and> r \<noteq> MUDMUX_DISPATCH_QUEUE_FULL \<and>
    world_wf w' \<and> comm_at slot w' = Some c' \<and> c_inbound c' = c_inbound c \<and> w_deferred w' \<and>
    (comm_has_flag c C_LINE_INPUT \<longrightarrow> comm_has_flag c' C_LINE_INPUT) \<and> comm_has_flag c' C_DEFERRED_INBOUND \<and>
    heard (w_ext w') = heard (w_ext w) @ [data]"
proof -
  define c1 where "c1 = comm_clear_flag C_INVOKED_PROMPT c"
  define c2 where "c2 = comm_clear_flag C_INVOKED_PROMPT c1"
  have u: "comm_used c1" "comm_used c2" "c_inbound c2 = c_inbound c"
    using comm_at_used [OF at] by (simp_all add: c1_def c2_def comm_used_def mux_simps)
  have d: "C_INVOKED_PROMPT AND C_LINE_INPUT = 0" "has_flag C_DEFERRED_INBOUND C_DEFERRED_INBOUND"
    by (simp_all add: flag_defs has_flag_def)
  note p1 = comm_at_put [OF wf at u(1)]
  then have at1: "comm_at slot (put_comm slot c1 w) = Some c1" by simp
  note p2 = comm_at_put [OF p1(2) at1 u(2)]
  let ?w = "put_comm slot c2 (put_comm slot c1 w)"
  have "comm_at slot ?w = Some c2" using p2 by simp
  with hook p2(2) obtain r w3 c3 where r:
    "sv_dispatch S (hook_execution HOOK_MESSAGE_INBOUND slot slot data None) ?w = Some (r, w3)"
    "r \<noteq> MUDMUX_DISPATCH_QUEUE_FULL" "world_wf w3" "comm_at slot w3 = Some c3" "c_inbound c3 = c_inbound c2"
    "c_flags c3 = c_flags c2" "heard (w_ext w3) = heard (w_ext ?w) @ [data]"
    unfolding char_hook_ok_def by blast
  have call: "invoke_char_input_message S slot data w = Some (r, resume_input_after_inbound_hook slot w3)"
    using hook at at1 r(1)
    by (simp add: invoke_char_input_message_def comm_invoke_inbound_message_def Let_def c1_def [symmetric]
        c2_def [symmetric] char_hook_ok_def)
  define c4 where "c4 = comm_set_flag C_DEFERRED_INBOUND c3"
  have u4: "comm_used c4" "c_inbound c4 = c_inbound c" "comm_has_flag c4 C_DEFERRED_INBOUND"
    "comm_has_flag c C_LINE_INPUT \<longrightarrow> comm_has_flag c4 C_LINE_INPUT"
    using comm_at_used [OF r(4)] u r(5,6) d
    by (simp_all add: c4_def comm_used_def mux_simps c2_def c1_def)
  note p4 = comm_at_put [OF r(3,4) u4(1)]
  have "resume_input_after_inbound_hook slot w3 = (put_comm slot c4 w3)\<lparr>w_deferred := True\<rparr>"
    using r(4) by (simp add: resume_input_after_inbound_hook_def c4_def)
  with call p4 u4 r show ?thesis by simp
qed


section \<open>A sample application\<close>

text \<open>An application that records its messages, on slot 1 of a two-slot table.\<close>

definition recording :: "mudmux_execution \<Rightarrow> byte list list world \<Rightarrow> (mudmux_dispatch_result \<times> byte list list world) option" where
  "recording e w = Some (MUDMUX_DISPATCH_OK, w\<lparr>w_ext := w_ext w @ [e_payload e]\<rparr>)"

definition sample_services :: "byte list list services" where
  "sample_services =
     \<lparr>sv_dispatch = recording, sv_async = (\<lambda>_. False), sv_busy = (\<lambda>_ _. False), sv_cancel = (\<lambda>_ w. w),
      sv_hooked = (\<lambda>_. True), sv_arm = (\<lambda>_. True), sv_modify = (\<lambda>_ _ x. x), sv_remove_fd = (\<lambda>_ x. x),
      sv_post_error = (\<lambda>_ x. x), sv_send = (\<lambda>_ x data. (Took (length data), x)), sv_handshake = (\<lambda>_ x. (Hs_done, x)),
      sv_ssl_shutdown = (\<lambda>_ x. x), sv_shutdown_wr = (\<lambda>_ x. x), sv_bio_fd = (\<lambda>b. int b), sv_unix_path = (\<lambda>_. None),
      sv_file_inputs = False, sv_console_eof = (\<lambda>x. x), sv_sha1 = Some, sv_b64 = Some, sv_mbrlen = (\<lambda>_. Mbr 1),
      sv_ssl_read = (\<lambda>_ x. (Read_retry, False, x)), sv_bio_read = (\<lambda>_ x. (Read_retry, x)), sv_entry_name = (\<lambda>_ _. [])\<rparr>"

definition sample_comm :: "u32 \<Rightarrow> byte list \<Rightarrow> comm_abstract" where
  "sample_comm flags bytes =
     zero_comm\<lparr>c_rbio := Some 3, c_wbio := Some 3, c_generation := 1, c_flags := flags,
       c_inbound := [\<lparr>ib_band = INBOUND_BAND_DATA, ib_start = 0, ib_data = bytes\<rparr>]\<rparr>"

definition sample_world :: "comm_abstract \<Rightarrow> byte list list world" where
  "sample_world c =
     \<lparr>w_slots = \<lparr>all_comms = Some [zero_comm, c], max_comms = 2\<rparr>, w_deferred = False, w_terminal = None,
      w_shutdown = False, w_released = [], w_ext = []\<rparr>"

lemma sample_hook_ok: "line_hook_ok sample_services slot id"
  by (auto simp: line_hook_ok_def sample_services_def recording_def hook_execution_def world_wf_def comm_at_def)

lemma sample_world_ok [simp]:
  "world_wf (sample_world c)" "comm_used c \<Longrightarrow> comm_at 1 (sample_world c) = Some c" "w_ext (sample_world c) = []"
  by (simp_all add: world_wf_def sized_table_def sample_world_def comm_at_def comm_abstract_get_def resolve_slot_unlocked_def
      slot_ptr_unlocked_def)

lemma sample_comm_ok [simp]:
  "comm_used (sample_comm f bytes)" "c_flags (sample_comm f bytes) = f"
  "c_inbound (sample_comm f bytes) = [\<lparr>ib_band = INBOUND_BAND_DATA, ib_start = 0, ib_data = bytes\<rparr>]"
  by (simp_all add: sample_comm_def comm_used_def)

theorem line_mode_delivers_lines_witness:
  "\<exists>w' c' b'. comm_process_input 20 sample_services 1 (-1)
       (sample_world (sample_comm C_LINE_INPUT [104, 105, 13, 10, 32, 120, 32, 10, 121])) = Some (process_status 1 w', w') \<and>
     w_ext w' = [[104, 105], [120]] \<and> comm_at 1 w' = Some c' \<and> one_buffer b' c' \<and> ib_unread b' = [121]"
proof -
  let ?bytes = "[104, 105, 13, 10, 32, 120, 32, 10, 121] :: byte list"
  let ?c = "sample_comm C_LINE_INPUT ?bytes"
  let ?b = "\<lparr>ib_band = INBOUND_BAND_DATA, ib_start = 0, ib_data = ?bytes\<rparr>"
  have l: "lines ?bytes = [[104, 105], [120]]" "partial_line ?bytes = [121]" by code_simp+
  have o: "one_buffer ?b ?c" by (simp add: one_buffer_def ib_wf_def BUFFER_SIZE_def)
  have "line_slot ?c"
    by (simp add: line_slot_def mux_simps has_flag_def flag_defs C_WEBSOCKET_IS_READY_def C_WEBSOCKET_STATE_def)
  from line_mode_delivers_lines [OF sample_hook_ok sample_world_ok(1) sample_world_ok(2) o this, of 20]
  show ?thesis by (simp add: ib_unread_def l)
qed


end
