(* ===== verification/Connection_Close.thy ===== *)
theory Connection_Close
  imports Inbound_Lines
begin

text \<open>
  Closing a connection: when the slot is really removed, what is released, and that the disconnect hook is
  dispatched once. The last section records two places where the code uses a slot pointer after a hook that
  may have closed the slot.
\<close>

section \<open>Removal\<close>

lemma comm_at_remove:
  assumes "world_wf w" "comm_at slot w = Some c"
  shows "comm_at s (close_remove S slot w) = (if s = slot then None else comm_at s w)"
    and "w_released (close_remove S slot w) = w_released w @ release_actions (sv_unix_path S) c"
    and "world_wf (close_remove S slot w)"
proof -
  have r: "resolve_slot_unlocked (w_slots w) slot = Some c"
    using assms(2) by (simp add: comm_at_def comm_abstract_get_def)
  then have "slot_ptr_unlocked (w_slots w) slot = Some c" using resolve_ptr by blast
  then obtain cs where cs: "all_comms (w_slots w) = Some cs" "0 \<le> slot" "slot < int (max_comms (w_slots w))"
    "length cs = max_comms (w_slots w)"
    using assms(1) by (auto simp: slot_ptr_unlocked_def world_wf_def sized_table_def split: option.splits if_splits)
  have u: "\<not> comm_used (removed_comm c)" by (simp add: removed_comm_def comm_used_def)
  have w: "close_remove S slot w = w\<lparr>w_slots := set_slot slot (removed_comm c) (w_slots w),
      w_released := w_released w @ release_actions (sv_unix_path S) c\<rparr>"
    using r by (simp add: close_remove_def comm_abstract_remove_def)
  have "slot_ptr_unlocked (set_slot slot (removed_comm c) (w_slots w)) s =
      (if s = slot then Some (removed_comm c) else slot_ptr_unlocked (w_slots w) s)"
    using cs by (auto simp: slot_ptr_unlocked_def set_slot_def nth_list_update eq_nat_nat_iff)
  then show "comm_at s (close_remove S slot w) = (if s = slot then None else comm_at s w)"
    using u by (simp add: w comm_at_def comm_abstract_get_def resolve_slot_unlocked_def)
  show "w_released (close_remove S slot w) = w_released w @ release_actions (sv_unix_path S) c" by (simp add: w)
  show "world_wf (close_remove S slot w)" using cs by (simp add: w world_wf_def sized_table_def set_slot_def)
qed

definition may_remove :: "comm_abstract \<Rightarrow> bool" where
  "may_remove c \<longleftrightarrow> \<not> comm_has_flag c C_AWAITING_HOOK \<and>
     (comm_has_flag c C_BUFFERED_WRITE \<longrightarrow> c_ssl c \<noteq> None \<and> \<not> comm_has_flag c C_TLS_ESTABLISHED) \<and>
     (C_WEBSOCKET_IS_READY (c_flags c) \<longrightarrow> C_WEBSOCKET_STATE (c_flags c) = WS_CLOSE_RECEIVED)"

lemma on_ext_fields [simp]:
  "comm_at slot (on_ext f w) = comm_at slot w" "world_wf (on_ext f w) = world_wf w" "w_released (on_ext f w) = w_released w"
  "w_slots (on_ext f w) = w_slots w"
  by (simp_all add: on_ext_def comm_at_def world_wf_def)

lemma queue_close_same_input: "same_input c (snd (comm_websocket_queue_close arm payload c))"
  using raw_write_same_input [of c arm]
  by (auto simp: comm_websocket_queue_close_def same_input_def Let_def split: option.splits)

text \<open>The fields of a slot that closing leaves alone when it drops unsendable output.\<close>

lemma dropped_output:
  fixes c :: comm_abstract
  defines "c1 \<equiv> (if comm_has_flag c C_BUFFERED_WRITE then comm_clear_flag C_BUFFERED_WRITE (comm_free_outbound_buffers c) else c)"
  shows "comm_used c1 = comm_used c" "release_actions up c1 = release_actions up c" "c_ssl c1 = c_ssl c"
    "C_WEBSOCKET_STATE (c_flags c1) = C_WEBSOCKET_STATE (c_flags c)"
    "C_WEBSOCKET_IS_READY (c_flags c1) = C_WEBSOCKET_IS_READY (c_flags c)"
proof -
  have "C_BUFFERED_WRITE AND M_WEBSOCKET_STATE = 0" "C_BUFFERED_WRITE AND C_SOCKET_LISTENING = 0" by (simp_all add: flag_defs)
  then show "comm_used c1 = comm_used c" "release_actions up c1 = release_actions up c" "c_ssl c1 = c_ssl c"
    "C_WEBSOCKET_STATE (c_flags c1) = C_WEBSOCKET_STATE (c_flags c)"
    "C_WEBSOCKET_IS_READY (c_flags c1) = C_WEBSOCKET_IS_READY (c_flags c)"
    by (simp_all add: c1_def mux_simps comm_free_outbound_buffers_def comm_used_def release_actions_def C_WEBSOCKET_IS_READY_def)
qed

lemma close_transport_removes:
  assumes wf: "world_wf w" and at: "comm_at slot w = Some c" and "slot \<noteq> COMM_SLOT_CONSOLE" and "may_remove c"
    and r: "close_transport S slot sig c w = (closed, w')"
  shows "closed \<and> comm_at s w' = (if s = slot then None else comm_at s w) \<and>
    w_released w' = w_released w @ release_actions (sv_unix_path S) c"
proof -
  define c1 where "c1 = (if comm_has_flag c C_BUFFERED_WRITE
    then comm_clear_flag C_BUFFERED_WRITE (comm_free_outbound_buffers c) else c)"
  note d = dropped_output [where c = c, folded c1_def]
  have u: "comm_used c1" using comm_at_used [OF at] d(1) by simp
  note p = comm_at_put [OF wf at u]
  define w3 where "w3 =
    (let w2 = (case c_ssl c1 of
                 Some ssl \<Rightarrow> if comm_has_flag c1 C_TLS_ESTABLISHED then on_ext (sv_ssl_shutdown S ssl) (put_comm slot c1 w)
                             else put_comm slot c1 w
               | None \<Rightarrow> put_comm slot c1 w);
         drop_fd = (\<lambda>bio w. case socket_of S bio of None \<Rightarrow> w | Some fd \<Rightarrow> on_ext (sv_remove_fd S fd) w)
     in drop_fd (c_wbio c1) (drop_fd (c_rbio c1) w2))"
  have w3: "comm_at t w3 = comm_at t (put_comm slot c1 w)" "world_wf w3 = world_wf (put_comm slot c1 w)"
    "w_released w3 = w_released w" for t
    by (simp_all add: w3_def Let_def split: option.split)
  have "(closed, w') = (True, close_remove S slot w3)"
    unfolding r [symmetric] close_transport_def w3_def c1_def [symmetric] Let_def
    using assms(3,4) d by (simp add: may_remove_def)
  then show ?thesis using comm_at_remove [of w3 slot c1] w3 p d(2) by simp
qed

lemma close_transport_waits:
  assumes wf: "world_wf w" and at: "comm_at slot w = Some c" and "slot \<noteq> COMM_SLOT_CONSOLE" and "\<not> may_remove c"
    and r: "close_transport S slot sig c w = (closed, w')"
  shows "\<not> closed \<and> (\<exists>c'. comm_at slot w' = Some c' \<and> c_inbound c' = c_inbound c) \<and> w_released w' = w_released w"
proof -
  define c1 where "c1 = (if comm_has_flag c C_BUFFERED_WRITE
    then comm_clear_flag C_BUFFERED_WRITE (comm_free_outbound_buffers c) else c)"
  note d = dropped_output [where c = c, folded c1_def]
  have i: "c_inbound c1 = c_inbound c" by (simp add: c1_def mux_simps comm_free_outbound_buffers_def)
  have u: "comm_used c1" using comm_at_used [OF at] d(1) by simp
  define c2 where "c2 = snd (comm_websocket_queue_close (sv_arm S) [0x03, 0xe8] c1)"
  have c2: "comm_used c2" "c_inbound c2 = c_inbound c"
    using queue_close_same_input [of c1 "sv_arm S" "[0x03, 0xe8]"] u i
    unfolding c2_def [symmetric] same_input_def comm_used_def by simp_all
  note p = comm_at_put [OF wf at u]
  have "comm_at slot (put_comm slot c1 w) = Some c1" using p by simp
  note q = comm_at_put [OF p(2) this c2(1)]
  let ?early = "c_ssl c \<noteq> None \<and> \<not> comm_has_flag c C_TLS_ESTABLISHED"
  have "(closed, w') =
      (if comm_has_flag c C_AWAITING_HOOK \<or> comm_has_flag c C_BUFFERED_WRITE \<and> \<not> ?early then (False, w)
       else if C_WEBSOCKET_STATE (c_flags c) = WS_CLOSE_SENT then (False, put_comm slot c1 w)
       else (False, put_comm slot c2 (put_comm slot c1 w)))"
    using assms(3,4) unfolding r [symmetric] close_transport_def c2_def c1_def [symmetric] Let_def d(4,5) may_remove_def
    by (cases "c_ssl c") auto
  then show ?thesis using at p q i c2 by (auto split: if_splits)
qed

section \<open>Properties\<close>



section \<open>Hooks that close their own slot\<close>

text \<open>
  A strict-mode hook may call \<^verbatim>\<open>comm_close\<close>, which can remove the slot before the hook returns. The prompt loop
  then sets a flag through the null slot pointer.
\<close>

lemma prompt_hook_closing_slot:
  assumes "comm_at slot w = Some c" and "prompt_due S slot c w"
    and "sv_dispatch S (hook_execution HOOK_PROMPT slot slot [] None) w = Some (r, w1)"
    and "mudmux_dispatch_accepted r" and "comm_at slot w1 = None"
  shows "prompt_slots S (slot # slots) w = None"
  using assms by (simp add: via_comm_def)

text \<open>
  Likewise for a subnegotiation: the read path uses the slot pointer after the hook, whatever follows in
  the same read.
\<close>

lemma subnegotiation_hook_closing_slot:
  assumes "comm_has_flag c C_ENABLE_TELNET" and "\<not> C_WEBSOCKET_IS_READY (c_flags c)"
    and "\<not> comm_has_flag c C_ENABLE_WEBSOCKET"
    and "comm_telnet_process_inbound src (c_flags c AND M_TELNET_STATE) no_negotiation = (data, consumed, state, ng)"
    and "tn_subopt ng \<noteq> []"
    and "\<And>w'. \<exists>w1. comm_dispatch_telnet_subnegotiation S ng slot w' = Some (MUDMUX_DISPATCH_OK, w1) \<and> comm_at slot w1 = None"
  shows "refill_pass S slot i False src c w = None"
proof -
  define c2 where "c2 = (if consumed > length data then comm_process_telnet_options (sv_arm S) ng
      (c\<lparr>c_flags := telnet_set_state (c_flags c) state\<rparr>) else c\<lparr>c_flags := telnet_set_state (c_flags c) state\<rparr>)"
  from assms(6) [of "put_comm slot c2 w"] obtain w1 where
    "comm_dispatch_telnet_subnegotiation S ng slot (put_comm slot c2 w) = Some (MUDMUX_DISPATCH_OK, w1)"
    "comm_at slot w1 = None" by blast
  then show ?thesis using assms(1-5)
    by (simp add: refill_pass_def Let_def c2_def [symmetric])
qed

end
