(* ===== verification/Inbound_Refill.thy ===== *)
theory Inbound_Refill
  imports Inbound_Lines
begin

text \<open>
  Filling the inbound buffer of a Telnet connection. Whatever the number of passes of the loop and the
  subnegotiations in between, the buffer receives the decoded data of the bytes read and the slot flags hold
  the decoder state; no byte is lost as long as the buffer has room.
\<close>

section \<open>Changes that output makes to a slot\<close>

definition write_only :: "comm_abstract \<Rightarrow> comm_abstract \<Rightarrow> bool" where
  "write_only c c' \<longleftrightarrow> same_input c c' \<and>
     (\<forall>m. C_BUFFERED_WRITE AND m = 0 \<longrightarrow> C_SOCKET_WRITABLE AND m = 0 \<longrightarrow> c_flags c' AND m = c_flags c AND m)"

lemma write_only_refl: "write_only c c"
  by (simp add: write_only_def same_input_def)

lemma write_only_trans: "write_only a b \<Longrightarrow> write_only b c \<Longrightarrow> write_only a c"
  by (simp add: write_only_def same_input_def)

lemma write_only_raw: "write_only c (comm_buffered_write_raw_comm arm buf c)"
  using raw_write_same_input [of c arm buf]
  by (simp add: write_only_def raw_write_cases Let_def set_flag_and_other)

lemma write_only_barrier: "write_only c (snd (append_websocket_upgrade_barrier buf c))"
  using barrier_same_input [of c buf]
  by (auto simp: write_only_def append_websocket_upgrade_barrier_def Let_def split: prod.splits)

lemma write_only_write: "write_only c (comm_buffered_write_comm_no_telnet_normalize arm buf c)"
  unfolding comm_buffered_write_comm_no_telnet_normalize_def comm_buffered_write_comm_impl_def Let_def
  by (simp add: write_only_raw write_only_barrier write_only_refl split: option.split)

lemma write_only_subnegotiation: "write_only c (comm_telnet_send_subnegotiation arm x data c)"
  using write_only_trans [OF write_only_trans [OF write_only_write write_only_write] write_only_write]
  by (simp add: comm_telnet_send_subnegotiation_def write_only_refl)

lemma write_only_caps: "write_only c (c\<lparr>c_caps := k\<rparr>)"
  by (simp add: write_only_def same_input_def)

lemma write_only_options: "write_only c (comm_process_telnet_options arm ng c)"
  unfolding comm_process_telnet_options_def Let_def
  by (auto intro: write_only_trans [OF _ write_only_caps] write_only_trans [OF write_only_caps write_only_subnegotiation]
      write_only_caps write_only_refl write_only_trans [OF write_only_trans [OF write_only_caps write_only_subnegotiation] write_only_caps])

definition telnet_slot :: "comm_abstract \<Rightarrow> bool" where
  "telnet_slot c \<longleftrightarrow> comm_has_flag c C_ENABLE_TELNET \<and> \<not> comm_has_flag c C_ENABLE_WEBSOCKET \<and>
     \<not> C_WEBSOCKET_IS_READY (c_flags c)"

definition telnet_state :: "comm_abstract \<Rightarrow> u32" where
  "telnet_state c = c_flags c AND M_TELNET_STATE"

lemma write_only_telnet:
  assumes "write_only c c'"
  shows "telnet_slot c' = telnet_slot c" "telnet_state c' = telnet_state c" "c_inbound c' = c_inbound c"
    "comm_used c' = comm_used c"
proof -
  have "c_flags c' AND k = c_flags c AND k" if "k \<in> {C_ENABLE_TELNET, C_ENABLE_WEBSOCKET, M_WEBSOCKET_STATE, M_TELNET_STATE}" for k
    using assms that by (auto simp: write_only_def flag_defs)
  then show "telnet_slot c' = telnet_slot c" "telnet_state c' = telnet_state c"
    by (simp_all add: telnet_slot_def telnet_state_def mux_simps has_flag_def C_WEBSOCKET_IS_READY_def C_WEBSOCKET_STATE_def)
  show "c_inbound c' = c_inbound c" "comm_used c' = comm_used c"
    using assms by (simp_all add: write_only_def same_input_def comm_used_def)
qed

section \<open>One pass\<close>

text \<open>A scheduler that accepts every execution and whose hooks only write to the slot.\<close>

definition dispatch_quiet :: "'x services \<Rightarrow> int \<Rightarrow> bool" where
  "dispatch_quiet S slot \<longleftrightarrow>
     (\<forall>e w c. world_wf w \<longrightarrow> comm_at slot w = Some c \<longrightarrow>
        (\<exists>r w' c'. sv_dispatch S e w = Some (r, w') \<and> r \<noteq> MUDMUX_DISPATCH_QUEUE_FULL \<and> world_wf w' \<and>
           comm_at slot w' = Some c' \<and> write_only c c'))"

lemma subnegotiation_quiet:
  assumes "dispatch_quiet S slot" "world_wf w" "comm_at slot w = Some c"
  shows "\<exists>r w' c'. comm_dispatch_telnet_subnegotiation S ng slot w = Some (r, w') \<and> r \<noteq> MUDMUX_DISPATCH_QUEUE_FULL \<and>
    world_wf w' \<and> comm_at slot w' = Some c' \<and> write_only c c'"
proof (cases "subnegotiation_execution (sv_hooked S HOOK_TELNET_SUBNEG) ng slot")
  case None
  then show ?thesis using assms by (simp add: comm_dispatch_telnet_subnegotiation_def write_only_refl)
next
  case (Some e)
  from assms obtain r w' c' where "sv_dispatch S e w = Some (r, w')" "r \<noteq> MUDMUX_DISPATCH_QUEUE_FULL" "world_wf w'"
    "comm_at slot w' = Some c'" "write_only c c'"
    unfolding dispatch_quiet_def by blast
  then show ?thesis using Some by (simp add: comm_dispatch_telnet_subnegotiation_def)
qed

lemma telnet_slot_state [simp]:
  "telnet_slot (c\<lparr>c_flags := telnet_set_state (c_flags c) st\<rparr>) = telnet_slot c"
proof -
  have "M_TELNET_STATE AND C_ENABLE_TELNET = 0" "M_TELNET_STATE AND C_ENABLE_WEBSOCKET = 0" by (simp_all add: flag_defs)
  then show ?thesis by (simp add: telnet_slot_def mux_simps C_WEBSOCKET_IS_READY_def)
qed

lemma telnet_decode_state_nonempty: "bs \<noteq> [] \<Longrightarrow> snd (telnet_decode st bs) < 16"
proof -
  assume "bs \<noteq> []"
  then obtain b bs' where "bs = b # bs'" by (cases bs) auto
  then have "snd (telnet_decode st bs) < 8"
    using telnet_decode_state [OF telnet_next_state, of st b bs'] by (simp add: split_beta)
  then show ?thesis by (rule less_trans) simp
qed

lemma refill_pass_decodes:
  assumes q: "dispatch_quiet S slot" and wf: "world_wf w" and at: "comm_at slot w = Some c0"
    and c: "c_inbound c = [b]" "telnet_slot c" "comm_used c" and src: "src \<noteq> []"
  shows "\<exists>k w' c'. refill_pass S slot 0 False src c w = Some (k, False, w') \<and> 0 < k \<and> k \<le> length src \<and>
    world_wf w' \<and> comm_at slot w' = Some c' \<and> telnet_slot c' \<and>
    telnet_state c' = snd (telnet_decode (telnet_state c) (take k src)) \<and>
    c_inbound c' = [b\<lparr>ib_data := ib_data b @ fst (telnet_decode (telnet_state c) (take k src))\<rparr>]"
proof -
  obtain d k st ng where r: "comm_telnet_process_inbound src (telnet_state c) no_negotiation = (d, k, st, ng)"
    by (metis prod_cases4)
  have k: "0 < k" "k \<le> length src" using telnet_process_consumes [OF r src] by simp_all
  have dec: "telnet_decode (telnet_state c) (take k src) = (d, st)"
    using r telnet_scan_decode unfolding comm_telnet_process_inbound_def by blast
  have st: "st < 16"
    using telnet_decode_state_nonempty [of "take k src" "telnet_state c"] dec k src by simp
  have masked: "st AND M_TELNET_STATE = st" using telnet_state_roundtrip [OF st, of 0] by simp
  define c1 where "c1 = c\<lparr>c_flags := telnet_set_state (c_flags c) st\<rparr>"
  define c2 where "c2 = (if k > length d then comm_process_telnet_options (sv_arm S) ng c1 else c1)"
  have w12: "write_only c1 c2" by (simp add: c2_def write_only_options write_only_refl)
  have c1: "telnet_slot c1" "telnet_state c1 = st" "c_inbound c1 = [b]" "comm_used c1"
    using c masked by (simp_all add: c1_def telnet_state_def comm_used_def)
  note c2 = write_only_telnet [OF w12, unfolded c1]
  note p = comm_at_put [OF wf at, of c2]
  have wf2: "world_wf (put_comm slot c2 w)" "comm_at slot (put_comm slot c2 w) = Some c2" using p c2 c1 by simp_all
  have "\<exists>r' w3 c3. (if tn_subopt ng \<noteq> [] then comm_dispatch_telnet_subnegotiation S ng slot (put_comm slot c2 w)
      else Some (MUDMUX_DISPATCH_OK, put_comm slot c2 w)) = Some (r', w3) \<and> r' \<noteq> MUDMUX_DISPATCH_QUEUE_FULL \<and>
      world_wf w3 \<and> comm_at slot w3 = Some c3 \<and> write_only c2 c3"
    using subnegotiation_quiet [OF q wf2] wf2 by (simp add: write_only_refl)
  then obtain r' w3 c3 where d3: "(if tn_subopt ng \<noteq> [] then comm_dispatch_telnet_subnegotiation S ng slot (put_comm slot c2 w)
      else Some (MUDMUX_DISPATCH_OK, put_comm slot c2 w)) = Some (r', w3)" "r' \<noteq> MUDMUX_DISPATCH_QUEUE_FULL"
      "world_wf w3" "comm_at slot w3 = Some c3" "write_only c2 c3" by blast
  note c3 = write_only_telnet [OF d3(5), unfolded c2 c1]
  define c4 where "c4 = c3\<lparr>c_inbound := [b\<lparr>ib_data := ib_data b @ d\<rparr>]\<rparr>"
  have c4: "comm_used c4" "telnet_slot c4" "telnet_state c4 = st"
    using c3 c1 by (simp_all add: c4_def comm_used_def telnet_slot_def telnet_state_def mux_simps)
  note p4 = comm_at_put [OF d3(3,4) c4(1)]
  have "refill_pass S slot 0 False src c w = Some (k, False, put_comm slot c4 w3)"
    using c(2) r d3(1) [unfolded c2_def c1_def] d3(2,4) c3(3) unfolding refill_pass_def Let_def telnet_state_def
    by (simp add: telnet_slot_def c4_def split del: if_split)
  then show ?thesis using k p4 c4 dec by (auto simp: c4_def)
qed

section \<open>The loop\<close>

lemma make_room_spec:
  assumes "ib_wf b"
  shows "ib_unread (make_room b) = ib_unread b" "ib_wf (make_room b)" "ib_band (make_room b) = ib_band b"
    "length (ib_data (make_room b)) \<le> length (ib_data b)"
  using assms by (auto simp: make_room_def ib_unread_def ib_wf_def Let_def)

lemma ib_append:
  "ib_wf b \<Longrightarrow> length (ib_data b) + length d \<le> BUFFER_SIZE \<Longrightarrow>
     ib_wf (b\<lparr>ib_data := ib_data b @ d\<rparr>) \<and> ib_unread (b\<lparr>ib_data := ib_data b @ d\<rparr>) = ib_unread b @ d"
  by (auto simp: ib_wf_def ib_unread_def)

lemma telnet_decode_split:
  "k \<le> length src \<Longrightarrow> telnet_decode st (take k src) = (d, st') \<Longrightarrow>
     telnet_decode st src = (let (e, st'') = telnet_decode st' (drop k src) in (d @ e, st''))"
  using telnet_decode_append [of st "take k src" "drop k src"] by simp

lemma refill_loop_decodes:
  assumes q: "dispatch_quiet S slot"
  shows "world_wf w \<Longrightarrow> comm_at slot w = Some c \<Longrightarrow> one_buffer b c \<Longrightarrow> telnet_slot c \<Longrightarrow>
    length (ib_data (make_room b)) + length src \<le> BUFFER_SIZE \<Longrightarrow> length src < n \<Longrightarrow>
    \<exists>w' c' b'. refill_loop n S slot 0 False src w = Some ([], w') \<and> world_wf w' \<and> comm_at slot w' = Some c' \<and>
      one_buffer b' c' \<and> telnet_slot c' \<and> (ib_unread b', telnet_state c') =
        (ib_unread b @ fst (telnet_decode (telnet_state c) src), snd (telnet_decode (telnet_state c) src))"
proof (induction n arbitrary: w c b src)
  case (Suc n)
  note wf = Suc.prems(1) and at = Suc.prems(2) and one = Suc.prems(3) and tel = Suc.prems(4)
  show ?case
  proof (cases "src = []")
    case True
    then show ?thesis using Suc.prems by auto
  next
    case False
    define b1 where "b1 = make_room b"
    define c1 where "c1 = c\<lparr>c_inbound := [b1]\<rparr>"
    have b1: "ib_unread b1 = ib_unread b" "ib_wf b1" "ib_band b1 = INBOUND_BAND_DATA"
      using one make_room_spec by (auto simp: b1_def one_buffer_def)
    have room: "length (ib_data b1) + length src \<le> BUFFER_SIZE" using Suc.prems(5) by (simp add: b1_def)
    have c1: "c_inbound c1 = [b1]" "telnet_slot c1" "comm_used c1" "telnet_state c1 = telnet_state c"
      using tel comm_at_used [OF at] by (simp_all add: c1_def telnet_slot_def telnet_state_def comm_used_def mux_simps)
    from refill_pass_decodes [OF q wf at c1(1-3) False] obtain k w2 c2 where
      p: "refill_pass S slot 0 False src c1 w = Some (k, False, w2)" "0 < k" "k \<le> length src" "world_wf w2"
        "comm_at slot w2 = Some c2" "telnet_slot c2" "telnet_state c2 = snd (telnet_decode (telnet_state c) (take k src))"
        "c_inbound c2 = [b1\<lparr>ib_data := ib_data b1 @ fst (telnet_decode (telnet_state c) (take k src))\<rparr>]"
      unfolding c1(4) by blast
    define d where "d = fst (telnet_decode (telnet_state c) (take k src))"
    define b2 where "b2 = b1\<lparr>ib_data := ib_data b1 @ d\<rparr>"
    have len: "length d \<le> k" using telnet_decode_length [of "telnet_state c" "take k src"] p(3) by (simp add: d_def)
    have b2: "ib_wf b2" "ib_unread b2 = ib_unread b @ d" "ib_band b2 = INBOUND_BAND_DATA"
      using ib_append [OF b1(2), of d] room len p(3) b1 by (auto simp: b2_def)
    have one2: "one_buffer b2 c2" using p(8) b2 by (simp add: one_buffer_def b2_def d_def)
    have small: "length (drop k src) < n" using Suc.prems(6) p(2,3) by simp
    have "length (ib_data (make_room b2)) + length (drop k src) \<le> BUFFER_SIZE"
      using make_room_spec(4) [OF b2(1)] room len p(3) by (simp add: b2_def)
    from Suc.IH [OF p(4,5) one2 p(6) this small] obtain w' c' b' where
      ih: "refill_loop n S slot 0 False (drop k src) w2 = Some ([], w')" "world_wf w'" "comm_at slot w' = Some c'"
        "one_buffer b' c'" "telnet_slot c'"
        "(ib_unread b', telnet_state c') = (ib_unread b2 @ fst (telnet_decode (telnet_state c2) (drop k src)),
          snd (telnet_decode (telnet_state c2) (drop k src)))"
      by blast
    have all: "min (length src) (BUFFER_SIZE - length (ib_data b1)) = length src" using room by simp
    have step: "refill_loop (Suc n) S slot 0 False src w = refill_loop n S slot 0 False (drop k src) w2"
      using at one False b1(3) all p(1)
      by (simp add: one_buffer_def Let_def b1_def [symmetric] c1_def [symmetric])
    have "telnet_decode (telnet_state c) src =
        (let (e, st'') = telnet_decode (telnet_state c2) (drop k src) in (d @ e, st''))"
      by (rule telnet_decode_split [OF p(3)]) (simp add: d_def p(7))
    with ih step b2 show ?thesis by (auto simp: split_beta Let_def)
  qed
qed simp

section \<open>Properties\<close>

text \<open>The current buffer of a slot after the lazy allocation, which is the whole chain.\<close>

definition current_buffer :: "comm_abstract \<Rightarrow> inbound_buffer" where
  "current_buffer c = (if c_inbound c = [] then empty_inbound_buffer else hd (c_inbound c))"

definition single_buffer :: "comm_abstract \<Rightarrow> bool" where
  "single_buffer c \<longleftrightarrow> c_inbound c = [] \<or> (\<exists>b. one_buffer b c)"

lemma current_buffer_spec:
  assumes "single_buffer c"
  shows "one_buffer (current_buffer c) (c\<lparr>c_inbound := [current_buffer c]\<rparr>)"
    "(if c_inbound c = [] then [empty_inbound_buffer] else c_inbound c) = [current_buffer c]"
    "ib_unread (current_buffer c) = inbound_bytes (c_inbound c)"
  using assms by (auto simp: single_buffer_def one_buffer_def current_buffer_def empty_inbound_buffer_def ib_wf_def ib_unread_def)

text \<open>
  C3. Reading from a Telnet connection. For a plain Telnet slot whose hooks accept subnegotiations and only
  write, storing the bytes of one read that fit into the buffer succeeds, and the unread bytes of the slot
  are extended by exactly the decoded data of the read, with the decoder state kept in the slot flags. The
  subnegotiations and option commands in between, and the number of passes of the loop, do not matter.
\<close>

theorem refill_stores_decoded_data:
  assumes "dispatch_quiet S slot" and "world_wf w" and "comm_at slot w = Some c" and "single_buffer c" and "telnet_slot c"
    and "length (ib_data (make_room (current_buffer c))) + length src \<le> BUFFER_SIZE"
  shows "\<exists>w' c'. refill_inbound_buffers_from_src S slot src w = Some (True, w') \<and> world_wf w' \<and>
    comm_at slot w' = Some c' \<and> single_buffer c' \<and> telnet_slot c' \<and>
    inbound_bytes (c_inbound c') = inbound_bytes (c_inbound c) @ fst (telnet_decode (telnet_state c) src) \<and>
    telnet_state c' = snd (telnet_decode (telnet_state c) src)"
proof -
  define b where "b = current_buffer c"
  define c1 where "c1 = c\<lparr>c_inbound := [b]\<rparr>"
  note b = current_buffer_spec [OF assms(4), folded b_def, folded c1_def]
  have c1: "comm_used c1" "telnet_slot c1" "telnet_state c1 = telnet_state c"
    using comm_at_used [OF assms(3)] assms(5) by (simp_all add: c1_def comm_used_def telnet_slot_def telnet_state_def mux_simps)
  note p = comm_at_put [OF assms(2,3) c1(1)]
  have at: "comm_at slot (put_comm slot c1 w) = Some c1" using p by simp
  from refill_loop_decodes [OF assms(1) p(2) at b(1) c1(2) assms(6) [folded b_def], of "length src + 1 + 1"]
  obtain w' c' b' where r: "refill_loop (length src + 1 + 1) S slot 0 False src (put_comm slot c1 w) = Some ([], w')"
    "world_wf w'" "comm_at slot w' = Some c'" "one_buffer b' c'" "telnet_slot c'"
    "ib_unread b' = ib_unread b @ fst (telnet_decode (telnet_state c) src)"
    "telnet_state c' = snd (telnet_decode (telnet_state c) src)"
    unfolding c1(3) by auto
  have "refill_inbound_buffers_from_src S slot src w = Some (True, w')"
    using assms(3) r(1,3,5) unfolding refill_inbound_buffers_from_src_def
    by (simp add: Let_def b(2) c1_def [symmetric] telnet_slot_def del: refill_loop.simps)
  then show ?thesis using r b(3) by (auto simp: single_buffer_def one_buffer_def)
qed

lemma sample_dispatch_quiet: "dispatch_quiet sample_services slot"
  by (auto simp: dispatch_quiet_def sample_services_def recording_def world_wf_def comm_at_def write_only_refl)

theorem refill_stores_decoded_data_witness:
  "\<exists>w' c'. refill_inbound_buffers_from_src sample_services 1 [98, 255, 253, 1, 255, 250, 24, 0, 255, 240, 99, 255, 255]
       (sample_world (sample_comm C_ENABLE_TELNET [97])) = Some (True, w') \<and>
     comm_at 1 w' = Some c' \<and> inbound_bytes (c_inbound c') = [97, 98, 99, 255]"
proof -
  let ?src = "[98, 255, 253, 1, 255, 250, 24, 0, 255, 240, 99, 255, 255] :: byte list"
  let ?c = "sample_comm C_ENABLE_TELNET [97]"
  have d: "telnet_decode 0 ?src = ([98, 99, 255], 0)" by code_simp
  have s: "single_buffer ?c" by (simp add: single_buffer_def one_buffer_def ib_wf_def BUFFER_SIZE_def)
  have t: "telnet_slot ?c" "telnet_state ?c = 0"
    by (simp_all add: telnet_slot_def telnet_state_def mux_simps has_flag_def flag_defs C_WEBSOCKET_IS_READY_def C_WEBSOCKET_STATE_def)
  have r: "length (ib_data (make_room (current_buffer ?c))) + length ?src \<le> BUFFER_SIZE"
    by (simp add: current_buffer_def make_room_def BUFFER_SIZE_def)
  from refill_stores_decoded_data [OF sample_dispatch_quiet sample_world_ok(1) sample_world_ok(2) s t(1) r]
  show ?thesis by (auto simp: t(2) d ib_unread_def simp del: telnet_decode.simps)
qed

text \<open>
  A CR LF that arrives in two reads ends two lines: the CR completes the first one, and the LF alone is
  an empty line.
\<close>

lemma split_crlf_extra_line:
  "lines [97, 13, 10] = [[97]] \<and> lines [97, 13] @ lines (partial_line [97, 13] @ [10]) = [[97], []]"
  by code_simp

text \<open>
  While a subnegotiation waits for a busy slot, the rest of the read is stored without Telnet decoding.
\<close>

lemma paused_stores_raw:
  "comm_at slot w = Some c0 \<Longrightarrow>
   refill_pass S slot i True src c w =
     Some (length src, True, put_comm slot
       (c\<lparr>c_inbound := (c_inbound c)[i := (c_inbound c ! i)\<lparr>ib_data := ib_data (c_inbound c ! i) @ src\<rparr>]\<rparr>) w)"
  by (simp add: refill_pass_def Let_def)

end
