(* ===== verification/Inbound_Typing.thy ===== *)
theory Inbound_Typing
  imports Inbound_Refill Connection_Close
begin

text \<open>
  A type invariant of the input path: at every moment each slot holds at most one inbound buffer, of the data
  band, with its read position inside its contents and its contents inside the array. Every operation of
  \<^verbatim>\<open>Connection\<close> and \<^verbatim>\<open>Inbound\<close> keeps it, provided the application and the scheduler do.
\<close>

section \<open>The invariant and its rules\<close>

definition input_typed :: "'x world \<Rightarrow> bool" where
  "input_typed w \<longleftrightarrow> table_wf (w_slots w) \<and> (\<forall>slot c. comm_at slot w = Some c \<longrightarrow> single_buffer c)"

lemma typed_world_wf [simp]: "input_typed w \<Longrightarrow> world_wf w"
  by (auto simp: input_typed_def world_wf_def sized_table_def table_wf_def split: option.splits)

text \<open>What may follow a slot record: it stays in use, is the same connection and keeps the shape of its chain.\<close>

definition next_comm :: "comm_abstract \<Rightarrow> comm_abstract \<Rightarrow> bool" where
  "next_comm c c' \<longleftrightarrow> (comm_used c \<longrightarrow> comm_used c') \<and> (single_buffer c \<longrightarrow> single_buffer c') \<and>
     c_generation c' = c_generation c"

named_theorems typed_rules

lemma next_same: "same_input c c' \<Longrightarrow> next_comm c c'"
  by (simp add: next_comm_def same_input_used) (simp add: same_input_def single_buffer_def one_buffer_def)

lemma next_refl [typed_rules]: "next_comm c c"
  by (simp add: next_comm_def)

lemma next_trans: "next_comm a b \<Longrightarrow> next_comm b c \<Longrightarrow> next_comm a c"
  by (simp add: next_comm_def)

lemma next_flags [typed_rules]:
  "next_comm a c \<Longrightarrow> next_comm a (comm_set_flag m c)" "next_comm a c \<Longrightarrow> next_comm a (comm_clear_flag m c)"
  "next_comm a c \<Longrightarrow> next_comm a (c\<lparr>c_flags := f\<rparr>)"
  "next_comm a c \<Longrightarrow> next_comm a (c\<lparr>c_websocket := ws\<rparr>)"
  "next_comm a c \<Longrightarrow> next_comm a (c\<lparr>c_outbound := ob\<rparr>)"
  "next_comm a c \<Longrightarrow> next_comm a (c\<lparr>c_outbound := ob, c_websocket_upgrade_barrier := bb\<rparr>)"
  "next_comm a c \<Longrightarrow> next_comm a (comm_free_outbound_buffers c)"
  "next_comm a c \<Longrightarrow> next_comm a (comm_free_inbound_buffers c)"
  by (auto simp: next_comm_def mux_simps comm_used_def single_buffer_def one_buffer_def comm_free_outbound_buffers_def
      comm_free_inbound_buffers_def)

lemma next_writes [typed_rules]:
  "next_comm a c \<Longrightarrow> next_comm a (comm_buffered_write_raw_comm arm buf c)"
  "next_comm a c \<Longrightarrow> next_comm a (comm_buffered_write_comm arm buf c)"
  "next_comm a c \<Longrightarrow> next_comm a (comm_buffered_write_comm_no_telnet_normalize arm buf c)"
  "next_comm a c \<Longrightarrow> next_comm a (snd (comm_websocket_queue_close arm buf c))"
  using next_trans next_same raw_write_same_input write_same_input queue_close_same_input write_only_write
  unfolding write_only_def by blast+

lemma next_if [typed_rules]: "next_comm a c \<Longrightarrow> next_comm a c' \<Longrightarrow> next_comm a (if P then c else c')"
  by simp

lemma next_telnet [typed_rules]:
  "next_comm a c \<Longrightarrow> next_comm a (comm_telnet_send_will arm x c)"
  "next_comm a c \<Longrightarrow> next_comm a (comm_telnet_send_wont arm x c)"
  "next_comm a c \<Longrightarrow> next_comm a (comm_telnet_send_do arm x c)"
  "next_comm a c \<Longrightarrow> next_comm a (comm_telnet_send_subnegotiation arm x data c)"
  unfolding comm_telnet_send_will_def comm_telnet_send_wont_def comm_telnet_send_do_def comm_telnet_send_subnegotiation_def
  by (intro typed_rules, assumption+)+

lemma next_negotiation [typed_rules]:
  "next_comm a c \<Longrightarrow> next_comm a (comm_start_telnet_negotiation arm c)"
  "next_comm a c \<Longrightarrow> next_comm a (comm_enable_telnet_for_slot arm c)"
  "next_comm a c \<Longrightarrow> next_comm a (comm_process_telnet_options arm ng c)"
proof -
  assume c: "next_comm a c"
  show "next_comm a (comm_start_telnet_negotiation arm c)" "next_comm a (comm_enable_telnet_for_slot arm c)"
    unfolding comm_start_telnet_negotiation_def comm_enable_telnet_for_slot_def start_telnet_negotiation_def Let_def
    by (intro typed_rules c)+
  show "next_comm a (comm_process_telnet_options arm ng c)"
    using write_only_options next_trans [OF c next_same] by (simp add: write_only_def)
qed

text \<open>States reached by a computation; \<open>sel\<close> picks the state from its result.\<close>

definition tw :: "('b \<Rightarrow> 'x world) \<Rightarrow> 'b option \<Rightarrow> bool" where
  "tw sel m \<longleftrightarrow> (\<forall>y. m = Some y \<longrightarrow> input_typed (sel y))"

lemma tw_Some: "input_typed (sel y) \<Longrightarrow> tw sel (Some y)"
  by (simp add: tw_def)

lemma tw_None: "tw sel None"
  by (simp add: tw_def)

lemma tw_bind:
  "tw sel' m \<Longrightarrow> (\<And>y. m = Some y \<Longrightarrow> input_typed (sel' y) \<Longrightarrow> tw sel (f y)) \<Longrightarrow> tw sel (Option.bind m f)"
  by (cases m) (simp_all add: tw_def)

lemma tw_bind_value: "(\<And>y. m = Some y \<Longrightarrow> tw sel (f y)) \<Longrightarrow> tw sel (Option.bind m f)"
  by (cases m) (simp_all add: tw_def)

lemma tw_if: "(P \<Longrightarrow> tw sel a) \<Longrightarrow> (\<not> P \<Longrightarrow> tw sel b) \<Longrightarrow> tw sel (if P then a else b)"
  by simp

lemma tw_option: "(m = None \<Longrightarrow> tw sel a) \<Longrightarrow> (\<And>y. m = Some y \<Longrightarrow> tw sel (f y)) \<Longrightarrow> tw sel (case m of None \<Rightarrow> a | Some y \<Rightarrow> f y)"
  by (cases m) simp_all

lemma tw_pair: "(\<And>a b. p = (a, b) \<Longrightarrow> tw sel (f a b)) \<Longrightarrow> tw sel (case p of (a, b) \<Rightarrow> f a b)"
  by (cases p) simp

lemma tw_map: "tw (\<lambda>y. sel (g y)) m \<Longrightarrow> tw sel (map_option g m)"
  by (cases m) (simp_all add: tw_def)

lemmas tw_rules = tw_Some tw_None tw_if tw_option tw_pair tw_map

section \<open>Slot updates\<close>

lemma typed_put:
  assumes "input_typed w" "comm_at slot w = Some c" "next_comm c c'"
  shows "input_typed (put_comm slot c' w)" "comm_at slot (put_comm slot c' w) = Some c'"
proof -
  have c': "comm_used c'" "single_buffer c'"
    using assms comm_at_used [OF assms(2)] by (auto simp: next_comm_def input_typed_def)
  have "slot_ok c"
    using assms(1,2) unfolding input_typed_def comm_at_def comm_abstract_get_def by (metis resolve_ptr slot_ptr_ok)
  then have "slot_ok c'" using c' assms(3) comm_at_used [OF assms(2)] by (simp add: slot_ok_def next_comm_def)
  then have t: "table_wf (w_slots (put_comm slot c' w))"
    using assms(1) set_slot_wf by (simp add: put_comm_def input_typed_def)
  note p = comm_at_put(1) [OF typed_world_wf [OF assms(1)] assms(2) c'(1)]
  show "input_typed (put_comm slot c' w)" "comm_at slot (put_comm slot c' w) = Some c'"
    using assms(1) c'(2) t by (auto simp: input_typed_def p)
qed

lemma typed_fields [simp]:
  "input_typed (w\<lparr>w_deferred := d\<rparr>) = input_typed w" "input_typed (w\<lparr>w_terminal := tm\<rparr>) = input_typed w"
  "input_typed (w\<lparr>w_ext := x\<rparr>) = input_typed w" "input_typed (w\<lparr>w_shutdown := s\<rparr>) = input_typed w"
  "input_typed (on_ext g w) = input_typed w"
  by (simp_all add: input_typed_def comm_at_def on_ext_def)

lemma typed_via: "input_typed w \<Longrightarrow> (\<And>c. next_comm c (f c)) \<Longrightarrow> tw id (via_comm slot f w)"
  unfolding via_comm_def by (intro tw_map) (auto simp: tw_def intro: typed_put(1))

lemma typed_remove: "input_typed w \<Longrightarrow> comm_at slot w = Some c \<Longrightarrow> input_typed (close_remove S slot w)"
proof -
  assume w: "input_typed w" and at: "comm_at slot w = Some c"
  obtain rel t where r: "comm_abstract_remove (sv_unix_path S) (w_slots w) slot = (rel, t)" by fastforce
  then have "table_wf (w_slots (close_remove S slot w))"
    using remove_spec [OF _ r] w by (simp add: close_remove_def input_typed_def)
  then show ?thesis
    using comm_at_remove(1) [OF typed_world_wf [OF w] at] w by (auto simp: input_typed_def split: if_splits)
qed

text \<open>
  What is asked of the environment: hooks have no access to the input buffers, so that a dispatch leaves the chain
  of a slot alone or empties it by closing the slot; and \<^verbatim>\<open>mbrlen\<close> never reports more bytes than it was given.
\<close>

definition chains_kept :: "'x world \<Rightarrow> 'x world \<Rightarrow> bool" where
  "chains_kept w w' \<longleftrightarrow> (\<forall>slot c c'. comm_at slot w = Some c \<longrightarrow> comm_at slot w' = Some c' \<longrightarrow>
     c_inbound c' = c_inbound c \<or> c_inbound c' = [])"

definition typed_services :: "'x services \<Rightarrow> bool" where
  "typed_services S \<longleftrightarrow>
     (\<forall>e w r w'. input_typed w \<longrightarrow> sv_dispatch S e w = Some (r, w') \<longrightarrow> input_typed w' \<and> chains_kept w w') \<and>
     (\<forall>slot w. input_typed w \<longrightarrow> input_typed (sv_cancel S slot w)) \<and>
     (\<forall>bs n. sv_mbrlen S bs = Mbr n \<longrightarrow> n \<le> length bs)"

lemma typed_dispatch: "typed_services S \<Longrightarrow> input_typed w \<Longrightarrow> tw snd (sv_dispatch S e w)"
  by (auto simp: typed_services_def tw_def)

lemma kept_dispatch:
  "typed_services S \<Longrightarrow> input_typed w \<Longrightarrow> sv_dispatch S e w = Some (r, w') \<Longrightarrow> input_typed w' \<and> chains_kept w w'"
  by (auto simp: typed_services_def)

lemma typed_cancel: "typed_services S \<Longrightarrow> input_typed w \<Longrightarrow> input_typed (sv_cancel S slot w)"
  by (simp add: typed_services_def)

section \<open>Connect, transport ready, handshake\<close>

lemma typed_put_flags:
  assumes "input_typed w" "comm_at slot w = Some c"
  shows "input_typed (put_comm slot (comm_set_flag m c) w)" "input_typed (put_comm slot (comm_clear_flag m c) w)"
    "input_typed (put_comm slot (comm_set_flag m (comm_set_flag m' c)) w)"
    "input_typed (put_comm slot (comm_set_flag m (comm_clear_flag m' c)) w)"
    "input_typed (put_comm slot (comm_clear_flag m (comm_set_flag m' c)) w)"
    "input_typed (put_comm slot (comm_clear_flag m (comm_clear_flag m' c)) w)"
  by (rule typed_put(1) [OF assms], intro typed_rules)+

lemma transport_ready_typed:
  assumes S: "typed_services S" and w: "input_typed w"
  shows "tw id (comm_invoke_transport_ready S slot w)"
  unfolding comm_invoke_transport_ready_def Let_def
  by (intro tw_rules tw_bind [OF typed_dispatch [OF S]] typed_via)
    (auto simp: w typed_put_flags intro: typed_rules)

lemma resume_hooks_typed:
  assumes "input_typed w"
  shows "input_typed (resume_input_after_transport_ready_hook slot w)" "input_typed (resume_input_after_inbound_hook slot w)"
    "input_typed (disconnect_complete slot w)" "input_typed (comm_defer_input slot w)" "input_typed (comm_enable_prompt slot b w)"
  using assms by (auto simp: resume_input_after_transport_ready_hook_def resume_input_after_inbound_hook_def
      disconnect_complete_def comm_defer_input_def comm_enable_prompt_def typed_put_flags split: option.splits)

lemma resume_connect_typed:
  assumes S: "typed_services S" and w: "input_typed w"
  shows "tw id (resume_input_after_connect_hook S slot w)"
  unfolding resume_input_after_connect_hook_def
  by (intro tw_rules tw_bind [OF transport_ready_typed [OF S]] tw_bind [OF typed_via])
    (auto simp: w typed_put_flags intro: typed_rules)

lemma connect_typed:
  assumes S: "typed_services S" and w: "input_typed w"
  shows "tw snd (comm_invoke_connect S slot entry w)"
  unfolding comm_invoke_connect_def Let_def
  by (intro tw_rules tw_bind [OF typed_dispatch [OF S]] tw_bind [where sel' = id] transport_ready_typed [OF S])
    (auto simp: w typed_put_flags split: option.splits)

lemma interest_typed [simp]: "input_typed (update_slot_event_interest S c b w) = input_typed w"
  by (simp add: update_slot_event_interest_def split: option.splits)

lemma handshake_typed:
  assumes S: "typed_services S" and w: "input_typed w"
  shows "tw snd (comm_tls_handshake_step S slot w)"
proof -
  have at: "comm_at s (w\<lparr>w_ext := x\<rparr>) = comm_at s w" for s x by (simp add: comm_at_def)
  have put: "comm_at slot w = Some c \<Longrightarrow> input_typed (put_comm slot (comm_set_flag m c) (w\<lparr>w_ext := x\<rparr>))" for c m x
    by (rule typed_put_flags) (simp_all add: w at)
  show ?thesis
    unfolding comm_tls_handshake_step_def Let_def
    by (auto intro!: tw_rules transport_ready_typed [OF S, unfolded id_def] simp: w put tw_map split: option.splits handshake.splits)
qed

section \<open>Flushing and closing\<close>

lemma flush_outbound_typed: "input_typed w \<Longrightarrow> tw id (flush_outbound S slot w)"
proof -
  assume w: "input_typed w"
  have at: "comm_at s (w\<lparr>w_ext := x\<rparr>) = comm_at s w" for s x by (simp add: comm_at_def)
  have put: "comm_at slot w = Some c \<Longrightarrow> next_comm c c' \<Longrightarrow> input_typed (put_comm slot c' (w\<lparr>w_ext := x\<rparr>))" for c c' x
    by (rule typed_put(1)) (simp_all add: w at)
  show ?thesis
    unfolding flush_outbound_def Let_def
    by (intro tw_bind_value tw_rules) (auto intro!: put typed_rules)
qed

lemma finish_flush_typed: "input_typed w \<Longrightarrow> tw id (finish_flush S slot w)"
proof -
  assume w: "input_typed w"
  have put: "comm_at slot w = Some c \<Longrightarrow> next_comm c c' \<Longrightarrow> input_typed (put_comm slot c' (on_ext g w))" for c c' g
    by (rule typed_put(1)) (simp_all add: w)
  have put': "comm_at slot w = Some c \<Longrightarrow> next_comm c c' \<Longrightarrow> input_typed (put_comm slot c' w)" for c c'
    by (rule typed_put(1)) (simp_all add: w)
  show ?thesis
    unfolding finish_flush_def Let_def
    by (intro tw_bind_value tw_rules) (auto simp: w intro!: put put' typed_rules split: option.split)
qed

lemma flush_handshake_typed: "typed_services S \<Longrightarrow> input_typed w \<Longrightarrow> tw snd (flush_handshake S slot c w)"
  unfolding flush_handshake_def
  by (intro tw_rules tw_bind [OF handshake_typed] tw_bind_value) auto

lemma flush_typed: "typed_services S \<Longrightarrow> input_typed w \<Longrightarrow> tw id (comm_flush n S slot w)"
proof (induction n arbitrary: w)
  case (Suc n)
  note S = Suc.prems(1) and w = Suc.prems(2)
  have put: "input_typed w2 \<Longrightarrow> comm_at slot w2 = Some c \<Longrightarrow> next_comm c c' \<Longrightarrow> input_typed (put_comm slot c' w2)" for w2 c c'
    by (rule typed_put(1))
  show ?case
    unfolding comm_flush.simps Let_def
    by (intro tw_option tw_Some tw_if tw_pair tw_bind [OF flush_handshake_typed [OF S]] tw_bind [OF flush_outbound_typed]
        tw_bind_value Suc.IH [OF S] tw_bind [where sel' = id] transport_ready_typed [OF S] finish_flush_typed)
      (auto simp: w intro!: put typed_rules)
qed (simp add: tw_def)

lemma close_disconnect_typed:
  assumes S: "typed_services S" and w: "input_typed w" and at: "comm_at slot w = Some c"
  shows "tw snd (close_disconnect S slot c w)"
proof -
  have via: "input_typed w2 \<Longrightarrow> tw id (via_comm slot (comm_set_flag m) w2)"
    "input_typed w2 \<Longrightarrow> tw id (via_comm slot (comm_clear_flag m) w2)"
    "input_typed w2 \<Longrightarrow> tw id (via_comm slot (\<lambda>c. comm_clear_flag m (comm_set_flag m' c)) w2)" for m m' w2
    by (intro typed_via typed_rules; assumption)+
  show ?thesis
    unfolding close_disconnect_def
    by (intro tw_rules tw_bind [OF via(1)] tw_bind [OF via(2)] tw_bind [OF via(3)] tw_bind [OF typed_dispatch [OF S]]
        tw_bind [where sel' = id] via)
      (auto intro: typed_cancel [OF S] typed_put_flags [OF w at])
qed

lemma close_transport_typed:
  assumes w: "input_typed w" and at: "comm_at slot w = Some c"
  shows "input_typed (snd (close_transport S slot sig c w))"
proof -
  define c1 where "c1 = (if comm_has_flag c C_BUFFERED_WRITE
    then comm_clear_flag C_BUFFERED_WRITE (comm_free_outbound_buffers c) else c)"
  have c1: "next_comm c c1" unfolding c1_def by (intro typed_rules)
  note p = typed_put [OF w at c1]
  have q: "input_typed (put_comm slot (snd (comm_websocket_queue_close (sv_arm S) buf c1)) (put_comm slot c1 w))" for buf
    by (rule typed_put(1) [OF p]) (intro typed_rules)
  have e: "next_comm c (comm_clear_flag m (comm_free_outbound_buffers c))" for m by (intro typed_rules)
  note pe = typed_put [OF w at e, of C_BUFFERED_WRITE]
  have rm: "input_typed v \<Longrightarrow> comm_at slot v = Some c1 \<Longrightarrow> input_typed (close_remove S slot v)" for v
    by (rule typed_remove)
  show ?thesis
  proof (cases "slot = COMM_SLOT_CONSOLE")
    case True
    then show ?thesis using w pe(1) typed_remove [OF pe] by (auto simp: close_transport_def Let_def)
  next
    case False
    then show ?thesis
      unfolding close_transport_def Let_def c1_def [symmetric]
      by (simp add: w p q rm split: option.split)
  qed
qed

lemma close_typed:
  assumes S: "typed_services S" and w: "input_typed w"
  shows "tw snd (comm_close_impl S slot sig w)"
  unfolding comm_close_impl_def
  by (intro tw_rules tw_bind [where sel' = snd] close_disconnect_typed [OF S] tw_bind_value)
    (auto simp: w close_transport_typed)

lemma flush_all_typed:
  assumes S: "typed_services S" and w: "input_typed w"
  shows "tw id (comm_flush_all n S w)"
proof -
  have f: "input_typed v \<Longrightarrow> tw id (flush_slots n S slots v)" for slots v
    by (induction slots arbitrary: v) (auto intro!: tw_Some tw_bind [OF flush_typed [OF S]])
  have p: "input_typed v \<Longrightarrow> tw id (progress_slots S slots v)" for slots v
  proof (induction slots arbitrary: v)
    case (Cons a slots)
    show ?case
      unfolding progress_slots.simps comm_close_def
      by (intro tw_option tw_if tw_bind [OF close_typed [OF S]] tw_pair Cons.IH) (use Cons.prems in auto)
  qed (simp add: tw_Some)
  show ?thesis
    unfolding comm_flush_all_def by (intro tw_bind [OF f] p) (simp_all add: w)
qed

lemma output_typed:
  assumes S: "typed_services S" and w: "input_typed w"
  shows "input_typed (comm_buffered_write S loc slot buf w)" "tw id (comm_add_message S loc slot buf w)"
proof -
  show b: "input_typed (comm_buffered_write S loc slot buf w)"
    unfolding comm_buffered_write_def Let_def
    by (auto simp: w split: option.split intro!: typed_put(1) [OF w] typed_rules)
  show "tw id (comm_add_message S loc slot buf w)"
    unfolding comm_add_message_def
    using typed_dispatch [OF S w] by (intro tw_rules) (auto simp: w b tw_def)
qed

section \<open>Upgrade\<close>

lemma consume_single: "single_buffer c \<Longrightarrow> single_buffer (c\<lparr>c_inbound := comm_consume_inbound_data n (c_inbound c)\<rparr>)"
proof -
  assume "single_buffer c"
  then consider "c_inbound c = []" | b where "c_inbound c = [b]" "ib_wf b" "ib_band b = INBOUND_BAND_DATA"
    by (auto simp: single_buffer_def one_buffer_def)
  then show ?thesis
  proof cases
    case 2
    let ?k = "min (length (ib_data b) - ib_start b) n"
    have "comm_consume_inbound_data n [b] =
        (if n = 0 then [b] else if ib_start b + ?k \<ge> length (ib_data b) then [] else [b\<lparr>ib_start := ib_start b + ?k\<rparr>])"
      using 2 by (simp add: Let_def ib_wf_def)
    then show ?thesis using 2 by (auto simp: single_buffer_def one_buffer_def ib_wf_def)
  qed (simp add: single_buffer_def)
qed

lemma next_consume [typed_rules]:
  "next_comm a c \<Longrightarrow> next_comm a (c\<lparr>c_inbound := comm_consume_inbound_data n (c_inbound c)\<rparr>)"
  using consume_single by (auto simp: next_comm_def comm_used_def)

lemma next_upgrade [typed_rules]: "next_comm a c \<Longrightarrow> next_comm a (complete_upgrade S resp n t c)"
  unfolding complete_upgrade_def Let_def by (intro typed_rules)

lemma try_upgrade_typed:
  assumes S: "typed_services S" and w: "input_typed w"
  shows "tw id (comm_try_upgrade_websocket S slot w)"
proof -
  have rej: "tw id (send_websocket_rejection S slot code c w)" if "comm_at slot w = Some c" for code c
  proof -
    have "input_typed (put_comm slot (comm_buffered_write_raw_comm (sv_arm S) (rejection_response code)
       (comm_clear_flag C_ENABLE_WEBSOCKET (comm_free_inbound_buffers (comm_free_outbound_buffers c)))) w)"
      by (rule typed_put(1) [OF w that]) (intro typed_rules)
    from close_typed [OF S this] show ?thesis
      unfolding send_websocket_rejection_def Let_def comm_close_def by (intro tw_map) simp
  qed
  have up: "input_typed (put_comm slot (complete_upgrade S resp n t c) w)" if "comm_at slot w = Some c" for resp n t c
    by (rule typed_put(1) [OF w that]) (intro typed_rules)
  show ?thesis
    unfolding comm_try_upgrade_websocket_def Let_def
    by (auto intro!: tw_option tw_if tw_Some rej up split: sum.split simp: w)
qed

section \<open>Refilling\<close>

lemma chains_kept_refl: "chains_kept w w"
  by (simp add: chains_kept_def)

lemma via_flag_kept:
  assumes "input_typed w" "via_comm slot (comm_set_flag m) w = Some w'"
  shows "input_typed w' \<and> chains_kept w w'"
proof -
  obtain c where c: "comm_at slot w = Some c" "w' = put_comm slot (comm_set_flag m c) w"
    using assms(2) by (auto simp: via_comm_def)
  have "world_wf w" "comm_used (comm_set_flag m c)"
    using assms(1) comm_at_used [OF c(1)] by (simp_all add: mux_simps comm_used_def)
  then have "chains_kept w w'"
    using comm_at_put(1) [OF _ c(1)] c by (auto simp: chains_kept_def mux_simps split: if_splits)
  then show ?thesis using typed_put_flags(1) [OF assms(1) c(1)] c(2) by simp
qed

lemma chains_kept_trans:
  assumes "chains_kept w w1" "chains_kept w1 w2" "\<And>slot. comm_at slot w2 \<noteq> None \<Longrightarrow> comm_at slot w1 \<noteq> None"
  shows "chains_kept w w2"
  using assms unfolding chains_kept_def by (metis option.exhaust)

lemma kept_deferred [simp]: "chains_kept w (w'\<lparr>w_deferred := d\<rparr>) = chains_kept w w'"
  by (simp add: chains_kept_def)

lemma subnegotiation_typed:
  assumes S: "typed_services S" and w: "input_typed w"
    and r: "comm_dispatch_telnet_subnegotiation S ng slot w = Some (r, w')"
  shows "input_typed w' \<and> chains_kept w w'"
proof (cases "subnegotiation_execution (sv_hooked S HOOK_TELNET_SUBNEG) ng slot")
  case None
  then show ?thesis using r w by (simp add: comm_dispatch_telnet_subnegotiation_def chains_kept_refl)
next
  case (Some e)
  then obtain r1 w1 where d: "sv_dispatch S e w = Some (r1, w1)"
    using r by (auto simp: comm_dispatch_telnet_subnegotiation_def Option.bind_eq_Some_conv)
  note k = kept_dispatch [OF S w d]
  show ?thesis
  proof (cases "r1 = MUDMUX_DISPATCH_QUEUE_FULL")
    case True
    then obtain w2 where w2: "via_comm slot (comm_set_flag C_DEFERRED_INBOUND) w1 = Some w2" "w' = w2\<lparr>w_deferred := True\<rparr>"
      using r Some d by (auto simp: comm_dispatch_telnet_subnegotiation_def Option.bind_eq_Some_conv)
    then obtain c where "comm_at slot w1 = Some c" "w2 = put_comm slot (comm_set_flag C_DEFERRED_INBOUND c) w1"
      by (auto simp: via_comm_def)
    then have "comm_at s w2 \<noteq> None \<Longrightarrow> comm_at s w1 \<noteq> None" for s
      using comm_at_put(1) [of w1 slot c "comm_set_flag C_DEFERRED_INBOUND c" s] k comm_at_used [of slot w1 c]
      by (auto simp: mux_simps comm_used_def split: if_splits)
    note t = chains_kept_trans [OF conjunct2 [OF k] _ this]
    show ?thesis using via_flag_kept [OF conjunct1 [OF k] w2(1)] t by (simp add: w2(2))
  next
    case False
    then show ?thesis using r Some d k by (auto simp: comm_dispatch_telnet_subnegotiation_def)
  qed
qed

lemma add_bytes_typed:
  assumes "input_typed w" "comm_at slot w = Some c" "c_inbound c = [b] \<or> c_inbound c = []"
    and "one_buffer b c0" "length (ib_data b) + length d \<le> BUFFER_SIZE" and "c_inbound c' = c_inbound c" "comm_used c'" "c_generation c' = c_generation c"
  shows "input_typed (put_comm slot
    (c'\<lparr>c_inbound := (c_inbound c')[0 := (c_inbound c' ! 0)\<lparr>ib_data := ib_data (c_inbound c' ! 0) @ d\<rparr>]\<rparr>) w)"
proof -
  have "single_buffer (c'\<lparr>c_inbound := (c_inbound c')[0 := (c_inbound c' ! 0)\<lparr>ib_data := ib_data (c_inbound c' ! 0) @ d\<rparr>]\<rparr>)"
    using assms(3-6) by (auto simp: single_buffer_def one_buffer_def ib_wf_def)
  then show ?thesis using assms by (intro typed_put(1)) (auto simp: next_comm_def comm_used_def)
qed

lemma refill_pass_typed:
  assumes S: "typed_services S" and w: "input_typed w" and at: "comm_at slot w = Some c0"
    and c: "one_buffer b c" "comm_used c" "c_generation c = c_generation c0" and room: "length (ib_data b) + length src \<le> BUFFER_SIZE"
    and r: "refill_pass S slot 0 paused src c w = Some (k, p, w')"
  shows "input_typed w'"
proof (cases "comm_has_flag c C_ENABLE_TELNET \<and> \<not> (comm_has_flag c C_ENABLE_WEBSOCKET \<and> \<not> C_WEBSOCKET_IS_READY (c_flags c)) \<and>
    \<not> C_WEBSOCKET_IS_READY (c_flags c) \<and> \<not> paused")
  case False
  have nc: "next_comm c0 c" using c by (auto simp: next_comm_def single_buffer_def)
  note p = typed_put [OF w at nc]
  have "w' = put_comm slot (c\<lparr>c_inbound := (c_inbound c)[0 := (c_inbound c ! 0)\<lparr>ib_data := ib_data (c_inbound c ! 0) @ src\<rparr>]\<rparr>) w"
    using r False by (auto simp: refill_pass_def Let_def)
  then show ?thesis
    using typed_put(1) [OF w at, of "c\<lparr>c_inbound := (c_inbound c)[0 := (c_inbound c ! 0)\<lparr>ib_data := ib_data (c_inbound c ! 0) @ src\<rparr>]\<rparr>"]
      c room by (auto simp: next_comm_def single_buffer_def one_buffer_def ib_wf_def comm_used_def)
next
  case True
  obtain d k1 st ng where t: "comm_telnet_process_inbound src (c_flags c AND M_TELNET_STATE) no_negotiation = (d, k1, st, ng)"
    by (metis prod_cases4)
  have "telnet_decode (c_flags c AND M_TELNET_STATE) (take k1 src) = (d, st)" "k1 \<le> length src"
    using t telnet_scan_decode unfolding comm_telnet_process_inbound_def by blast+
  then have len: "length d \<le> length src"
    using telnet_decode_length [of "c_flags c AND M_TELNET_STATE" "take k1 src"] by simp
  define c2 where "c2 = (if k1 > length d then comm_process_telnet_options (sv_arm S) ng
      (c\<lparr>c_flags := telnet_set_state (c_flags c) st\<rparr>) else c\<lparr>c_flags := telnet_set_state (c_flags c) st\<rparr>)"
  have "next_comm c c2" unfolding c2_def by (intro typed_rules)
  moreover have "next_comm c0 c" using c by (auto simp: next_comm_def single_buffer_def)
  ultimately have nc: "next_comm c0 c2" by (rule next_trans [rotated])
  have in2: "c_inbound c2 = [b]"
    using c(1) write_only_telnet(3) [OF write_only_options] by (simp add: c2_def one_buffer_def)
  note p = typed_put [OF w at nc]
  obtain r1 w1 c3 where x: "(if tn_subopt ng \<noteq> [] then comm_dispatch_telnet_subnegotiation S ng slot (put_comm slot c2 w)
      else Some (MUDMUX_DISPATCH_OK, put_comm slot c2 w)) = Some (r1, w1)" "comm_at slot w1 = Some c3"
    "w' = (if r1 = MUDMUX_DISPATCH_QUEUE_FULL
       then (put_comm slot ((comm_set_flag C_DEFERRED_INBOUND c3)\<lparr>c_inbound := (c_inbound c3)[0 := (c_inbound c3 ! 0)\<lparr>ib_data := ib_data (c_inbound c3 ! 0) @ d\<rparr>]\<rparr>) w1)\<lparr>w_deferred := True\<rparr>
       else put_comm slot (c3\<lparr>c_inbound := (c_inbound c3)[0 := (c_inbound c3 ! 0)\<lparr>ib_data := ib_data (c_inbound c3 ! 0) @ d\<rparr>]\<rparr>) w1)"
    using r True t unfolding refill_pass_def Let_def c2_def
    by (auto simp: Option.bind_eq_Some_conv comm_set_flag_def split del: if_split)
  have k: "input_typed w1 \<and> chains_kept (put_comm slot c2 w) w1"
    using x(1) subnegotiation_typed [OF S p(1)] p(1) by (auto simp: chains_kept_refl split: if_splits)
  then have "c_inbound c3 = [b] \<or> c_inbound c3 = []" using p(2) x(2) in2 unfolding chains_kept_def by metis
  note add = add_bytes_typed [OF conjunct1 [OF k] x(2) this c(1), of d]
  show ?thesis
    using add [of "comm_set_flag C_DEFERRED_INBOUND c3"] add [of c3] room len comm_at_used [OF x(2)]
    by (auto simp: x(3) comm_set_flag_def comm_used_def)
qed

lemma room_bound: "ib_wf b \<Longrightarrow> length (ib_data (make_room b)) \<le> BUFFER_SIZE"
  using make_room_spec(2) [of b] by (simp add: ib_wf_def)

lemma refill_loop_typed:
  assumes S: "typed_services S"
  shows "input_typed w \<Longrightarrow> tw snd (refill_loop n S slot 0 paused src w)"
proof (induction n arbitrary: paused src w)
  case (Suc n)
  show ?case
  proof (cases "comm_at slot w")
    case (Some c)
    then consider "c_inbound c = []" | b where "one_buffer b c"
      using Suc.prems by (auto simp: input_typed_def single_buffer_def)
    then show ?thesis
    proof cases
      case 1
      then show ?thesis using Some Suc.prems by (simp add: tw_def)
    next
      case (2 b)
      define c1 where "c1 = c\<lparr>c_inbound := [make_room b]\<rparr>"
      have b: "ib_wf b" "ib_band b = INBOUND_BAND_DATA" "c_inbound c = [b]" using 2 by (simp_all add: one_buffer_def)
      have c1: "one_buffer (make_room b) c1" "comm_used c1" "next_comm c c1" "c_generation c1 = c_generation c"
        using make_room_spec [OF b(1)] comm_at_used [OF Some] b
        by (auto simp: c1_def one_buffer_def comm_used_def next_comm_def single_buffer_def)
      define k where "k = min (length src) (BUFFER_SIZE - length (ib_data (make_room b)))"
      have k: "length (ib_data (make_room b)) + length (take k src) \<le> BUFFER_SIZE"
        using room_bound [OF b(1)] by (simp add: k_def)
      have p: "tw (\<lambda>(k, p, w). w) (refill_pass S slot 0 paused (take k src) c1 w)"
        using refill_pass_typed [OF S Suc.prems Some c1(1,2,4) k] by (auto simp: tw_def)
      have "refill_loop (Suc n) S slot 0 paused src w =
          (if src = [] then Some (src, w) else if k = 0 then Some (src, put_comm slot c1 w)
           else Option.bind (refill_pass S slot 0 paused (take k src) c1 w)
             (\<lambda>(consumed, paused', w1). refill_loop n S slot 0 paused' (drop consumed src) w1))"
        using Some b make_room_spec(3) [OF b(1)] by (simp add: Let_def c1_def k_def) (auto simp: min_def split: if_splits)
      also have "tw snd \<dots>"
        by (intro tw_if tw_Some tw_bind [OF p]) (auto simp: Suc.prems typed_put(1) [OF Suc.prems Some c1(3)] Suc.IH)
      finally show ?thesis .
    qed
  qed (simp add: tw_def)
qed (simp add: tw_def)

lemma refill_typed:
  assumes S: "typed_services S" and w: "input_typed w"
  shows "tw snd (refill_inbound_buffers_from_src S slot src w)"
proof (cases "comm_at slot w")
  case (Some c)
  define chain where "chain = (if c_inbound c = [] then [empty_inbound_buffer] else c_inbound c)"
  have "single_buffer c" using w Some by (simp add: input_typed_def)
  then have t: "refill_target chain = 0" and s: "single_buffer (c\<lparr>c_inbound := chain\<rparr>)"
    by (auto simp: chain_def single_buffer_def one_buffer_def empty_inbound_buffer_def ib_wf_def)
  have "next_comm c (c\<lparr>c_inbound := chain\<rparr>)" using s by (simp add: next_comm_def comm_used_def)
  note p = refill_loop_typed [OF S typed_put(1) [OF w Some this]]
  show ?thesis
    unfolding refill_inbound_buffers_from_src_def Some Let_def option.case chain_def [symmetric] t
    by (intro tw_bind [OF p] tw_pair tw_bind_value tw_bind [where sel' = id] tw_if try_upgrade_typed [OF S] tw_Some) auto
qed (simp add: refill_inbound_buffers_from_src_def tw_def w)

lemma tls_read_typed:
  assumes S: "typed_services S"
  shows "input_typed w \<Longrightarrow> tw snd (tls_read_loop n S slot w)"
proof (induction n arbitrary: w)
  case (Suc n)
  have r: "tw snd (refill_inbound_buffers_from_src S slot data (w\<lparr>w_ext := x\<rparr>))" for data x
    by (rule refill_typed [OF S]) (simp add: Suc.prems)
  show ?case
    unfolding tls_read_loop.simps
    by (intro tw_bind_value)
      (auto intro!: tw_if tw_Some tw_bind [OF r] Suc.IH simp: Suc.prems split: read_outcome.split prod.split)
qed (simp add: tw_def)

lemma comm_refill_typed:
  assumes S: "typed_services S" and w: "input_typed w"
  shows "tw snd (comm_refill_inbound_buffers n S slot src w)"
proof -
  have r: "tw snd (refill_inbound_buffers_from_src S slot data (w\<lparr>w_ext := x\<rparr>))"
    "tw snd (refill_inbound_buffers_from_src S slot data w)" for data x
    by (rule refill_typed [OF S], simp add: w)+
  have h: "tw snd (if b then Some (1, w) else comm_tls_handshake_step S slot w)" for b
    using handshake_typed [OF S w] by (auto simp: w tw_def)
  show ?thesis
    unfolding comm_refill_inbound_buffers_def
    by (intro tw_if tw_Some tw_option tw_bind [OF h] tw_pair tw_bind_value tls_read_typed [OF S] r)
      (auto intro!: tw_if tw_Some r simp: w split: read_outcome.split prod.split)
qed

section \<open>Messages\<close>

lemma mark_typed: "input_typed w \<Longrightarrow> tw id (mark_deferred slot w)"
  unfolding mark_deferred_def by (intro tw_map) (use typed_via [of w "comm_set_flag C_DEFERRED_INBOUND" slot] in
    \<open>auto simp: tw_def intro: typed_rules\<close>)

text \<open>A message is dispatched: the chain of its slot is the one given to the hook, or empty.\<close>

lemma message_kept:
  assumes S: "typed_services S" and w: "input_typed w" and at: "comm_at slot w = Some c"
    and r: "comm_invoke_inbound_message S slot data w = Some (r, w')"
  shows "input_typed w' \<and> (\<forall>c'. comm_at slot w' = Some c' \<longrightarrow> c_inbound c' = c_inbound c \<or> c_inbound c' = [])"
proof -
  define c1 where "c1 = (if sv_async S HOOK_MESSAGE_INBOUND
    then comm_set_flag C_DEFERRED_INBOUND (comm_clear_flag C_INVOKED_PROMPT c) else comm_clear_flag C_INVOKED_PROMPT c)"
  have n: "next_comm c c1" "c_inbound c1 = c_inbound c"
    unfolding c1_def by (intro typed_rules) (simp add: mux_simps)
  note p = typed_put [OF w at n(1)]
  obtain e v where d: "sv_dispatch S e v = Some (r, w')" "v = put_comm slot c1 w \<or> v = (put_comm slot c1 w)\<lparr>w_deferred := True\<rparr>"
    using r at unfolding comm_invoke_inbound_message_def Let_def c1_def by (auto split: if_splits)
  then have "input_typed v" "comm_at slot v = Some c1" using p by auto
  with kept_dispatch [OF S _ d(1)] n(2) show ?thesis unfolding chains_kept_def by metis
qed

lemma char_message_kept:
  assumes S: "typed_services S" and w: "input_typed w" and at: "comm_at slot w = Some c"
    and r: "invoke_char_input_message S slot data w = Some (r, w')"
  shows "input_typed w' \<and> (\<forall>c'. comm_at slot w' = Some c' \<longrightarrow> c_inbound c' = c_inbound c \<or> c_inbound c' = [])"
proof -
  have n: "next_comm c (comm_clear_flag C_INVOKED_PROMPT c)" by (intro typed_rules)
  obtain w1 where d: "comm_invoke_inbound_message S slot data (put_comm slot (comm_clear_flag C_INVOKED_PROMPT c) w) = Some (r, w1)"
    "w' = (if sv_async S HOOK_MESSAGE_INBOUND then w1 else resume_input_after_inbound_hook slot w1)"
    using r at by (auto simp: invoke_char_input_message_def Option.bind_eq_Some_conv)
  note k = message_kept [OF S typed_put [OF w at n] d(1)]
  have "comm_at slot (resume_input_after_inbound_hook slot w1) = Some c' \<Longrightarrow> \<exists>c''. comm_at slot w1 = Some c'' \<and> c_inbound c' = c_inbound c''" for c'
  proof (cases "comm_at slot w1")
    case (Some c1)
    have "next_comm c1 (comm_set_flag C_DEFERRED_INBOUND (comm_clear_flag m c1))" "next_comm c1 (comm_set_flag C_DEFERRED_INBOUND c1)" for m
      by (intro typed_rules)+
    note q = this [THEN typed_put(2) [OF conjunct1 [OF k] Some]]
    assume "comm_at slot (resume_input_after_inbound_hook slot w1) = Some c'"
    then show ?thesis using q Some by (auto simp: resume_input_after_inbound_hook_def mux_simps)
  qed (simp add: resume_input_after_inbound_hook_def)
  moreover have "c_inbound (comm_clear_flag C_INVOKED_PROMPT c) = c_inbound c" by (simp add: mux_simps)
  ultimately show ?thesis
    using k resume_hooks_typed(2) [of w1 slot] unfolding d(2) by (metis (full_types))
qed

lemma line_message_kept:
  assumes S: "typed_services S" and w: "input_typed w" and at: "comm_at slot w = Some c" and one: "one_buffer b c"
    and nl: "find_newline_and_strip b = Some (next, n, b')" and r: "line_message S slot n b' c w = Some (r, w')"
  shows "input_typed w' \<and> (\<forall>c'. comm_at slot w' = Some c' \<longrightarrow> c_inbound c' = [b'] \<or> c_inbound c' = [])"
proof -
  define c1 where "c1 = c\<lparr>c_inbound := [b']\<rparr>"
  define c2 where "c2 = (if comm_has_flag c1 C_ENABLE_TELNET \<and> \<not> comm_has_flag c1 C_CLOSING
    then comm_buffered_write_comm (sv_arm S) [13, 10] c1 else c1)"
  have "one_buffer b' c1"
    using find_newline_some [OF nl] one by (auto simp: one_buffer_def ib_wf_def c1_def)
  then have "next_comm c c1" by (auto simp: next_comm_def c1_def comm_used_def single_buffer_def)
  then have n: "next_comm c c2" unfolding c2_def by (intro typed_rules)
  have i: "c_inbound c2 = [b']"
    using write_same_input by (simp add: c2_def c1_def same_input_def)
  have "comm_invoke_inbound_message S slot (take n (drop (ib_start b') (ib_data b'))) (put_comm slot c2 w) = Some (r, w')"
    using r one unfolding line_message_def c2_def c1_def Let_def one_buffer_def by (elim conjE) (simp only: list.sel)
  from message_kept [OF S typed_put [OF w at n] this] show ?thesis by (simp add: i)
qed

lemma next_head_start:
  assumes "c_inbound c = [b] \<or> c_inbound c = []" "k \<le> length (ib_data b)"
  shows "next_comm c (set_head_start k c)"
  using assms by (auto simp: next_comm_def set_head_start_def comm_used_def single_buffer_def one_buffer_def ib_wf_def)

lemma next_line_advance:
  assumes "c_inbound c = [b\<lparr>ib_start := k\<rparr>] \<or> c_inbound c = []" "ib_wf b" "ib_band b = INBOUND_BAND_DATA" "k \<le> length (ib_data b)"
  shows "next_comm c (c\<lparr>c_inbound := snd (line_advance (Some k) (c_inbound c))\<rparr>)"
proof -
  have "line_advance (Some k) [] = (None, [])" by (simp add: line_advance_def)
  then show ?thesis
    using assms(1) line_advance_found [OF assms(2,4)] assms(2-4)
    by (cases "k < length (ib_data b)")
      (auto simp: next_comm_def comm_used_def single_buffer_def one_buffer_def ib_wf_def inbound_buffer_reset_def)
qed

text \<open>What follows a delivered line, for any continuation of the loop.\<close>

definition line_rest ::
  "'x services \<Rightarrow> int \<Rightarrow> nat \<Rightarrow> mudmux_dispatch_result \<Rightarrow> 'x world \<Rightarrow> ('x world \<Rightarrow> 'x world option) \<Rightarrow> 'x world option" where
  "line_rest S slot k r w1 go =
    (if r = MUDMUX_DISPATCH_QUEUE_FULL then mark_deferred slot w1
     else case comm_at slot w1 of
       None \<Rightarrow> Some w1
     | Some c1 \<Rightarrow>
         (let c2 = set_head_start k c1 in
          if sv_busy S slot (put_comm slot c2 w1) then Some (put_comm slot c2 w1)
          else (case line_advance (Some k) (c_inbound c2) of
                  (None, chain) \<Rightarrow> Some (put_comm slot (c2\<lparr>c_inbound := chain\<rparr>) w1)
                | (Some _, chain) \<Rightarrow> go (put_comm slot (c2\<lparr>c_inbound := chain\<rparr>) w1))))"

lemma line_rest_typed:
  assumes w1: "input_typed w1" and kept: "\<forall>c'. comm_at slot w1 = Some c' \<longrightarrow> c_inbound c' = [b] \<or> c_inbound c' = []"
    and b: "ib_wf b" "ib_band b = INBOUND_BAND_DATA" "k \<le> length (ib_data b)" and go: "\<And>v. input_typed v \<Longrightarrow> tw id (go v)"
  shows "tw id (line_rest S slot k r w1 go)"
proof (cases "comm_at slot w1")
  case None
  then show ?thesis using w1 mark_typed by (auto simp: tw_def line_rest_def)
next
  case at1: (Some c1)
  define c2 where "c2 = set_head_start k c1"
  obtain adv chain where a: "line_advance (Some k) (c_inbound c2) = (adv, chain)" by fastforce
  have i: "c_inbound c1 = [b] \<or> c_inbound c1 = []" using kept at1 by auto
  then have i2: "c_inbound c2 = [b\<lparr>ib_start := k\<rparr>] \<or> c_inbound c2 = []" by (auto simp: c2_def set_head_start_def)
  have n2: "next_comm c1 c2" unfolding c2_def by (rule next_head_start [OF i b(3)])
  have n3: "next_comm c1 (c2\<lparr>c_inbound := chain\<rparr>)"
    using next_trans [OF n2 next_line_advance [OF i2 b]] a by simp
  show ?thesis
    using typed_put(1) [OF w1 at1 n2] typed_put(1) [OF w1 at1 n3] mark_typed [OF w1, of slot] a
    by (auto simp: line_rest_def at1 c2_def [symmetric] Let_def intro!: tw_Some go split: option.split)
qed

lemma line_loop_typed:
  assumes S: "typed_services S"
  shows "input_typed w \<Longrightarrow> tw id (line_loop n S slot maxm num w)"
proof (induction n arbitrary: num w)
  case (Suc n)
  show ?case
  proof (cases "comm_at slot w")
    case (Some c)
    then consider "c_inbound c = []" | b where "one_buffer b c"
      using Suc.prems by (auto simp: input_typed_def single_buffer_def)
    then show ?thesis
    proof cases
      case 1
      then show ?thesis using Some Suc.prems by (simp add: tw_def)
    next
      case (2 b)
      have b: "c_inbound c = [b]" "ib_wf b" "ib_band b = INBOUND_BAND_DATA" using 2 by (simp_all add: one_buffer_def)
      have same: "input_typed (put_comm slot (c\<lparr>c_inbound := [b]\<rparr>) w)"
        using typed_put(1) [OF Suc.prems Some, of "c\<lparr>c_inbound := [b]\<rparr>"] b by (simp add: next_comm_def comm_used_def single_buffer_def one_buffer_def)
      have msg: "input_typed w1 \<and> (\<forall>c'. comm_at slot w1 = Some c' \<longrightarrow> c_inbound c' = [b'] \<or> c_inbound c' = []) \<and>
          ib_wf b' \<and> ib_band b' = INBOUND_BAND_DATA \<and> k \<le> length (ib_data b')"
        if "find_newline_and_strip b = Some (k, m, b')" "line_message S slot m b' c w = Some (r, w1)" for k m b' r w1
        using line_message_kept [OF S Suc.prems Some 2 that] find_newline_some [OF that(1)] b by (auto simp: ib_wf_def)
      show ?thesis
      proof (cases "find_newline_and_strip b")
        case None
        then show ?thesis using Some b same Suc.prems by (simp add: line_advance_none tw_def)
      next
        case nl: (Some p)
        obtain k m b' where p: "p = (k, m, b')" by (cases p) auto
        have eq: "line_loop (Suc n) S slot maxm num w =
           (if \<not> (maxm < 0 \<or> num < maxm) \<or> length (ib_data b) \<le> ib_start b then Some w
            else Option.bind (line_message S slot m b' c w) (\<lambda>(r, w1). line_rest S slot k r w1 (line_loop n S slot maxm (num + 1))))"
          using Some b nl p by (simp add: line_rest_def Let_def)
        show ?thesis
          unfolding eq by (intro tw_if tw_Some tw_bind_value tw_pair line_rest_typed Suc.IH)
            (use Suc.prems msg [OF nl [unfolded p]] in auto)
      qed
    qed
  qed (simp add: tw_def)
qed (simp add: tw_def)

lemma skip_parameters_le: "i \<le> length d \<Longrightarrow> i \<le> skip_parameters d i \<and> skip_parameters d i \<le> length d"
proof (induction d i rule: skip_parameters.induct)
  case (1 d i)
  show ?case
  proof (cases "i < length d \<and> (isdigit (d ! i) \<or> d ! i = 59)")
    case True
    then show ?thesis using 1 by (simp add: skip_parameters.simps [of d i])
  next
    case False
    then show ?thesis using 1(2) by (subst (1 2) skip_parameters.simps) auto
  qed
qed

lemma find_char_bound:
  assumes "\<And>bs n. mb bs = Mbr n \<Longrightarrow> n \<le> length bs" "find_char_input_sequence mb f b = Some (k, len)"
  shows "k \<le> length (ib_data b)"
proof -
  have start: "ib_start b < length (ib_data b)"
    using assms(2) by (auto simp: find_char_input_sequence_def Let_def split: if_splits)
  have m: "multibyte_sequence mb b = Some (k, len) \<Longrightarrow> k \<le> length (ib_data b)"
    using assms(1) [of "drop (ib_start b) (ib_data b)"] start by (auto simp: multibyte_sequence_def split: mbr.splits)
  show ?thesis
    using assms(2) start m by (auto simp: find_char_input_sequence_def Let_def split: if_splits)
qed

lemma echo_same: "set_echo_comm arm slot e c tm = (ok, c', tm') \<Longrightarrow> same_input c c'"
proof (cases "slot = COMM_SLOT_CONSOLE")
  case True
  assume "set_echo_comm arm slot e c tm = (ok, c', tm')"
  then show ?thesis
    using True by (auto simp: set_echo_comm_def set_client_echo_def same_input_def mux_simps split: option.splits)
next
  case False
  assume "set_echo_comm arm slot e c tm = (ok, c', tm')"
  from keeps_line_echo [OF False this] show ?thesis by (simp add: keeps_line_def)
qed

lemma line_input_same: "set_line_input_comm arm slot e c tm = (ok, c', tm') \<Longrightarrow> same_input c c'"
proof (cases "slot = COMM_SLOT_CONSOLE")
  case True
  assume a: "set_line_input_comm arm slot e c tm = (ok, c', tm')"
  have "same_input c (comm_set_flag C_LINE_INPUT c)" by (simp add: same_input_def mux_simps)
  then show ?thesis
    using a True echo_same unfolding set_line_input_comm_def
    by (auto simp: same_input_def split: option.splits if_splits)
qed (use line_input_kept in blast)

lemma line_mode_set:
  assumes w: "input_typed w" and at: "comm_at slot w = Some c"
    and s: "comm_set_line_input arm slot e (w_slots w, w_terminal w) = (ok, t, tm)"
  shows "input_typed (w\<lparr>w_slots := t, w_terminal := tm\<rparr>) \<and>
    (\<exists>c'. comm_at slot (w\<lparr>w_slots := t, w_terminal := tm\<rparr>) = Some c' \<and> c_inbound c' = c_inbound c)"
proof -
  obtain c' where c': "set_line_input_comm arm slot e c (w_terminal w) = (ok, c', tm)" "t = set_slot slot c' (w_slots w)"
    using s at by (auto simp: comm_set_line_input_def on_slot_def comm_at_def split: prod.splits)
  note i = line_input_same [OF c'(1)]
  note p = typed_put [OF w at next_same [OF i]]
  have "w\<lparr>w_slots := t, w_terminal := tm\<rparr> = (put_comm slot c' w)\<lparr>w_terminal := tm\<rparr>"
    by (simp add: c'(2) put_comm_def)
  then show ?thesis using p i by (auto simp: same_input_def)
qed

lemma char_step_typed:
  assumes S: "typed_services S" and w: "input_typed w"
  shows "tw snd (char_step S slot maxm w)"
proof (cases "comm_at slot w")
  case (Some c)
  have adv: "input_typed (case comm_at slot w2 of None \<Rightarrow> w2 | Some c2 \<Rightarrow> put_comm slot (set_head_start k c2) w2)"
    if "input_typed w2" "\<forall>c'. comm_at slot w2 = Some c' \<longrightarrow> c_inbound c' = [b] \<or> c_inbound c' = []" "k \<le> length (ib_data b)" for w2 b k
    using that by (auto split: option.split intro: typed_put(1) next_head_start)
  show ?thesis
  proof (cases "find_char_input_sequence (sv_mbrlen S) (c_flags c) (hd (c_inbound c))")
    case nl: (Some p)
    obtain k len where p: "p = (k, len)" by (cases p) auto
    define b where "b = hd (c_inbound c)"
    obtain ok t tm where s: "comm_set_line_input (sv_arm S) slot True (w_slots w, w_terminal w) = (ok, t, tm)"
      by (metis prod_cases3)
    define w1 where "w1 = w\<lparr>w_slots := t, w_terminal := tm\<rparr>"
    obtain c1 where w1: "input_typed w1" "comm_at slot w1 = Some c1" "c_inbound c1 = c_inbound c"
      using line_mode_set [OF w Some s] unfolding w1_def by blast
    have k: "k \<le> length (ib_data b)"
      using find_char_bound nl [unfolded p, folded b_def] S unfolding typed_services_def by blast
    have single: "c_inbound c = [] \<or> c_inbound c = [b]"
      using w Some unfolding input_typed_def single_buffer_def one_buffer_def b_def by (metis list.sel(1))
    define send where "send data = (if comm_has_flag c1 C_ENABLE_TELNET \<and> sv_async S HOOK_MESSAGE_INBOUND
       then comm_invoke_inbound_message S slot data w1 else invoke_char_input_message S slot data w1)" for data
    have sent: "input_typed w2 \<and> (\<forall>c'. comm_at slot w2 = Some c' \<longrightarrow> c_inbound c' = [b] \<or> c_inbound c' = [])"
      if "send data = Some (r, w2)" for data r w2
      using that message_kept [OF S w1(1,2)] char_message_kept [OF S w1(1,2)] single w1(3)
      unfolding send_def by (metis (no_types, lifting))
    have after: "tw snd (map_option (Pair None) (mark_deferred slot w2))"
      "tw snd (Some (None, case comm_at slot w2 of None \<Rightarrow> w2 | Some c2 \<Rightarrow> put_comm slot (set_head_start k c2) w2))"
      if "send data = Some (r, w2)" for data r w2
      using sent [OF that] mark_typed [of w2 slot] adv [OF _ _ k, of w2] by (auto simp: tw_def)
    have "tw snd (Option.bind (send data) (\<lambda>(r, w2). if r = MUDMUX_DISPATCH_QUEUE_FULL then map_option (Pair None) (mark_deferred slot w2)
           else Some (None, case comm_at slot w2 of None \<Rightarrow> w2 | Some c2 \<Rightarrow> put_comm slot (set_head_start k c2) w2)))" for data
      by (intro tw_bind_value tw_pair tw_if) (auto intro: after)
    note sends = this
    have step: "char_step S slot maxm w =
        (if c_inbound c = [] \<or> maxm = 0 then Some (None, w) else if \<not> ok then Some (Some COMM_PROCESS_ERROR, w1)
         else Option.bind (send (take len (drop (ib_start b) (ib_data b))))
           (\<lambda>(r, w2). if r = MUDMUX_DISPATCH_QUEUE_FULL then map_option (Pair None) (mark_deferred slot w2)
             else Some (None, case comm_at slot w2 of None \<Rightarrow> w2 | Some c2 \<Rightarrow> put_comm slot (set_head_start k c2) w2)))"
      using w1(2) s Some nl p unfolding char_step_def send_def w1_def
      by (cases "c_inbound c = [] \<or> maxm = 0"; cases ok)
        (simp_all add: Let_def b_def [symmetric] split del: if_split)
    show ?thesis unfolding step by (intro tw_if tw_Some sends) (simp_all add: w w1)
  qed (use Some w in \<open>simp add: char_step_def tw_Some\<close>)
qed (simp add: char_step_def tw_None)

lemma process_buffered_typed:
  assumes S: "typed_services S" and w: "input_typed w"
  shows "tw snd (process_buffered n S slot maxm w)"
  unfolding process_buffered_def
  using line_loop_typed [OF S w] char_step_typed [OF S w]
  by (intro tw_bind_value tw_if tw_map tw_bind [OF char_step_typed [OF S w]] tw_pair tw_Some) (auto simp: tw_def)

lemma next_skip [typed_rules]: "next_comm a c \<Longrightarrow> next_comm a (c\<lparr>c_inbound := skip_non_data_head_buffers (c_inbound c)\<rparr>)"
  by (auto simp: next_comm_def comm_used_def single_buffer_def one_buffer_def)

lemma process_input_typed:
  assumes S: "typed_services S" and w: "input_typed w"
    and f: "\<And>g v. ws = Some g \<Longrightarrow> input_typed v \<Longrightarrow> tw snd (g v)"
  shows "tw snd (process_input n S slot maxm ws w)"
proof (cases "comm_at slot w")
  case (Some c)
  define c1 where "c1 = (comm_clear_flag C_DEFERRED_INBOUND c)\<lparr>c_inbound := skip_non_data_head_buffers (c_inbound c)\<rparr>"
  have "next_comm c c1"
    using next_skip [OF next_flags(2) [OF next_refl [of c]]] by (simp add: c1_def mux_simps)
  note p = typed_put(1) [OF w Some this]
  show ?thesis
    unfolding process_input_def Some option.case Let_def c1_def [symmetric]
    by (intro tw_if tw_Some tw_bind [where sel' = snd] tw_map tw_pair tw_option tw_bind_value process_buffered_typed [OF S] f)
      (use w p try_upgrade_typed [OF S p] in \<open>auto simp: tw_def\<close>)
qed (simp add: process_input_def tw_Some w)

section \<open>WebSocket input\<close>

lemma next_fragment [typed_rules]: "next_comm a c \<Longrightarrow> next_comm a (set_fragment x y c)"
  unfolding set_fragment_def by (intro typed_rules)

lemma next_on_websocket [typed_rules]: "next_comm a c \<Longrightarrow> next_comm a (on_websocket f c)"
  unfolding on_websocket_def by (intro typed_rules)

lemma next_handle_frame: "ws_handle_frame arm fin opcode payload c = (act, c') \<Longrightarrow> next_comm c c'"
  unfolding ws_handle_frame_def Let_def
  by (auto split: if_splits option.splits intro!: typed_rules)

lemma next_ws_loop: "ws_loop arm limit c wire = (r, k, ms, c') \<Longrightarrow> next_comm c c'"
proof (induction arm limit c wire arbitrary: r k ms c' rule: ws_loop.induct)
  case (1 arm limit c wire)
  show ?case
  proof (cases "ws_next_frame wire")
    case (Frame fin opcode payload n)
    obtain act c1 where h: "ws_handle_frame arm fin opcode payload c = (act, c1)" by fastforce
    note n1 = next_handle_frame [OF h]
    obtain r1 k1 ms1 c2 where l: "ws_loop arm limit c1 (drop n wire) = (r1, k1, ms1, c2)" by (metis prod_cases4)
    obtain r2 k2 ms2 c3 where l': "ws_loop arm (map_option (\<lambda>j. j - 1) limit) c1 (drop n wire) = (r2, k2, ms2, c3)"
      by (metis prod_cases4)
    show ?thesis
    proof (cases act)
      case (Stop code)
      then show ?thesis using "1.prems" Frame h n1 by (simp add: ws_loop.simps)
    next
      case Go_on
      from next_trans [OF n1 1(1) [OF Frame h [symmetric] Go_on l]] show ?thesis
        using "1.prems" Frame h Go_on l by (simp add: ws_loop.simps [of arm limit c wire])
    next
      case (Deliver m)
      show ?thesis
      proof (cases "limit \<noteq> None \<and> the limit \<le> 1")
        case True
        then show ?thesis using "1.prems" Frame h Deliver n1 by (simp add: ws_loop.simps [of arm limit c wire])
      next
        case False
        from next_trans [OF n1 1(2) [OF Frame h [symmetric] Deliver False l']] show ?thesis
          using "1.prems" Frame h Deliver False l' by (simp add: ws_loop.simps [of arm limit c wire] split: if_splits)
      qed
    qed
  qed (use "1.prems" in \<open>simp_all add: ws_loop.simps next_refl\<close>)
qed

lemma next_process_inbound:
  "comm_websocket_process_inbound arm limit c wire = (ok, k, ms, code, c') \<Longrightarrow> next_comm c c'"
proof -
  assume a: "comm_websocket_process_inbound arm limit c wire = (ok, k, ms, code, c')"
  obtain r j ms' c1 where l: "ws_loop arm limit (c\<lparr>c_websocket := Some (websocket_of c)\<rparr>) wire = (r, j, ms', c1)"
    by (metis prod_cases4)
  have "next_comm c c1" by (rule next_trans [OF _ next_ws_loop [OF l]]) (intro typed_rules)
  then show ?thesis using a l by (auto simp: comm_websocket_process_inbound_def Let_def split: option.splits)
qed

lemma decode_payload_typed:
  assumes S: "typed_services S"
  shows "input_typed w \<Longrightarrow> tw (\<lambda>(r, d, w). w) (decode_websocket_telnet_payload n S slot payload app w)"
proof (induction n arbitrary: payload app w)
  case (Suc n)
  have sub: "tw snd (if b then comm_dispatch_telnet_subnegotiation S ng slot v else Some (MUDMUX_DISPATCH_OK, v))"
    if "input_typed v" for b ng v
    using subnegotiation_typed [OF S that] that by (auto simp: tw_def)
  show ?case
    unfolding decode_websocket_telnet_payload.simps Let_def
    by (intro tw_if tw_Some tw_bind_value [of "comm_at slot w"] tw_pair tw_bind [OF sub] Suc.IH)
      (auto simp: Suc.prems intro!: typed_put(1) [OF Suc.prems] typed_rules)
qed (simp add: tw_def)

lemma process_decoded_typed:
  assumes S: "typed_services S" and w: "input_typed w"
  shows "tw snd (process_websocket_decoded_input n S slot maxm w)"
proof -
  have d: "input_typed v \<Longrightarrow> tw snd (comm_process_decoded_input n S slot maxm v)" for v
    unfolding comm_process_decoded_input_def by (rule process_input_typed [OF S]) auto
  have a: "tw snd (comm_append_decoded_input S slot input w)" for input
    unfolding comm_append_decoded_input_def by (rule refill_typed [OF S w])
  have v: "input_typed v \<Longrightarrow> tw id (via_comm slot (on_websocket f) v)"
    "input_typed v \<Longrightarrow> tw id (via_comm slot (\<lambda>c. (on_websocket (g c) c)
       \<lparr>c_inbound := comm_consume_inbound_data SIZE_MAX (c_inbound c)\<rparr>) v)" for f g v
    using next_consume [OF next_on_websocket [OF next_refl]]
    by (auto intro!: typed_via typed_rules simp: on_websocket_def)
  show ?thesis
    unfolding process_websocket_decoded_input_def Let_def
    by (intro tw_if tw_Some tw_bind_value [of "comm_at slot w"] tw_bind [OF a] tw_bind [OF d] tw_bind [OF v(1)] tw_bind [OF v(2)] tw_pair) (auto simp: w)
qed


lemma websocket_message_typed:
  assumes S: "typed_services S" and w: "input_typed w"
  shows "tw snd (websocket_message n S slot maxm message w)"
proof -
  have d: "tw (\<lambda>(r, d, w). w) (if b then decode_websocket_telnet_payload k S slot message app w
     else Some (MUDMUX_DISPATCH_OK, app, w))" for b k app
    using decode_payload_typed [OF S w] by (auto simp: w tw_def)
  have v: "input_typed v \<Longrightarrow> tw id (via_comm slot (on_websocket f) v)" for f v
    by (auto intro!: typed_via typed_rules)
  have p: "input_typed v \<Longrightarrow> tw snd (process_websocket_decoded_input n S slot maxm v)" for v
    by (rule process_decoded_typed [OF S])
  have m: "input_typed v \<Longrightarrow> tw snd (map_option (Pair r) (mark_deferred slot v))" for v r
    using mark_typed by (auto simp: tw_def)
  have c: "input_typed (if b then v else put_comm slot (on_websocket f c2) v)"
    if "input_typed v" "comm_at slot v = Some c2" for b f v c2
    using that by (auto intro!: typed_put(1) typed_rules)
  show ?thesis
    unfolding websocket_message_def Let_def
    by (intro tw_if tw_Some tw_bind_value [of "comm_at s v" for s v] tw_bind [OF d] tw_bind [OF v] tw_bind [OF p] tw_pair m c)
      auto
qed

lemma websocket_loop_typed:
  assumes S: "typed_services S"
  shows "input_typed w \<Longrightarrow> tw snd (websocket_loop n S slot maxm w)"
proof (induction n arbitrary: w)
  case (Suc n)
  show ?case
  proof (cases "comm_at slot w")
    case (Some c)
    define wire where "wire = pending_wire (websocket_of c)"
    obtain ok k ms code c1 where p: "comm_websocket_process_inbound (sv_arm S) (Some 1) c wire = (ok, k, ms, code, c1)"
      by (metis prod_cases5)
    note n1 = next_process_inbound [OF p]
    have put: "input_typed (put_comm slot c1 w)" "input_typed (put_comm slot (on_websocket f c1) w)"
      "input_typed (put_comm slot (snd (comm_websocket_queue_close (sv_arm S) buf c1)) w)" for f buf
      by (rule typed_put(1) [OF Suc.prems Some], intro typed_rules n1)+
    have close: "tw snd (map_option (\<lambda>(_, w1). (r, w1)) (comm_close S slot v))" if "input_typed v" for v r
      using close_typed [OF S that, of slot True] by (auto simp: comm_close_def tw_def)
    have eq: "websocket_loop (Suc n) S slot maxm w =
        (if wire = [] then Some (COMM_PROCESS_OK, w)
         else if \<not> ok then
           (if code \<noteq> 0 then
              map_option (\<lambda>(_, w1). (COMM_PROCESS_CLOSED, w1))
                (comm_close S slot (put_comm slot (snd (comm_websocket_queue_close (sv_arm S) (close_code_bytes code) c1)) w))
            else Some (COMM_PROCESS_CLOSED, put_comm slot c1 w))
         else if k = 0 then Some (COMM_PROCESS_OK, put_comm slot c1 w)
         else (case ms of
                 [] \<Rightarrow> websocket_loop n S slot maxm (put_comm slot (on_websocket (pending_wire_update (drop k)) c1) w)
               | m # _ \<Rightarrow> Option.bind (websocket_message n S slot maxm m (put_comm slot (on_websocket (pending_wire_update (drop k)) c1) w))
                   (\<lambda>(r, w2). case r of None \<Rightarrow> websocket_loop n S slot maxm w2 | Some pr \<Rightarrow> Some (pr, w2))))"
      using Some p by (cases ok) (simp_all add: wire_def Let_def split: list.split)
    show ?thesis
    proof (cases ms)
      case Nil
      show ?thesis unfolding eq Nil list.case by (intro tw_if tw_Some close Suc.IH put) (simp_all add: Suc.prems put)
    next
      case (Cons m ms')
      show ?thesis unfolding eq Cons list.case
        by (intro tw_if tw_Some tw_option tw_pair close tw_bind [OF websocket_message_typed [OF S]] Suc.IH put)
          (auto simp: Suc.prems put)
    qed
  qed (simp add: tw_def)
qed (simp add: tw_def)

lemma websocket_input_typed:
  assumes S: "typed_services S" and w: "input_typed w"
  shows "tw snd (comm_process_websocket_input n S slot maxm w)"
proof -
  have n: "next_comm c ((on_websocket f c)\<lparr>c_inbound := comm_consume_inbound_data k (c_inbound c)\<rparr>)" for c f k
    using next_consume [OF next_on_websocket [OF next_refl]] by (simp add: on_websocket_def)
  show ?thesis
    unfolding comm_process_websocket_input_def Let_def
    by (intro tw_if tw_Some tw_bind_value [of "comm_at slot w"] tw_bind [OF process_decoded_typed [OF S]] tw_pair
        websocket_loop_typed [OF S]) (auto intro: typed_put(1) [OF w] n)
qed

lemma comm_process_input_typed:
  assumes S: "typed_services S" and w: "input_typed w"
  shows "tw snd (comm_process_input n S slot maxm w)"
  unfolding comm_process_input_def
  by (rule process_input_typed [OF S w]) (auto intro: websocket_input_typed [OF S])

section \<open>Deferred input and prompts\<close>

lemma resume_typed:
  assumes S: "typed_services S" and w: "input_typed w"
  shows "tw id (comm_resume_deferred_input n S w)"
proof -
  have r: "input_typed v \<Longrightarrow> tw snd (resume_slots n S slots any v)" for slots any v
  proof (induction slots arbitrary: any v)
    case (Cons slot slots)
    have p: "input_typed (put_comm slot (comm_clear_flag m c) v)" if "comm_at slot v = Some c" for c m
      using typed_put_flags [OF Cons.prems that] by simp
    show ?case
      unfolding resume_slots.simps comm_close_def
      by (intro tw_option tw_if tw_bind [OF comm_process_input_typed [OF S]] tw_pair tw_bind [OF close_typed [OF S]] Cons.IH)
        (auto simp: Cons.prems p)
  qed (simp add: tw_Some)
  show ?thesis unfolding comm_resume_deferred_input_def using r [OF w] by (intro tw_map) (auto simp: tw_def)
qed

lemma prompt_typed:
  assumes S: "typed_services S" and w: "input_typed w"
  shows "tw id (comm_invoke_prompt S w)"
proof -
  have "input_typed v \<Longrightarrow> tw id (prompt_slots S slots v)" for slots v
  proof (induction slots arbitrary: v)
    case (Cons slot slots)
    have m: "tw id (if b then via_comm slot (comm_set_flag m) v' else Some v')" if "input_typed v'" for b m v'
      using that by (auto intro!: tw_Some typed_via typed_rules)
    show ?case
      unfolding prompt_slots.simps
      by (intro tw_option tw_if tw_bind [OF typed_dispatch [OF S]] tw_pair tw_bind [OF m] Cons.IH) (auto simp: Cons.prems)
  qed (simp add: tw_Some)
  then show ?thesis unfolding comm_invoke_prompt_def using w by blast
qed

end
