(* ===== verification/Async_Event.thy ===== *)
theory Async_Event
  imports Mudmux_Prelude
begin

text \<open>
  Pollable events (\<^verbatim>\<open>lib/async/async_event.cpp\<close>, the Linux half): a kernel eventfd counter beside a flag and
  a reset mode that only the process knows. Every operation but the wait on \<^verbatim>\<open>poll\<close> is one critical section of
  \<^verbatim>\<open>state_mutex\<close>, so operations of different threads are interleaved whole.
\<close>

section \<open>The kernel counter\<close>

text \<open>
  A non-blocking eventfd: a write adds to the counter and fails when the sum would exceed \<open>2 ^ 64 - 2\<close>; a read
  returns the counter and clears it, and fails when it is zero.
\<close>

definition EVENTFD_MAX :: nat where "EVENTFD_MAX = 2 ^ 64 - 2"

definition eventfd_write :: "u64 \<Rightarrow> u64 \<Rightarrow> u64 option" where
  "eventfd_write v counter = (if unat counter + unat v > EVENTFD_MAX then None else Some (counter + v))"

definition eventfd_read :: "u64 \<Rightarrow> (u64 \<times> u64) option" where
  "eventfd_read counter = (if counter = 0 then None else Some (counter, 0))"

section \<open>Events\<close>

record async_event =
  ev_counter :: u64
  ev_signaled :: bool
  ev_manual_reset :: bool

definition read_signal_once :: "async_event \<Rightarrow> u64 option \<times> async_event" where
  "read_signal_once e =
     (case eventfd_read (ev_counter e) of
        None \<Rightarrow> (None, e)
      | Some (v, counter) \<Rightarrow> (Some v, e\<lparr>ev_counter := counter\<rparr>))"

definition write_signal_once :: "async_event \<Rightarrow> bool \<times> async_event" where
  "write_signal_once e =
     (case eventfd_write 1 (ev_counter e) of
        None \<Rightarrow> (False, e)
      | Some counter \<Rightarrow> (True, e\<lparr>ev_counter := counter\<rparr>))"

function drain_signal :: "async_event \<Rightarrow> async_event" where
  "drain_signal e = (case read_signal_once e of (None, e') \<Rightarrow> e' | (Some _, e') \<Rightarrow> drain_signal e')"
  by pat_completeness auto
termination
  by (relation "measure (\<lambda>e. if ev_counter e = 0 then 0 else 1)")
    (auto simp: read_signal_once_def eventfd_read_def split: option.splits if_splits)

declare drain_signal.simps [simp del]

definition consume_event_signal :: "async_event \<Rightarrow> bool \<times> async_event" where
  "consume_event_signal e =
     (if \<not> ev_signaled e then (False, e)
      else case read_signal_once e of
        (None, e') \<Rightarrow> (False, e')
      | (Some _, e') \<Rightarrow> (True, e'\<lparr>ev_signaled := False\<rparr>))"

text \<open>\<open>created\<close> is whether \<^verbatim>\<open>eventfd()\<close> gave a descriptor.\<close>

definition async_event_init :: "bool \<Rightarrow> bool \<Rightarrow> bool \<Rightarrow> async_event option" where
  "async_event_init created manual_reset initial_state =
     (if \<not> created then None
      else let e = \<lparr>ev_counter = 0, ev_signaled = initial_state, ev_manual_reset = manual_reset\<rparr> in
        if initial_state then (case write_signal_once e of (True, e') \<Rightarrow> Some e' | (False, _) \<Rightarrow> None) else Some e)"

definition async_event_set :: "async_event \<Rightarrow> async_event" where
  "async_event_set e =
     (if ev_signaled e then e
      else case write_signal_once e of
        (True, e') \<Rightarrow> e'\<lparr>ev_signaled := True\<rparr>
      | (False, e') \<Rightarrow> e')"

definition async_event_reset :: "async_event \<Rightarrow> async_event" where
  "async_event_reset e = (if \<not> ev_signaled e then e else (drain_signal e)\<lparr>ev_signaled := False\<rparr>)"

definition async_event_is_manual_reset :: "async_event \<Rightarrow> bool" where
  "async_event_is_manual_reset e = ev_manual_reset e"

text \<open>
  One round of \<^verbatim>\<open>async_event_wait\<close>: the critical section. \<open>None\<close> in the result is the way to \<^verbatim>\<open>poll\<close>.
\<close>

definition wait_section :: "int \<Rightarrow> async_event \<Rightarrow> bool option \<times> async_event" where
  "wait_section timeout_ms e =
     (if ev_signaled e then
        (if ev_manual_reset e then (Some True, e)
         else case consume_event_signal e of (r, e') \<Rightarrow> (Some r, e'))
      else if timeout_ms = 0 then (Some False, e)
      else (None, e))"

text \<open>
  The loop. What other threads do to the event while this one is in \<^verbatim>\<open>poll\<close>, and how that ends, comes from a
  script: the deadline has passed, \<^verbatim>\<open>poll\<close> returned without readiness, or it returned ready. The script is as
  long as the wait lasts.
\<close>

datatype poll_end = Deadline_passed | Poll_not_ready | Poll_ready

fun async_event_wait ::
  "((async_event \<Rightarrow> async_event) \<times> poll_end) list \<Rightarrow> int \<Rightarrow> async_event \<Rightarrow> bool option \<times> async_event" where
  "async_event_wait script timeout_ms e =
     (case wait_section timeout_ms e of
        (Some r, e') \<Rightarrow> (Some r, e')
      | (None, e') \<Rightarrow>
          (case script of
             [] \<Rightarrow> (None, e')
           | (others, Poll_ready) # script' \<Rightarrow> async_event_wait script' timeout_ms (others e')
           | (others, _) # _ \<Rightarrow> (Some False, others e')))"

declare async_event_wait.simps [simp del]

lemma event_wait_rules:
  "wait_section t e = (Some r, e') \<Longrightarrow> async_event_wait script t e = (Some r, e')"
  "wait_section t e = (None, e') \<Longrightarrow> async_event_wait ((f, Poll_ready) # script) t e = async_event_wait script t (f e')"
  "wait_section t e = (None, e') \<Longrightarrow> p \<noteq> Poll_ready \<Longrightarrow> async_event_wait ((f, p) # script) t e = (Some False, f e')"
  by (subst async_event_wait.simps, simp split: poll_end.split)+

section \<open>Events as flags\<close>

text \<open>The kernel object is readable exactly when the flag is set, and the counter never exceeds one.\<close>

definition event_ok :: "async_event \<Rightarrow> bool" where
  "event_ok e \<longleftrightarrow> ev_counter e = (if ev_signaled e then 1 else 0)"

lemma drain_value: "drain_signal e = e\<lparr>ev_counter := 0\<rparr>"
proof -
  have "drain_signal (e\<lparr>ev_counter := 0\<rparr>) = e\<lparr>ev_counter := 0\<rparr>"
    by (subst drain_signal.simps) (simp add: read_signal_once_def eventfd_read_def)
  then show ?thesis
    by (subst drain_signal.simps) (auto simp: read_signal_once_def eventfd_read_def)
qed

lemma event_init_ok: "async_event_init created m i = Some e \<Longrightarrow> event_ok e \<and> ev_signaled e = i \<and> ev_manual_reset e = m"
  by (auto simp: async_event_init_def Let_def write_signal_once_def eventfd_write_def EVENTFD_MAX_def event_ok_def
      split: if_splits option.splits)

lemma event_set_spec:
  "event_ok e \<Longrightarrow> event_ok (async_event_set e) \<and> ev_signaled (async_event_set e) \<and>
     ev_manual_reset (async_event_set e) = ev_manual_reset e"
  by (auto simp: async_event_set_def write_signal_once_def eventfd_write_def EVENTFD_MAX_def event_ok_def)

lemma event_reset_spec:
  "event_ok e \<Longrightarrow> event_ok (async_event_reset e) \<and> \<not> ev_signaled (async_event_reset e) \<and>
     ev_manual_reset (async_event_reset e) = ev_manual_reset e"
  by (auto simp: async_event_reset_def event_ok_def drain_value)

lemma wait_section_spec:
  "event_ok e \<Longrightarrow> wait_section t e = (r, e') \<Longrightarrow>
     event_ok e' \<and> ev_manual_reset e' = ev_manual_reset e \<and>
     ev_signaled e' = (ev_signaled e \<and> ev_manual_reset e) \<and>
     r = (if ev_signaled e then Some True else if t = 0 then Some False else None)"
  by (auto simp: wait_section_def consume_event_signal_def read_signal_once_def eventfd_read_def event_ok_def
      split: if_splits)

text \<open>The operations of the flag an event stands for.\<close>

datatype event_op = Set_event | Reset_event | Try_event

definition event_apply :: "async_event \<Rightarrow> event_op \<Rightarrow> bool option \<times> async_event" where
  "event_apply e x =
     (case x of
        Set_event \<Rightarrow> (None, async_event_set e)
      | Reset_event \<Rightarrow> (None, async_event_reset e)
      | Try_event \<Rightarrow> async_event_wait [] 0 e)"

definition flag_step :: "bool \<times> bool \<Rightarrow> event_op \<Rightarrow> bool option \<times> bool \<times> bool" where
  "flag_step = (\<lambda>(signaled, manual) x.
     (case x of
        Set_event \<Rightarrow> (None, True, manual)
      | Reset_event \<Rightarrow> (None, False, manual)
      | Try_event \<Rightarrow> (Some signaled, signaled \<and> manual, manual)))"

definition flag_of :: "async_event \<Rightarrow> bool \<times> bool" where
  "flag_of e = (ev_signaled e, ev_manual_reset e)"

interpretation event_flag: functional_refinement event_apply flag_step flag_of event_ok
proof
  fix e x
  assume e: "event_ok e"
  obtain r e' where w: "wait_section 0 e = (r, e')" by fastforce
  note ws = wait_section_spec [OF e w]
  then have r: "async_event_wait [] 0 e = (Some (ev_signaled e), e')" using w by (simp add: event_wait_rules)
  show "flag_step (flag_of e) x = map_prod id flag_of (event_apply e x)"
    using event_set_spec [OF e] event_reset_spec [OF e] w ws
    by (cases x) (auto simp: flag_step_def flag_of_def event_apply_def r)
  show "event_ok (snd (event_apply e x))"
    using event_set_spec [OF e] event_reset_spec [OF e] w ws by (cases x) (auto simp: event_apply_def r)
qed

text \<open>
  C37. Events behave as flags. Whatever sequence of sets, resets and non-blocking waits the threads of the
  process perform on an initialised event, the waits return what the same operations on a plain flag
  return (a wait clears the flag of an auto-reset event only), and at the end the kernel object is readable
  exactly when the flag is set.
\<close>

theorem event_refines_flag:
  assumes "async_event_init True manual_reset initial_state = Some e"
  shows "fst (run_ops event_apply e xs) = fst (run_ops flag_step (initial_state, manual_reset) xs) \<and>
    (ev_counter (snd (run_ops event_apply e xs)) \<noteq> 0) = fst (snd (run_ops flag_step (initial_state, manual_reset) xs))"
proof -
  have e: "event_ok e" "flag_of e = (initial_state, manual_reset)"
    using event_init_ok [OF assms] by (simp_all add: flag_of_def)
  note r = event_flag.run_refines [OF e(1), of xs, unfolded e(2)]
  then have "event_ok (snd (run_ops event_apply e xs))" by simp
  with r show ?thesis by (simp add: event_ok_def flag_of_def)
qed

theorem event_refines_flag_witness:
  "\<exists>e. async_event_init True False True = Some e \<and>
     fst (run_ops event_apply e [Try_event, Try_event, Set_event, Set_event, Try_event, Try_event]) =
       [Some True, Some False, None, None, Some True, Some False] \<and>
     ev_counter (snd (run_ops event_apply e [Try_event, Try_event, Set_event, Set_event, Try_event, Try_event])) = 0"
proof -
  let ?xs = "[Try_event, Try_event, Set_event, Set_event, Try_event, Try_event]"
  let ?e = "\<lparr>ev_counter = 1, ev_signaled = True, ev_manual_reset = False\<rparr>"
  have i: "async_event_init True False True = Some ?e"
    by (simp add: async_event_init_def write_signal_once_def eventfd_write_def EVENTFD_MAX_def)
  have f: "run_ops flag_step (True, False) ?xs =
      ([Some True, Some False, None, None, Some True, Some False], (False, False))"
    by (simp add: flag_step_def)
  note r = event_refines_flag [OF i, of ?xs, unfolded f fst_conv snd_conv]
  show ?thesis by (rule exI [of _ ?e]) (use i r in blast)
qed

text \<open>
  A waiting thread: if the event is set while it is in \<^verbatim>\<open>poll\<close>, the wait returns true; if \<^verbatim>\<open>poll\<close> ends without
  readiness it returns false.
\<close>

lemma wait_sees_set:
  assumes "event_ok e" "\<not> ev_signaled e" "t \<noteq> 0"
  shows "fst (async_event_wait [(async_event_set, Poll_ready)] t e) = Some True"
    "fst (async_event_wait [(id, Poll_not_ready)] t e) = Some False"
proof -
  obtain r e' where w: "wait_section t e = (r, e')" by fastforce
  have e': "event_ok e'" "r = None" using wait_section_spec [OF assms(1) w] assms by auto
  obtain r2 e2 where w2: "wait_section t (async_event_set e') = (r2, e2)" by fastforce
  have "r2 = Some True" using wait_section_spec [OF _ w2] event_set_spec [OF e'(1)] by auto
  then show "fst (async_event_wait [(async_event_set, Poll_ready)] t e) = Some True"
    "fst (async_event_wait [(id, Poll_not_ready)] t e) = Some False"
    using w w2 e'(2) by (simp_all add: event_wait_rules)
qed

end
