(* ===== verification/Async_Runtime.thy ===== *)
theory Async_Runtime
  imports Async_Event
begin

text \<open>
  The demultiplexers: \<^verbatim>\<open>lib/async/async_runtime_epoll.cpp\<close> (Linux) and \<^verbatim>\<open>lib/async/async_runtime_poll.cpp\<close> (other
  POSIX systems). Each keeps a registry from descriptors to interests and contexts, turns what the kernel
  reports into \<^verbatim>\<open>io_event_t\<close> records and carries worker completions. The two files define functions of the same
  names; here they carry the suffix of their file.

  Contexts are pointers: integers, with 0 for the null pointer; \<^verbatim>\<open>slot_to_context\<close> makes the slot number the
  context of a connection. The readiness the kernel reports is an argument of the wait functions.
\<close>

section \<open>Events\<close>

definition EVENT_READ :: u32 where [flag_defs]: "EVENT_READ = 0x01"
definition EVENT_WRITE :: u32 where [flag_defs]: "EVENT_WRITE = 0x02"
definition EVENT_ERROR :: u32 where [flag_defs]: "EVENT_ERROR = 0x04"
definition EVENT_CLOSE :: u32 where [flag_defs]: "EVENT_CLOSE = 0x08"
definition ASYNC_IO_ERROR_KEY :: u64 where "ASYNC_IO_ERROR_KEY = 0xC0000001"

record io_event =
  io_fd :: int
  io_completion_key :: u64
  io_event_type :: u32
  io_context :: int
  io_bytes_transferred :: u64

text \<open>A completion travels as one 64-bit number: the key above, the data below.\<close>

definition completion_value :: "u64 \<Rightarrow> u64 \<Rightarrow> u64" where
  "completion_value key data = push_bit 32 key OR (data AND 0xFFFFFFFF)"

definition completion_event :: "u64 \<Rightarrow> io_event" where
  "completion_event val =
     (let key = drop_bit 32 val; data = val AND 0xFFFFFFFF
      in \<lparr>io_fd = -1, io_completion_key = key,
          io_event_type = (if key = ASYNC_IO_ERROR_KEY then EVENT_ERROR else EVENT_READ),
          io_context = (if key = ASYNC_IO_ERROR_KEY then uint data else 0),
          io_bytes_transferred = data\<rparr>)"

text \<open>How the kernel call of a wait ends: interrupted by a signal, failed, or with what is ready.\<close>

datatype 'e wait_result = Wait_interrupted | Wait_error | Wait_ready 'e

section \<open>Epoll\<close>

definition EPOLLIN :: u32 where [flag_defs]: "EPOLLIN = 0x001"
definition EPOLLOUT :: u32 where [flag_defs]: "EPOLLOUT = 0x004"
definition EPOLLERR :: u32 where [flag_defs]: "EPOLLERR = 0x008"
definition EPOLLHUP :: u32 where [flag_defs]: "EPOLLHUP = 0x010"

definition MAX_EVENTS :: nat where "MAX_EVENTS = 64"

definition events_to_epoll :: "u32 \<Rightarrow> u32" where
  "events_to_epoll events =
     (let e = (if has_flag events EVENT_READ then set_flag 0 EPOLLIN else 0)
      in if has_flag events EVENT_WRITE then set_flag e EPOLLOUT else e)"

definition epoll_to_events :: "u32 \<Rightarrow> u32" where
  "epoll_to_events m =
     (let e1 = (if has_flag m EPOLLIN then set_flag 0 EVENT_READ else 0);
          e2 = (if has_flag m EPOLLOUT then set_flag e1 EVENT_WRITE else e1);
          e3 = (if has_flag m EPOLLERR then set_flag e2 EVENT_ERROR else e2)
      in if has_flag m EPOLLHUP then set_flag e3 EVENT_CLOSE else e3)"

text \<open>\<open>er_interest\<close> and \<open>er_counter\<close> are the state the kernel holds: the epoll set and the eventfd counter.\<close>

record epoll_runtime =
  er_event_fd :: int
  er_counter :: u64
  er_fd_contexts :: "int list"
  er_fd_events :: "nat option list"
  er_interest :: "int \<Rightarrow> u32 option"

definition async_runtime_init_epoll :: "int \<Rightarrow> epoll_runtime" where
  "async_runtime_init_epoll event_fd =
     \<lparr>er_event_fd = event_fd, er_counter = 0, er_fd_contexts = [], er_fd_events = [],
      er_interest = Map.empty(event_fd \<mapsto> EPOLLIN)\<rparr>"

text \<open>
  Creating it: the descriptors closed on the way out of a failed creation, and the runtime. The arguments are the
  outcomes of the allocation, \<^verbatim>\<open>epoll_create1\<close>, \<^verbatim>\<open>eventfd\<close> and \<^verbatim>\<open>epoll_ctl\<close>.
\<close>

definition async_runtime_create_epoll :: "bool \<Rightarrow> int \<Rightarrow> int \<Rightarrow> bool \<Rightarrow> int list \<times> epoll_runtime option" where
  "async_runtime_create_epoll alloc epoll_fd event_fd added =
     (if \<not> alloc then ([], None)
      else if epoll_fd < 0 then ([], None)
      else if event_fd < 0 then ([epoll_fd], None)
      else if \<not> added then ([event_fd, epoll_fd], None)
      else ([], Some (async_runtime_init_epoll event_fd)))"

text \<open>
  Releasing a runtime: the runtimes that are freed and the value \<^verbatim>\<open>current_runtime\<close> is left with. The pointer is cleared
  when it is the runtime that goes.
\<close>

definition async_runtime_deinit_epoll :: "nat \<Rightarrow> nat option \<Rightarrow> nat list \<times> nat option" where
  "async_runtime_deinit_epoll runtime current = ([runtime], if current = Some runtime then None else current)"

text \<open>\<^verbatim>\<open>std::vector::resize\<close>, called only to grow.\<close>

definition grow_to :: "'a \<Rightarrow> nat \<Rightarrow> 'a list \<Rightarrow> 'a list" where
  "grow_to d n xs = (if length xs \<le> n then xs @ replicate (n + 1 - length xs) d else xs)"

definition async_runtime_add_epoll :: "int \<Rightarrow> u32 \<Rightarrow> int \<Rightarrow> epoll_runtime \<Rightarrow> int \<times> epoll_runtime" where
  "async_runtime_add_epoll fd events context r =
     (if fd < 0 then (-1, r)
      else let i = nat fd;
               r1 = r\<lparr>er_fd_contexts := (grow_to 0 i (er_fd_contexts r))[i := context],
                      er_fd_events := (grow_to None i (er_fd_events r))[i := None]\<rparr>
           in if er_interest r fd \<noteq> None then (-1, r1)
              else (0, r1\<lparr>er_interest := (er_interest r)(fd \<mapsto> events_to_epoll events)\<rparr>))"

definition async_runtime_modify_epoll :: "int \<Rightarrow> u32 \<Rightarrow> int \<Rightarrow> epoll_runtime \<Rightarrow> int \<times> epoll_runtime" where
  "async_runtime_modify_epoll fd events context r =
     (if fd < 0 then (-1, r)
      else let i = nat fd; contexts = grow_to 0 i (er_fd_contexts r);
               r1 = r\<lparr>er_fd_contexts := (if context \<noteq> 0 then contexts[i := context] else contexts),
                      er_fd_events := grow_to None i (er_fd_events r)\<rparr>
           in if er_interest r fd = None then (-1, r1)
              else (0, r1\<lparr>er_interest := (er_interest r)(fd \<mapsto> events_to_epoll events)\<rparr>))"

definition async_runtime_remove_epoll :: "int \<Rightarrow> epoll_runtime \<Rightarrow> int \<times> epoll_runtime" where
  "async_runtime_remove_epoll fd r =
     (if fd < 0 then (-1, r)
      else let i = nat fd;
               r1 = r\<lparr>er_fd_contexts := (er_fd_contexts r)[i := 0], er_fd_events := (er_fd_events r)[i := None]\<rparr>
           in if er_interest r fd = None then (-1, r1)
              else (0, r1\<lparr>er_interest := (er_interest r)(fd := None)\<rparr>))"

text \<open>\<open>handle\<close> is the descriptor of the event object \<open>event\<close>.\<close>

definition async_runtime_add_event_epoll :: "nat \<Rightarrow> int \<Rightarrow> int \<Rightarrow> epoll_runtime \<Rightarrow> int \<times> epoll_runtime" where
  "async_runtime_add_event_epoll event handle context r =
     (case async_runtime_add_epoll handle EVENT_READ context r of
        (rc, r1) \<Rightarrow> if rc < 0 then (-1, r1)
                   else (0, r1\<lparr>er_fd_events := (er_fd_events r1)[nat handle := Some event]\<rparr>))"

definition async_runtime_wakeup_epoll :: "epoll_runtime \<Rightarrow> int \<times> epoll_runtime" where
  "async_runtime_wakeup_epoll r =
     (case eventfd_write 1 (er_counter r) of
        None \<Rightarrow> (-1, r)
      | Some c \<Rightarrow> (0, r\<lparr>er_counter := c\<rparr>))"

definition async_runtime_post_completion_epoll :: "u64 \<Rightarrow> u64 \<Rightarrow> epoll_runtime \<Rightarrow> int \<times> epoll_runtime" where
  "async_runtime_post_completion_epoll key data r =
     (case eventfd_write (completion_value key data) (er_counter r) of
        None \<Rightarrow> (-1, r)
      | Some c \<Rightarrow> (0, r\<lparr>er_counter := c\<rparr>))"

text \<open>The registered event object of a ready descriptor; an auto-reset event is taken here.\<close>

definition take_event :: "nat option \<Rightarrow> (nat \<Rightarrow> async_event) \<Rightarrow> bool \<times> (nat \<Rightarrow> async_event)" where
  "take_event event evs =
     (case event of
        None \<Rightarrow> (True, evs)
      | Some e \<Rightarrow> if async_event_is_manual_reset (evs e) then (True, evs)
                  else case async_event_wait [] 0 (evs e) of (r, e') \<Rightarrow> (r = Some True, evs(e := e')))"

definition nth_or :: "'a \<Rightarrow> 'a list \<Rightarrow> int \<Rightarrow> 'a" where
  "nth_or d xs fd = (if fd \<ge> 0 \<and> nat fd < length xs then xs ! nat fd else d)"

fun epoll_collect ::
  "nat \<Rightarrow> (int \<times> u32) list \<Rightarrow> io_event list \<Rightarrow> epoll_runtime \<Rightarrow> (nat \<Rightarrow> async_event) \<Rightarrow>
   io_event list \<times> epoll_runtime \<times> (nat \<Rightarrow> async_event)" where
  "epoll_collect max_events [] acc r evs = (acc, r, evs)"
| "epoll_collect max_events ((fd, m) # ready) acc r evs =
     (if length acc \<ge> max_events then (acc, r, evs)
      else if fd = er_event_fd r then
        (case eventfd_read (er_counter r) of
           None \<Rightarrow> epoll_collect max_events ready acc r evs
         | Some (val, c) \<Rightarrow> epoll_collect max_events ready (acc @ [completion_event val]) (r\<lparr>er_counter := c\<rparr>) evs)
      else
        (case take_event (nth_or None (er_fd_events r) fd) evs of
           (False, evs') \<Rightarrow> epoll_collect max_events ready acc r evs'
         | (True, evs') \<Rightarrow>
             epoll_collect max_events ready
               (acc @ [\<lparr>io_fd = fd, io_completion_key = 0, io_event_type = epoll_to_events m,
                        io_context = nth_or 0 (er_fd_contexts r) fd, io_bytes_transferred = 0\<rparr>]) r evs'))"

definition async_runtime_wait_epoll ::
  "int \<Rightarrow> (int \<times> u32) list wait_result \<Rightarrow> epoll_runtime \<Rightarrow> (nat \<Rightarrow> async_event) \<Rightarrow>
   int \<times> io_event list \<times> epoll_runtime \<times> (nat \<Rightarrow> async_event)" where
  "async_runtime_wait_epoll max_events result r evs =
     (if max_events \<le> 0 then (-1, [], r, evs)
      else case result of
        Wait_interrupted \<Rightarrow> (0, [], r, evs)
      | Wait_error \<Rightarrow> (-1, [], r, evs)
      | Wait_ready ready \<Rightarrow>
          (case epoll_collect (nat max_events) (take (min (nat max_events) MAX_EVENTS) ready) [] r evs of
             (ios, r', evs') \<Rightarrow> (int (length ios), ios, r', evs')))"

section \<open>Poll\<close>

definition POLLIN :: u32 where [flag_defs]: "POLLIN = 0x001"
definition POLLOUT :: u32 where [flag_defs]: "POLLOUT = 0x004"
definition POLLERR :: u32 where [flag_defs]: "POLLERR = 0x008"
definition POLLHUP :: u32 where [flag_defs]: "POLLHUP = 0x010"
definition POLLNVAL :: u32 where [flag_defs]: "POLLNVAL = 0x020"

definition INITIAL_CAPACITY :: nat where "INITIAL_CAPACITY = 64"
definition MAX_FD_COUNT :: nat where "MAX_FD_COUNT = 4096"

record pollfd =
  pf_fd :: int
  pf_events :: u32
  pf_revents :: u32

record fd_mapping =
  fm_fd :: int
  fm_context :: int
  fm_events :: u32
  fm_event :: "nat option"

text \<open>\<open>pr_pipe\<close> holds the bytes in the notification pipe.\<close>

record poll_runtime =
  pr_pollfds :: "pollfd list"
  pr_mappings :: "fd_mapping list"
  pr_capacity :: nat
  pr_count :: nat
  pr_notify_fd :: int
  pr_pipe :: "byte list"

definition blank_pollfd :: pollfd where
  "blank_pollfd = \<lparr>pf_fd = -1, pf_events = 0, pf_revents = 0\<rparr>"

definition blank_mapping :: fd_mapping where
  "blank_mapping = \<lparr>fm_fd = -1, fm_context = 0, fm_events = 0, fm_event = None\<rparr>"

definition async_runtime_init_poll :: "int \<Rightarrow> poll_runtime" where
  "async_runtime_init_poll notify_fd =
     \<lparr>pr_pollfds = (replicate INITIAL_CAPACITY blank_pollfd)[0 := \<lparr>pf_fd = notify_fd, pf_events = POLLIN, pf_revents = 0\<rparr>],
      pr_mappings = (replicate INITIAL_CAPACITY blank_mapping)
        [0 := \<lparr>fm_fd = notify_fd, fm_context = 0, fm_events = EVENT_READ, fm_event = None\<rparr>],
      pr_capacity = INITIAL_CAPACITY, pr_count = 1, pr_notify_fd = notify_fd, pr_pipe = []\<rparr>"

text \<open>The arguments are the outcomes of the three allocations and the read end of the pipe, if there is one.\<close>

definition async_runtime_create_poll :: "bool \<Rightarrow> bool \<Rightarrow> bool \<Rightarrow> int option \<Rightarrow> poll_runtime option" where
  "async_runtime_create_poll alloc pollfds mappings notify_fd =
     (if \<not> alloc then None
      else if \<not> pollfds \<or> \<not> mappings then None
      else map_option async_runtime_init_poll notify_fd)"

text \<open>
  \<^verbatim>\<open>compare_exchange_strong\<close> is given the runtime itself as the expected value, which a failed exchange overwrites with
  the current one; what is freed afterwards is the overwritten pointer.
\<close>

definition async_runtime_deinit_poll :: "nat \<Rightarrow> nat option \<Rightarrow> nat list \<times> nat option" where
  "async_runtime_deinit_poll runtime current =
     (if current = Some runtime then ([runtime], None) else (opt_list id current, current))"

definition find_fd_index :: "poll_runtime \<Rightarrow> int \<Rightarrow> nat option" where
  "find_fd_index r fd = find (\<lambda>i. pf_fd (pr_pollfds r ! i) = fd) [0..<pr_count r]"

definition events_to_poll :: "u32 \<Rightarrow> u32" where
  "events_to_poll events =
     (let e = (if has_flag events EVENT_READ then set_flag 0 POLLIN else 0)
      in if has_flag events EVENT_WRITE then set_flag e POLLOUT else e)"

definition poll_to_events :: "u32 \<Rightarrow> u32" where
  "poll_to_events m =
     (let e1 = (if has_flag m POLLIN then set_flag 0 EVENT_READ else 0);
          e2 = (if has_flag m POLLOUT then set_flag e1 EVENT_WRITE else e1);
          e3 = (if has_flag m POLLERR then set_flag e2 EVENT_ERROR else e2)
      in if has_flag m (set_flag POLLHUP POLLNVAL) then set_flag e3 EVENT_CLOSE else e3)"

text \<open>Both reallocations succeed, or the function reports failure; \<open>memory\<close> is whether they do.\<close>

definition expand_capacity :: "bool \<Rightarrow> poll_runtime \<Rightarrow> int \<times> poll_runtime" where
  "expand_capacity memory r =
     (let doubled = pr_capacity r * 2;
          new_capacity = (if doubled > MAX_FD_COUNT then MAX_FD_COUNT else doubled)
      in if \<not> memory then (-1, r)
         else (0, r\<lparr>pr_pollfds := pr_pollfds r @ replicate (new_capacity - pr_capacity r) blank_pollfd,
                    pr_mappings := pr_mappings r @ replicate (new_capacity - pr_capacity r) blank_mapping,
                    pr_capacity := new_capacity\<rparr>))"

text \<open>\<open>None\<close> is a write past the end of the arrays.\<close>

definition async_runtime_add_poll :: "bool \<Rightarrow> int \<Rightarrow> u32 \<Rightarrow> int \<Rightarrow> poll_runtime \<Rightarrow> (int \<times> poll_runtime) option" where
  "async_runtime_add_poll memory fd events context r =
     (if fd < 0 then Some (-1, r)
      else if find_fd_index r fd \<noteq> None then Some (-1, r)
      else case (if pr_count r \<ge> pr_capacity r then expand_capacity memory r else (0, r)) of
        (rc, r1) \<Rightarrow>
          if rc < 0 then Some (-1, r1)
          else let idx = pr_count r1 in
            if idx \<ge> length (pr_pollfds r1) then None
            else Some (0, r1\<lparr>pr_count := idx + 1,
                    pr_pollfds := (pr_pollfds r1)[idx := \<lparr>pf_fd = fd, pf_events = events_to_poll events, pf_revents = 0\<rparr>],
                    pr_mappings := (pr_mappings r1)[idx := \<lparr>fm_fd = fd, fm_context = context, fm_events = events, fm_event = None\<rparr>]\<rparr>))"

definition async_runtime_modify_poll :: "int \<Rightarrow> u32 \<Rightarrow> int \<Rightarrow> poll_runtime \<Rightarrow> int \<times> poll_runtime" where
  "async_runtime_modify_poll fd events context r =
     (if fd < 0 then (-1, r)
      else case find_fd_index r fd of
        None \<Rightarrow> (-1, r)
      | Some i \<Rightarrow>
          (let m = (pr_mappings r ! i)\<lparr>fm_events := events\<rparr>
           in (0, r\<lparr>pr_pollfds := (pr_pollfds r)[i := (pr_pollfds r ! i)\<lparr>pf_events := events_to_poll events\<rparr>],
                    pr_mappings := (pr_mappings r)[i := if context \<noteq> 0 then m\<lparr>fm_context := context\<rparr> else m]\<rparr>)))"

definition async_runtime_remove_poll :: "int \<Rightarrow> poll_runtime \<Rightarrow> int \<times> poll_runtime" where
  "async_runtime_remove_poll fd r =
     (if fd < 0 then (-1, r)
      else case find_fd_index r fd of
        None \<Rightarrow> (-1, r)
      | Some i \<Rightarrow>
          (let n = pr_count r - 1;
               ps = (if i < n then (pr_pollfds r)[i := pr_pollfds r ! n] else pr_pollfds r);
               ms = (if i < n then (pr_mappings r)[i := pr_mappings r ! n] else pr_mappings r)
           in (0, r\<lparr>pr_count := n, pr_pollfds := ps[n := (ps ! n)\<lparr>pf_fd := -1\<rparr>],
                    pr_mappings := ms[n := (ms ! n)\<lparr>fm_fd := -1, fm_event := None\<rparr>]\<rparr>)))"

definition async_runtime_add_event_poll ::
  "bool \<Rightarrow> nat \<Rightarrow> int \<Rightarrow> int \<Rightarrow> poll_runtime \<Rightarrow> (int \<times> poll_runtime) option" where
  "async_runtime_add_event_poll memory event handle context r =
     (case async_runtime_add_poll memory handle EVENT_READ context r of
        None \<Rightarrow> None
      | Some (rc, r1) \<Rightarrow>
          if rc < 0 then Some (-1, r1)
          else case find_fd_index r1 handle of
            None \<Rightarrow> None
          | Some i \<Rightarrow> Some (0, r1\<lparr>pr_mappings := (pr_mappings r1)[i := (pr_mappings r1 ! i)\<lparr>fm_event := Some event\<rparr>]\<rparr>))"

text \<open>The pipe: a wakeup is one byte, a completion the eight bytes of its number, lowest first.\<close>

definition value_bytes :: "u64 \<Rightarrow> byte list" where
  "value_bytes v = map (\<lambda>i. ucast (drop_bit (8 * i) v)) [0..<8]"

fun bytes_value :: "byte list \<Rightarrow> u64" where
  "bytes_value [] = 0"
| "bytes_value (b # bs) = ucast b OR push_bit 8 (bytes_value bs)"

definition async_runtime_wakeup_poll :: "poll_runtime \<Rightarrow> poll_runtime" where
  "async_runtime_wakeup_poll r = r\<lparr>pr_pipe := pr_pipe r @ [1]\<rparr>"

definition async_runtime_post_completion_poll :: "u64 \<Rightarrow> u64 \<Rightarrow> poll_runtime \<Rightarrow> poll_runtime" where
  "async_runtime_post_completion_poll key data r = r\<lparr>pr_pipe := pr_pipe r @ value_bytes (completion_value key data)\<rparr>"

text \<open>Each read takes up to eight bytes; a short read ends the loop. Completions past the limit are dropped.\<close>

function drain_pipe :: "nat \<Rightarrow> io_event list \<Rightarrow> byte list \<Rightarrow> io_event list \<times> byte list" where
  "drain_pipe max_events acc bytes =
     (if length bytes < 8 then (acc, [])
      else drain_pipe max_events
             (if length acc < max_events then acc @ [completion_event (bytes_value (take 8 bytes))] else acc) (drop 8 bytes))"
  by pat_completeness auto
termination by (relation "measure (\<lambda>(max_events, acc, bytes). length bytes)") auto

declare drain_pipe.simps [simp del]

text \<open>\<open>revents\<close> gives what the kernel stored for each index.\<close>

fun poll_collect ::
  "nat \<Rightarrow> (nat \<Rightarrow> u32) \<Rightarrow> nat list \<Rightarrow> io_event list \<Rightarrow> poll_runtime \<Rightarrow> (nat \<Rightarrow> async_event) \<Rightarrow>
   io_event list \<times> poll_runtime \<times> (nat \<Rightarrow> async_event)" where
  "poll_collect max_events revents [] acc r evs = (acc, r, evs)"
| "poll_collect max_events revents (i # is) acc r evs =
     (if length acc \<ge> max_events then (acc, r, evs)
      else if revents i = 0 then poll_collect max_events revents is acc r evs
      else if pf_fd (pr_pollfds r ! i) = pr_notify_fd r then
        (case drain_pipe max_events acc (pr_pipe r) of
           (acc', bytes) \<Rightarrow> poll_collect max_events revents is acc' (r\<lparr>pr_pipe := bytes\<rparr>) evs)
      else
        (case take_event (fm_event (pr_mappings r ! i)) evs of
           (False, evs') \<Rightarrow> poll_collect max_events revents is acc r evs'
         | (True, evs') \<Rightarrow>
             poll_collect max_events revents is
               (acc @ [\<lparr>io_fd = pf_fd (pr_pollfds r ! i), io_completion_key = 0,
                        io_event_type = poll_to_events (revents i), io_context = fm_context (pr_mappings r ! i),
                        io_bytes_transferred = 0\<rparr>]) r evs'))"

definition async_runtime_wait_poll ::
  "int \<Rightarrow> (nat \<Rightarrow> u32) wait_result \<Rightarrow> poll_runtime \<Rightarrow> (nat \<Rightarrow> async_event) \<Rightarrow>
   int \<times> io_event list \<times> poll_runtime \<times> (nat \<Rightarrow> async_event)" where
  "async_runtime_wait_poll max_events result r evs =
     (if max_events \<le> 0 then (-1, [], r, evs)
      else case result of
        Wait_interrupted \<Rightarrow> (0, [], r, evs)
      | Wait_error \<Rightarrow> (-1, [], r, evs)
      | Wait_ready rv \<Rightarrow>
          (case poll_collect (nat max_events) rv [0..<pr_count r] [] r evs of
             (ios, r', evs') \<Rightarrow> (int (length ios), ios, r', evs')))"

end
