(* ===== verification/Runtime_Registry.thy ===== *)
theory Runtime_Registry
  imports Async_Runtime
begin

text \<open>
  What the event loop relies on of a runtime: a registry from descriptors to the events wanted and the context
  of the connection. The contract is a locale with the epoll and the poll runtime as its instances; its client
  lemma gives that both behave as one finite map, hence as each other.
\<close>

section \<open>The contract\<close>

text \<open>Interest in reading, interest in writing, context.\<close>

type_synonym fd_entry = "bool \<times> bool \<times> int"

datatype registry_op = Reg_add int u32 int | Reg_modify int u32 int | Reg_remove int

definition entry_of :: "u32 \<Rightarrow> int \<Rightarrow> fd_entry" where
  "entry_of events context = (has_flag events EVENT_READ, has_flag events EVENT_WRITE, context)"

definition map_step :: "(int \<Rightarrow> fd_entry option) \<Rightarrow> registry_op \<Rightarrow> int \<times> (int \<Rightarrow> fd_entry option)" where
  "map_step m x =
     (case x of
        Reg_add fd ev ctx \<Rightarrow> if fd < 0 then (-1, m) else (0, m(fd \<mapsto> entry_of ev ctx))
      | Reg_modify fd ev ctx \<Rightarrow>
          (case m fd of
             None \<Rightarrow> (-1, m)
           | Some (_, _, ctx0) \<Rightarrow> (0, m(fd \<mapsto> entry_of ev (if ctx \<noteq> 0 then ctx else ctx0))))
      | Reg_remove fd \<Rightarrow> if m fd = None then (-1, m) else (0, m(fd := None)))"

text \<open>A client registers a descriptor only while it is not registered, as the communication layer does.\<close>

fun fresh_adds :: "(int \<Rightarrow> fd_entry option) \<Rightarrow> registry_op list \<Rightarrow> bool" where
  "fresh_adds m [] = True"
| "fresh_adds m (x # xs) =
     ((case x of Reg_add fd _ _ \<Rightarrow> m fd = None | _ \<Rightarrow> True) \<and> fresh_adds (snd (map_step m x)) xs)"

locale fd_registry =
  fixes reg_step :: "'s \<Rightarrow> registry_op \<Rightarrow> int \<times> 's"
    and lookup :: "'s \<Rightarrow> int \<Rightarrow> fd_entry option"
    and room :: "nat \<Rightarrow> 's \<Rightarrow> bool"
  assumes reg_add: "room (Suc n) s \<Longrightarrow> lookup s fd = None \<Longrightarrow>
      map_step (lookup s) (Reg_add fd ev ctx) = map_prod id lookup (reg_step s (Reg_add fd ev ctx)) \<and>
      room n (snd (reg_step s (Reg_add fd ev ctx)))"
    and reg_modify: "room n s \<Longrightarrow>
      map_step (lookup s) (Reg_modify fd ev ctx) = map_prod id lookup (reg_step s (Reg_modify fd ev ctx)) \<and>
      room n (snd (reg_step s (Reg_modify fd ev ctx)))"
    and reg_remove: "room n s \<Longrightarrow>
      map_step (lookup s) (Reg_remove fd) = map_prod id lookup (reg_step s (Reg_remove fd)) \<and>
      room n (snd (reg_step s (Reg_remove fd)))"
    and room_Suc: "room (Suc n) s \<Longrightarrow> room n s"
begin

lemma step_map:
  assumes "room (Suc n) s" "case x of Reg_add fd _ _ \<Rightarrow> lookup s fd = None | _ \<Rightarrow> True"
  shows "map_step (lookup s) x = map_prod id lookup (reg_step s x) \<and> room n (snd (reg_step s x))"
proof (cases x)
  case (Reg_add fd ev ctx)
  then show ?thesis using reg_add [OF assms(1), of fd ev ctx] assms(2) by simp
next
  case (Reg_modify fd ev ctx)
  then show ?thesis using reg_modify [OF room_Suc [OF assms(1)], of fd ev ctx] by simp
next
  case (Reg_remove fd)
  then show ?thesis using reg_remove [OF room_Suc [OF assms(1)], of fd] by simp
qed

lemma run_map:
  "room (length xs) s \<Longrightarrow> fresh_adds (lookup s) xs \<Longrightarrow>
     run_ops map_step (lookup s) xs = map_prod id lookup (run_ops reg_step s xs)"
proof (induction xs arbitrary: s)
  case (Cons x xs)
  obtain r s' where st: "reg_step s x = (r, s')" by fastforce
  have "case x of Reg_add fd _ _ \<Rightarrow> lookup s fd = None | _ \<Rightarrow> True" using Cons.prems(2) by (cases x) auto
  from step_map [OF _ this, of "length xs"] Cons.prems(1)
  have m: "map_step (lookup s) x = (r, lookup s')" "room (length xs) s'" using st by simp_all
  have "fresh_adds (lookup s') xs" using Cons.prems(2) m(1) by simp
  from Cons.IH [OF m(2) this] show ?case using st m(1) by (simp add: split_beta)
qed simp

end

section \<open>Epoll\<close>

definition epoll_step :: "epoll_runtime \<Rightarrow> registry_op \<Rightarrow> int \<times> epoll_runtime" where
  "epoll_step r x =
     (case x of
        Reg_add fd ev ctx \<Rightarrow> async_runtime_add_epoll fd ev ctx r
      | Reg_modify fd ev ctx \<Rightarrow> async_runtime_modify_epoll fd ev ctx r
      | Reg_remove fd \<Rightarrow> async_runtime_remove_epoll fd r)"

definition epoll_lookup :: "epoll_runtime \<Rightarrow> int \<Rightarrow> fd_entry option" where
  "epoll_lookup r fd =
     map_option (\<lambda>m. (has_flag m EPOLLIN, has_flag m EPOLLOUT, nth_or 0 (er_fd_contexts r) fd)) (er_interest r fd)"

text \<open>Only descriptors are registered, and a registered one has its place in the vector.\<close>

definition epoll_wf :: "nat \<Rightarrow> epoll_runtime \<Rightarrow> bool" where
  "epoll_wf n r \<longleftrightarrow> (\<forall>fd. er_interest r fd \<noteq> None \<longrightarrow> 0 \<le> fd)"

lemma epoll_mask: "has_flag (events_to_epoll ev) EPOLLIN = has_flag ev EVENT_READ"
  "has_flag (events_to_epoll ev) EPOLLOUT = has_flag ev EVENT_WRITE"
proof -
  have "\<not> has_flag EPOLLIN EPOLLOUT" "\<not> has_flag EPOLLOUT EPOLLIN" "has_flag EPOLLIN EPOLLIN" "has_flag EPOLLOUT EPOLLOUT"
    by (simp_all add: has_flag_def flag_defs)
  then show "has_flag (events_to_epoll ev) EPOLLIN = has_flag ev EVENT_READ"
    "has_flag (events_to_epoll ev) EPOLLOUT = has_flag ev EVENT_WRITE"
    by (auto simp: events_to_epoll_def Let_def)
qed

lemma nth_or_grow [simp]: "nth_or d (grow_to d i xs) fd = nth_or d xs fd"
  by (auto simp: nth_or_def grow_to_def nth_append)

lemma length_grow: "i < length (grow_to d i xs)"
  by (auto simp: grow_to_def)

lemma nth_or_update: "0 \<le> k \<Longrightarrow> nth_or d (xs[nat k := v]) fd = (if fd = k \<and> nat k < length xs then v else nth_or d xs fd)"
  by (auto simp: nth_or_def nth_list_update)

interpretation epoll_registry: fd_registry epoll_step epoll_lookup epoll_wf
proof
  fix n :: nat and s :: epoll_runtime and fd :: int and ev :: u32 and ctx :: int
  show "epoll_wf (Suc n) s \<Longrightarrow> epoll_wf n s" by (simp add: epoll_wf_def)
  show "map_step (epoll_lookup s) (Reg_add fd ev ctx) = map_prod id epoll_lookup (epoll_step s (Reg_add fd ev ctx)) \<and>
      epoll_wf n (snd (epoll_step s (Reg_add fd ev ctx)))"
    if "epoll_wf (Suc n) s" "epoll_lookup s fd = None"
    using that length_grow [of "nat fd" 0 "er_fd_contexts s"]
    by (auto simp: map_step_def epoll_step_def async_runtime_add_epoll_def Let_def epoll_lookup_def epoll_wf_def entry_of_def
        epoll_mask nth_or_update fun_eq_iff)
  show "map_step (epoll_lookup s) (Reg_modify fd ev ctx) = map_prod id epoll_lookup (epoll_step s (Reg_modify fd ev ctx)) \<and>
      epoll_wf n (snd (epoll_step s (Reg_modify fd ev ctx)))"
    if "epoll_wf n s"
    using that length_grow [of "nat fd" 0 "er_fd_contexts s"]
    by (cases "er_interest s fd")
      (auto simp: map_step_def epoll_step_def async_runtime_modify_epoll_def Let_def epoll_lookup_def epoll_wf_def entry_of_def
        epoll_mask nth_or_update fun_eq_iff)
  show "map_step (epoll_lookup s) (Reg_remove fd) = map_prod id epoll_lookup (epoll_step s (Reg_remove fd)) \<and>
      epoll_wf n (snd (epoll_step s (Reg_remove fd)))"
    if "epoll_wf n s"
    using that
    by (cases "er_interest s fd")
      (auto simp: map_step_def epoll_step_def async_runtime_remove_epoll_def Let_def epoll_lookup_def epoll_wf_def
        nth_or_update fun_eq_iff)
qed

section \<open>Poll\<close>

text \<open>The state \<open>None\<close> is a runtime whose arrays have been overrun.\<close>

definition poll_step :: "poll_runtime option \<Rightarrow> registry_op \<Rightarrow> int \<times> poll_runtime option" where
  "poll_step s x =
     (case s of
        None \<Rightarrow> (-1, None)
      | Some r \<Rightarrow>
          (case x of
             Reg_add fd ev ctx \<Rightarrow>
               (case async_runtime_add_poll True fd ev ctx r of None \<Rightarrow> (-1, None) | Some (rc, r') \<Rightarrow> (rc, Some r'))
           | Reg_modify fd ev ctx \<Rightarrow> map_prod id Some (async_runtime_modify_poll fd ev ctx r)
           | Reg_remove fd \<Rightarrow> map_prod id Some (async_runtime_remove_poll fd r)))"

definition poll_entry :: "poll_runtime \<Rightarrow> nat \<Rightarrow> fd_entry" where
  "poll_entry r i = (has_flag (pf_events (pr_pollfds r ! i)) POLLIN, has_flag (pf_events (pr_pollfds r ! i)) POLLOUT,
     fm_context (pr_mappings r ! i))"

definition poll_lookup :: "poll_runtime option \<Rightarrow> int \<Rightarrow> fd_entry option" where
  "poll_lookup s fd = (case s of None \<Rightarrow> None | Some r \<Rightarrow> map_option (poll_entry r) (find_fd_index r fd))"

text \<open>The arrays have the length of the capacity and the registered prefix holds distinct descriptors.\<close>

definition poll_arrays :: "poll_runtime \<Rightarrow> bool" where
  "poll_arrays r \<longleftrightarrow>
     length (pr_pollfds r) = pr_capacity r \<and> length (pr_mappings r) = pr_capacity r \<and>
     0 < pr_capacity r \<and> pr_capacity r \<le> MAX_FD_COUNT \<and> pr_count r \<le> pr_capacity r \<and>
     (\<forall>i < pr_count r. 0 \<le> pf_fd (pr_pollfds r ! i)) \<and>
     (\<forall>i < pr_count r. \<forall>j < pr_count r. pf_fd (pr_pollfds r ! i) = pf_fd (pr_pollfds r ! j) \<longrightarrow> i = j)"

definition poll_wf :: "nat \<Rightarrow> poll_runtime option \<Rightarrow> bool" where
  "poll_wf n s \<longleftrightarrow> (case s of None \<Rightarrow> False | Some r \<Rightarrow> poll_arrays r \<and> pr_count r + n \<le> MAX_FD_COUNT)"

lemma poll_mask: "has_flag (events_to_poll ev) POLLIN = has_flag ev EVENT_READ"
  "has_flag (events_to_poll ev) POLLOUT = has_flag ev EVENT_WRITE"
proof -
  have "\<not> has_flag POLLIN POLLOUT" "\<not> has_flag POLLOUT POLLIN" "has_flag POLLIN POLLIN" "has_flag POLLOUT POLLOUT"
    by (simp_all add: has_flag_def flag_defs)
  then show "has_flag (events_to_poll ev) POLLIN = has_flag ev EVENT_READ"
    "has_flag (events_to_poll ev) POLLOUT = has_flag ev EVENT_WRITE"
    by (auto simp: events_to_poll_def Let_def)
qed

lemma find_fd_SomeD: "find_fd_index r fd = Some i \<Longrightarrow> i < pr_count r \<and> pf_fd (pr_pollfds r ! i) = fd"
  by (auto simp: find_fd_index_def find_Some_iff)

lemma find_fd_None: "find_fd_index r fd = None \<longleftrightarrow> (\<forall>i < pr_count r. pf_fd (pr_pollfds r ! i) \<noteq> fd)"
  by (auto simp: find_fd_index_def find_None_iff)

lemma find_fd_eq:
  assumes "poll_arrays r" "i < pr_count r" "pf_fd (pr_pollfds r ! i) = fd"
  shows "find_fd_index r fd = Some i"
proof (cases "find_fd_index r fd")
  case None
  then show ?thesis using assms by (simp add: find_fd_None)
next
  case (Some j)
  then show ?thesis using find_fd_SomeD [OF Some] assms by (simp add: poll_arrays_def)
qed

lemma find_fd_iff: "poll_arrays r \<Longrightarrow> find_fd_index r fd = Some i \<longleftrightarrow> i < pr_count r \<and> pf_fd (pr_pollfds r ! i) = fd"
  using find_fd_SomeD find_fd_eq by blast

lemma poll_lookup_iff:
  "poll_arrays r \<Longrightarrow> poll_lookup (Some r) fd = Some v \<longleftrightarrow>
     (\<exists>i < pr_count r. pf_fd (pr_pollfds r ! i) = fd \<and> v = poll_entry r i)"
  by (auto simp: poll_lookup_def find_fd_iff)

lemma map_eqI: "(\<And>k v. m k = Some v \<longleftrightarrow> m' k = Some v) \<Longrightarrow> m = m'"
  by (rule ext) (metis option.exhaust)

text \<open>Growing leaves the registered prefix alone and makes room for one more.\<close>

lemma expand_spec:
  assumes "poll_arrays r" "pr_count r < MAX_FD_COUNT"
    and "r1 = snd (if pr_count r \<ge> pr_capacity r then expand_capacity True r else (0, r))"
  shows "poll_arrays r1 \<and> pr_count r1 = pr_count r \<and> pr_count r1 < length (pr_pollfds r1) \<and>
    (\<forall>i < pr_count r. pr_pollfds r1 ! i = pr_pollfds r ! i \<and> pr_mappings r1 ! i = pr_mappings r ! i)"
  using assms by (auto simp: poll_arrays_def expand_capacity_def Let_def nth_append MAX_FD_COUNT_def)

lemma poll_add:
  assumes r: "poll_arrays r" and room: "pr_count r < MAX_FD_COUNT" and new: "find_fd_index r fd = None" and fd: "0 \<le> fd"
  shows "\<exists>r'. async_runtime_add_poll True fd ev ctx r = Some (0, r') \<and> poll_arrays r' \<and> pr_count r' = pr_count r + 1 \<and>
    poll_lookup (Some r') = (poll_lookup (Some r))(fd \<mapsto> entry_of ev ctx)"
proof -
  define r1 where "r1 = snd (if pr_count r \<ge> pr_capacity r then expand_capacity True r else (0, r))"
  note e = expand_spec [OF r room r1_def]
  define idx where "idx = pr_count r1"
  define r' where "r' = r1\<lparr>pr_count := idx + 1,
      pr_pollfds := (pr_pollfds r1)[idx := \<lparr>pf_fd = fd, pf_events = events_to_poll ev, pf_revents = 0\<rparr>],
      pr_mappings := (pr_mappings r1)[idx := \<lparr>fm_fd = fd, fm_context = ctx, fm_events = ev, fm_event = None\<rparr>]\<rparr>"
  have p: "(if pr_count r \<ge> pr_capacity r then expand_capacity True r else (0, r)) = (0, r1)"
    by (simp add: r1_def expand_capacity_def Let_def)
  have old: "pf_fd (pr_pollfds r1 ! i) \<noteq> fd" if "i < pr_count r" for i
    using new e that by (simp add: find_fd_None)
  have len: "length (pr_pollfds r1) = length (pr_mappings r1)" using e by (simp add: poll_arrays_def)
  have wf: "poll_arrays r'"
    using e fd old by (auto simp: poll_arrays_def r'_def idx_def nth_list_update less_Suc_eq)
  have "async_runtime_add_poll True fd ev ctx r = Some (0, r')"
    using fd new e p by (simp add: async_runtime_add_poll_def r'_def idx_def Let_def)
  moreover have "poll_lookup (Some r') = (poll_lookup (Some r))(fd \<mapsto> entry_of ev ctx)"
  proof (rule map_eqI)
    fix k v
    have new_entry: "pf_fd (pr_pollfds r' ! idx) = fd" "poll_entry r' idx = entry_of ev ctx"
      "\<And>i. i < pr_count r \<Longrightarrow> pf_fd (pr_pollfds r' ! i) = pf_fd (pr_pollfds r ! i) \<and> poll_entry r' i = poll_entry r i"
      using e len by (auto simp: r'_def idx_def poll_entry_def entry_of_def poll_mask)
    have cnt: "pr_count r' = Suc (pr_count r)" using e by (simp add: r'_def idx_def)
    have "poll_lookup (Some r') k = Some v \<longleftrightarrow>
        (k = fd \<and> v = entry_of ev ctx) \<or> (\<exists>i < pr_count r. pf_fd (pr_pollfds r ! i) = k \<and> v = poll_entry r i)"
      using new_entry e unfolding poll_lookup_iff [OF wf] cnt Ex_less_Suc by (auto simp: idx_def)
    then show "poll_lookup (Some r') k = Some v \<longleftrightarrow> ((poll_lookup (Some r))(fd \<mapsto> entry_of ev ctx)) k = Some v"
      using poll_lookup_iff [OF r, of k v] new by (auto simp: find_fd_None)
  qed
  ultimately show ?thesis using wf e by (auto simp: r'_def idx_def)
qed

lemma poll_modify:
  assumes r: "poll_arrays r" and i: "find_fd_index r fd = Some i"
  shows "\<exists>r'. async_runtime_modify_poll fd ev ctx r = (0, r') \<and> poll_arrays r' \<and> pr_count r' = pr_count r \<and>
    poll_lookup (Some r') = (poll_lookup (Some r))(fd \<mapsto> entry_of ev (if ctx \<noteq> 0 then ctx else fm_context (pr_mappings r ! i)))"
proof -
  define r' where "r' = snd (async_runtime_modify_poll fd ev ctx r)"
  note f = find_fd_SomeD [OF i]
  then have "0 \<le> fd" using r by (auto simp: poll_arrays_def)
  then have eq: "async_runtime_modify_poll fd ev ctx r = (0, r')"
    using i by (simp add: async_runtime_modify_poll_def r'_def Let_def)
  have il: "i < length (pr_pollfds r)" "i < length (pr_mappings r)" using r f by (auto simp: poll_arrays_def)
  have fields: "pr_count r' = pr_count r" "\<And>j. j < pr_count r \<Longrightarrow> pf_fd (pr_pollfds r' ! j) = pf_fd (pr_pollfds r ! j)"
    "\<And>j. j < pr_count r \<Longrightarrow> poll_entry r' j =
       (if j = i then entry_of ev (if ctx \<noteq> 0 then ctx else fm_context (pr_mappings r ! i)) else poll_entry r j)"
    using i il \<open>0 \<le> fd\<close>
    by (auto simp: r'_def async_runtime_modify_poll_def Let_def poll_entry_def entry_of_def poll_mask nth_list_update)
  have "length (pr_pollfds r') = length (pr_pollfds r)" "length (pr_mappings r') = length (pr_mappings r)" "pr_capacity r' = pr_capacity r"
    using i \<open>0 \<le> fd\<close> by (auto simp: r'_def async_runtime_modify_poll_def Let_def)
  then have wf: "poll_arrays r'" using r fields by (auto simp: poll_arrays_def)
  have fi: "find_fd_index r' k = find_fd_index r k" for k
    unfolding find_fd_index_def fields(1) by (rule find_cong) (simp_all add: fields)
  have "poll_lookup (Some r') = (poll_lookup (Some r))(fd \<mapsto> entry_of ev (if ctx \<noteq> 0 then ctx else fm_context (pr_mappings r ! i)))"
  proof
    fix k
    show "poll_lookup (Some r') k =
        ((poll_lookup (Some r))(fd \<mapsto> entry_of ev (if ctx \<noteq> 0 then ctx else fm_context (pr_mappings r ! i)))) k"
      using f fields(3) i find_fd_SomeD [of r k] by (cases "find_fd_index r k") (auto simp: poll_lookup_def fi)
  qed
  then show ?thesis using eq wf fields by auto
qed

lemma poll_remove:
  assumes r: "poll_arrays r" and i: "find_fd_index r fd = Some i"
  shows "\<exists>r'. async_runtime_remove_poll fd r = (0, r') \<and> poll_arrays r' \<and> pr_count r' = pr_count r - 1 \<and>
    poll_lookup (Some r') = (poll_lookup (Some r))(fd := None)"
proof -
  define n where "n = pr_count r - 1"
  define r' where "r' = snd (async_runtime_remove_poll fd r)"
  note f = find_fd_SomeD [OF i]
  then have fd: "0 \<le> fd" and n: "pr_count r = Suc n" "i \<le> n" using r by (auto simp: poll_arrays_def n_def)
  then have eq: "async_runtime_remove_poll fd r = (0, r')"
    using i by (simp add: async_runtime_remove_poll_def r'_def Let_def)
  have len: "n < length (pr_pollfds r)" "n < length (pr_mappings r)" using r n by (auto simp: poll_arrays_def)
  have fields: "pr_count r' = n" "length (pr_pollfds r') = length (pr_pollfds r)" "length (pr_mappings r') = length (pr_mappings r)"
    "pr_capacity r' = pr_capacity r"
    using i fd by (auto simp: r'_def async_runtime_remove_poll_def Let_def n_def)
  define src where "src j = (if j = i then n else j)" for j
  have moved: "pr_pollfds r' ! j = pr_pollfds r ! src j" "pr_mappings r' ! j = pr_mappings r ! src j" if "j < n" for j
    using i fd len n that by (auto simp: r'_def async_runtime_remove_poll_def Let_def n_def [symmetric] src_def)
  have inj: "pf_fd (pr_pollfds r ! a) = pf_fd (pr_pollfds r ! b) \<Longrightarrow> a = b" if "a \<le> n" "b \<le> n" for a b
    using r n that by (auto simp: poll_arrays_def)
  have wf: "poll_arrays r'"
    unfolding poll_arrays_def
  proof (intro conjI allI impI)
    fix a b assume ab: "a < pr_count r'" "b < pr_count r'" "pf_fd (pr_pollfds r' ! a) = pf_fd (pr_pollfds r' ! b)"
    then have "src a = src b" using inj [of "src a" "src b"] moved by (simp add: fields src_def split: if_splits)
    then show "a = b" using ab by (auto simp: src_def fields split: if_splits)
  qed (use r n moved fields in \<open>auto simp: poll_arrays_def src_def\<close>)
  have "poll_lookup (Some r') = (poll_lookup (Some r))(fd := None)"
  proof (rule map_eqI)
    fix k v
    have "(\<exists>j < n. pf_fd (pr_pollfds r' ! j) = k \<and> v = poll_entry r' j) \<longleftrightarrow>
        (\<exists>j \<le> n. j \<noteq> i \<and> pf_fd (pr_pollfds r ! j) = k \<and> v = poll_entry r j)" (is "?a = ?b")
    proof
      assume ?a
      then obtain j where "j < n" "pf_fd (pr_pollfds r' ! j) = k" "v = poll_entry r' j" by blast
      then show ?b using moved by (intro exI [of _ "src j"]) (auto simp: src_def poll_entry_def)
    next
      assume ?b
      then obtain j where j: "j \<le> n" "j \<noteq> i" "pf_fd (pr_pollfds r ! j) = k" "v = poll_entry r j" by blast
      define j' where "j' = (if j = n then i else j)"
      have "j' < n" "src j' = j" using j n by (auto simp: j'_def src_def)
      then show ?a using moved [of j'] j by (intro exI [of _ j']) (auto simp: poll_entry_def)
    qed
    then show "poll_lookup (Some r') k = Some v \<longleftrightarrow> ((poll_lookup (Some r))(fd := None)) k = Some v"
      using poll_lookup_iff [OF r, of k v] poll_lookup_iff [OF wf, of k v] f inj n fields by (auto simp: less_Suc_eq_le)
  qed
  then show ?thesis using eq wf fields n_def by auto
qed

interpretation poll_registry: fd_registry poll_step poll_lookup poll_wf
proof
  fix n :: nat and s :: "poll_runtime option" and fd :: int and ev :: u32 and ctx :: int
  show "poll_wf (Suc n) s \<Longrightarrow> poll_wf n s" by (auto simp: poll_wf_def split: option.splits)
  show "map_step (poll_lookup s) (Reg_add fd ev ctx) = map_prod id poll_lookup (poll_step s (Reg_add fd ev ctx)) \<and>
      poll_wf n (snd (poll_step s (Reg_add fd ev ctx)))"
    if wf: "poll_wf (Suc n) s" and none: "poll_lookup s fd = None"
  proof -
    obtain r where r: "s = Some r" "poll_arrays r" "pr_count r + Suc n \<le> MAX_FD_COUNT"
      using wf by (auto simp: poll_wf_def split: option.splits)
    have new: "find_fd_index r fd = None" using none r(1) by (simp add: poll_lookup_def)
    show ?thesis
    proof (cases "fd < 0")
      case True
      then show ?thesis using r by (auto simp: map_step_def poll_step_def async_runtime_add_poll_def poll_wf_def)
    next
      case False
      then show ?thesis
        using poll_add [OF r(2) _ new, of ev ctx] r by (auto simp: map_step_def poll_step_def poll_wf_def)
    qed
  qed
  show "map_step (poll_lookup s) (Reg_modify fd ev ctx) = map_prod id poll_lookup (poll_step s (Reg_modify fd ev ctx)) \<and>
      poll_wf n (snd (poll_step s (Reg_modify fd ev ctx)))"
    if wf: "poll_wf n s"
  proof -
    obtain r where r: "s = Some r" "poll_arrays r" "pr_count r + n \<le> MAX_FD_COUNT"
      using wf by (auto simp: poll_wf_def split: option.splits)
    show ?thesis
    proof (cases "find_fd_index r fd")
      case None
      then show ?thesis using r by (simp add: map_step_def poll_step_def async_runtime_modify_poll_def poll_lookup_def poll_wf_def)
    next
      case (Some i)
      from poll_modify [OF r(2) Some, of ev ctx] show ?thesis
        using r Some by (auto simp: map_step_def poll_step_def poll_wf_def poll_lookup_def poll_entry_def)
    qed
  qed
  show "map_step (poll_lookup s) (Reg_remove fd) = map_prod id poll_lookup (poll_step s (Reg_remove fd)) \<and>
      poll_wf n (snd (poll_step s (Reg_remove fd)))"
    if wf: "poll_wf n s"
  proof -
    obtain r where r: "s = Some r" "poll_arrays r" "pr_count r + n \<le> MAX_FD_COUNT"
      using wf by (auto simp: poll_wf_def split: option.splits)
    show ?thesis
    proof (cases "find_fd_index r fd")
      case None
      then show ?thesis using r by (simp add: map_step_def poll_step_def async_runtime_remove_poll_def poll_lookup_def poll_wf_def)
    next
      case (Some i)
      from poll_remove [OF r(2) Some] show ?thesis
        using r Some by (auto simp: map_step_def poll_step_def poll_wf_def poll_lookup_def)
    qed
  qed
qed

section \<open>The two runtimes\<close>

lemma epoll_init: "0 \<le> w \<Longrightarrow> epoll_wf n (async_runtime_init_epoll w)"
  "epoll_lookup (async_runtime_init_epoll w) = Map.empty(w \<mapsto> entry_of EVENT_READ 0)"
  by (auto simp: epoll_wf_def epoll_lookup_def async_runtime_init_epoll_def entry_of_def nth_or_def fun_eq_iff has_flag_def flag_defs)

lemma poll_init:
  assumes "0 \<le> w" "n < MAX_FD_COUNT"
  shows "poll_wf n (Some (async_runtime_init_poll w))"
    "poll_lookup (Some (async_runtime_init_poll w)) = Map.empty(w \<mapsto> entry_of EVENT_READ 0)"
  using assms
  by (auto simp: poll_wf_def poll_arrays_def poll_lookup_def poll_entry_def find_fd_index_def async_runtime_init_poll_def
      entry_of_def INITIAL_CAPACITY_def MAX_FD_COUNT_def fun_eq_iff has_flag_def flag_defs)



section \<open>Completions\<close>

text \<open>
  The epoll runtime sends completions through one counter, which adds up what is written between two waits. An
  I/O error posted for slot 3 together with a plain wakeup arrives as an I/O error of slot 4; of two I/O errors
  the second is refused, because the sum does not fit the counter.
\<close>

lemma epoll_wakeup_shifts_error:
  "let r0 = async_runtime_init_epoll 5;
       r1 = snd (async_runtime_post_completion_epoll ASYNC_IO_ERROR_KEY 3 r0);
       r2 = snd (async_runtime_wakeup_epoll r1)
   in map io_context (fst (snd (async_runtime_wait_epoll 64 (Wait_ready [(5, EPOLLIN)]) r1 evs))) = [3] \<and>
      map io_context (fst (snd (async_runtime_wait_epoll 64 (Wait_ready [(5, EPOLLIN)]) r2 evs))) = [4]"
  by (simp add: async_runtime_init_epoll_def async_runtime_post_completion_epoll_def async_runtime_wakeup_epoll_def
      async_runtime_wait_epoll_def eventfd_write_def eventfd_read_def EVENTFD_MAX_def completion_value_def completion_event_def
      ASYNC_IO_ERROR_KEY_def MAX_EVENTS_def Let_def)

lemma epoll_second_error_lost:
  "fst (async_runtime_post_completion_epoll ASYNC_IO_ERROR_KEY 4
     (snd (async_runtime_post_completion_epoll ASYNC_IO_ERROR_KEY 3 (async_runtime_init_epoll 5)))) = -1"
  by (simp add: async_runtime_init_epoll_def async_runtime_post_completion_epoll_def eventfd_write_def EVENTFD_MAX_def
      completion_value_def ASYNC_IO_ERROR_KEY_def)

text \<open>
  The poll runtime sends a wakeup as one byte and a completion as eight bytes through the same pipe and reads
  eight at a time: an I/O error that follows a wakeup is not reported.
\<close>

lemma poll_wakeup_garbles_error:
  "map io_event_type (fst (snd (async_runtime_wait_poll 64 (Wait_ready (\<lambda>i. if i = 0 then POLLIN else 0))
     (async_runtime_post_completion_poll ASYNC_IO_ERROR_KEY 3 (async_runtime_wakeup_poll (async_runtime_init_poll 5))) evs))) = [EVENT_READ]"
  by (simp add: async_runtime_init_poll_def async_runtime_post_completion_poll_def async_runtime_wakeup_poll_def
      async_runtime_wait_poll_def completion_value_def completion_event_def value_bytes_def drain_pipe.simps POLLIN_def
      ASYNC_IO_ERROR_KEY_def INITIAL_CAPACITY_def Let_def upt_rec)

text \<open>When all \<^verbatim>\<open>MAX_FD_COUNT\<close> places are taken, growing reports success without growing and the next registration is
  written past the end of both arrays.\<close>

lemma poll_add_overruns:
  assumes "poll_arrays r" "pr_count r = MAX_FD_COUNT" "0 \<le> fd" "find_fd_index r fd = None"
  shows "async_runtime_add_poll True fd ev ctx r = None"
  using assms by (auto simp: async_runtime_add_poll_def poll_arrays_def expand_capacity_def Let_def)

text \<open>A second registration of a descriptor fails in both runtimes, but in the epoll runtime it replaces the context.\<close>

lemma epoll_failed_add_rebinds:
  "let r = snd (async_runtime_add_epoll 7 EVENT_READ 2 (async_runtime_init_epoll 3))
   in fst (async_runtime_add_epoll 7 EVENT_READ 4 r) = -1 \<and>
      epoll_lookup (snd (async_runtime_add_epoll 7 EVENT_READ 4 r)) 7 = Some (True, False, 4)"
  by (simp add: async_runtime_add_epoll_def async_runtime_init_epoll_def epoll_lookup_def nth_or_def grow_to_def Let_def
      events_to_epoll_def has_flag_def set_flag_def flag_defs)

section \<open>Releasing a runtime\<close>

text \<open>With a newer runtime current, releasing the older one frees the newer one in the poll runtime.\<close>

lemma poll_deinit_frees_current:
  assumes "older \<noteq> newer"
  shows "async_runtime_deinit_epoll older (Some newer) = ([older], Some newer)"
    and "async_runtime_deinit_poll older (Some newer) = ([newer], Some newer)"
  using assms by (simp_all add: async_runtime_deinit_epoll_def async_runtime_deinit_poll_def opt_list_def)

end
