(* ===== verification/Registered_Events.thy ===== *)
theory Registered_Events
  imports Async_Event Hooks
begin

text \<open>
  Application events and the timer (\<^verbatim>\<open>src/mudmux.cpp\<close>): the table of registered events, the mask of pending timer
  flags that any thread may add to, and the dispatch of a ready registration by the event loop. The dispatch is
  written as its sections between two accesses to state shared with other threads, so that the same
  definitions serve the loop, which runs them one after the other, and the interleaving with the producers.
\<close>

section \<open>Registrations\<close>

text \<open>\<open>reg_address\<close> is the address of the record, the context under which the runtime reports the event.\<close>

record event_registration =
  reg_address :: int
  reg_event :: nat
  reg_hook_func :: "nat option"
  reg_pending :: bool

record event_state =
  event_registrations :: "event_registration list"
  event_objects :: "nat \<Rightarrow> async_event"
  timer_event :: "nat option"
  timer_pending_flags :: u32

definition mudmux_register_event ::
  "bool \<Rightarrow> int \<Rightarrow> nat option \<Rightarrow> nat option \<Rightarrow> event_state \<Rightarrow> bool \<times> event_state" where
  "mudmux_register_event is_running address event hook_func st =
     (if event = None \<or> hook_func = None \<or> is_running then (False, st)
      else if \<exists>r \<in> set (event_registrations st). Some (reg_event r) = event then (False, st)
      else (True, st\<lparr>event_registrations := event_registrations st @
              [\<lparr>reg_address = address, reg_event = the event, reg_hook_func = hook_func, reg_pending = False\<rparr>]\<rparr>))"

definition mudmux_get_timer_event :: "event_state \<Rightarrow> nat option" where
  "mudmux_get_timer_event st = timer_event st"

definition on_event :: "nat \<Rightarrow> (async_event \<Rightarrow> async_event) \<Rightarrow> event_state \<Rightarrow> event_state" where
  "on_event e f st = st\<lparr>event_objects := (event_objects st)(e := f (event_objects st e))\<rparr>"

text \<open>The two accesses of \<^verbatim>\<open>mudmux_trigger_timer\<close> to shared state.\<close>

definition trigger_valid :: "u32 \<Rightarrow> bool" where
  "trigger_valid flags \<longleftrightarrow> flags \<noteq> 0 \<and> \<not> flags > 0x7FFFFFFF"

definition add_timer_flags :: "u32 \<Rightarrow> event_state \<Rightarrow> event_state" where
  "add_timer_flags flags st = st\<lparr>timer_pending_flags := timer_pending_flags st OR flags\<rparr>"

definition mudmux_trigger_timer :: "u32 \<Rightarrow> event_state \<Rightarrow> bool \<times> event_state" where
  "mudmux_trigger_timer flags st =
     (case timer_event st of
        None \<Rightarrow> (False, st)
      | Some e \<Rightarrow> if \<not> trigger_valid flags then (False, st)
                  else (True, on_event e async_event_set (add_timer_flags flags st)))"

definition find_event_registration :: "int \<Rightarrow> event_state \<Rightarrow> nat option" where
  "find_event_registration ctx st =
     find (\<lambda>i. reg_address (event_registrations st ! i) = ctx) [0..<length (event_registrations st)]"

section \<open>Dispatch\<close>

definition set_pending :: "nat \<Rightarrow> bool \<Rightarrow> event_state \<Rightarrow> event_state" where
  "set_pending i p st =
     st\<lparr>event_registrations := (event_registrations st)[i := (event_registrations st ! i)\<lparr>reg_pending := p\<rparr>]\<rparr>"

definition is_timer :: "nat \<Rightarrow> event_state \<Rightarrow> bool" where
  "is_timer i st \<longleftrightarrow> timer_event st = Some (reg_event (event_registrations st ! i))"

text \<open>What the loop does with a ready event before it dispatches: \<open>pending\<close> keeps the readiness.\<close>

definition note_ready_event :: "nat \<Rightarrow> event_state \<Rightarrow> event_state" where
  "note_ready_event i st =
     (let e = reg_event (event_registrations st ! i);
          st1 = (if async_event_is_manual_reset (event_objects st e) then on_event e async_event_reset st else st)
      in set_pending i True st1)"

text \<open>Up to the first access to the event: the hook to run, or \<open>None\<close> when there is nothing to do.\<close>

definition dispatch_begin :: "bool \<Rightarrow> nat option \<Rightarrow> nat \<Rightarrow> event_state \<Rightarrow> nat option \<times> event_state" where
  "dispatch_begin busy timer_hook i st =
     (let r = event_registrations st ! i in
      if \<not> reg_pending r \<or> busy then (None, st)
      else (case reg_hook_func r of Some f \<Rightarrow> Some f | None \<Rightarrow> timer_hook, set_pending i False st))"

definition dispatch_reset :: "nat \<Rightarrow> event_state \<Rightarrow> event_state" where
  "dispatch_reset i st = on_event (reg_event (event_registrations st ! i)) async_event_reset st"

text \<open>The mask is taken; \<open>None\<close> ends the dispatch of a timer event without flags.\<close>

definition dispatch_exchange :: "nat \<Rightarrow> event_state \<Rightarrow> u32 option \<times> event_state" where
  "dispatch_exchange i st =
     (if is_timer i st then
        (if timer_pending_flags st = 0 then None else Some (timer_pending_flags st), st\<lparr>timer_pending_flags := 0\<rparr>)
      else (Some 0, st))"

definition event_execution :: "nat \<Rightarrow> nat \<Rightarrow> u32 \<Rightarrow> event_state \<Rightarrow> mudmux_execution" where
  "event_execution f i flags st =
     \<lparr>e_target = Inr f, e_msg = (if is_timer i st then sint flags else -1), e_current_slot = -1,
      e_registration = Some i, e_payload = [], e_completion = None\<rparr>"

definition dispatch_refused :: "nat \<Rightarrow> u32 \<Rightarrow> event_state \<Rightarrow> event_state" where
  "dispatch_refused i flags st =
     (let st1 = set_pending i True st in if is_timer i st then add_timer_flags flags st1 else st1)"

text \<open>
  The function as the loop thread runs it. \<open>busy\<close> and \<open>timer_hook\<close> read the scheduler and the hook table of the
  rest \<open>'s\<close> of the state; \<open>run\<close> is \<^verbatim>\<open>mudmux_execution_dispatch\<close>, which may run the hook at once. \<open>None\<close> is an
  exception of the hook.
\<close>

definition dispatch_registered_event ::
  "(nat \<Rightarrow> 's \<Rightarrow> bool) \<Rightarrow> ('s \<Rightarrow> nat option) \<Rightarrow>
   (mudmux_execution \<Rightarrow> event_state \<times> 's \<Rightarrow> (mudmux_dispatch_result \<times> event_state \<times> 's) option) \<Rightarrow>
   nat \<Rightarrow> event_state \<times> 's \<Rightarrow> (event_state \<times> 's) option" where
  "dispatch_registered_event busy timer_hook run i = (\<lambda>(st, s).
     (case dispatch_begin (busy i s) (timer_hook s) i st of
        (None, st1) \<Rightarrow> Some (st1, s)
      | (Some f, st1) \<Rightarrow>
          (case dispatch_exchange i (dispatch_reset i st1) of
             (None, st2) \<Rightarrow> Some (st2, s)
           | (Some flags, st2) \<Rightarrow>
               (case run (event_execution f i flags st2) (st2, s) of
                  None \<Rightarrow> None
                | Some (r, st3, s3) \<Rightarrow>
                    Some (if r = MUDMUX_DISPATCH_QUEUE_FULL then dispatch_refused i flags st3 else st3, s3)))))"

section \<open>Producers and the loop\<close>

text \<open>
  The threads that trigger the timer against the loop thread that dispatches it. \<open>ts_setting\<close> counts the producers
  that have added their flags and not yet set the event; \<open>ts_pc\<close> is where the loop is inside the dispatch of the
  timer registration \<open>i\<close>. The histories record the flags of accepted triggers and the masks handed to accepted
  executions. The scheduler is arbitrary: any dispatch may be accepted or refused, and the registration may be
  busy at any time.
\<close>

datatype loop_pc = Loop_idle | Loop_reset nat | Loop_exchange nat | Loop_dispatch nat u32

record timer_system =
  ts_state :: event_state
  ts_setting :: nat
  ts_pc :: loop_pc
  ts_triggered :: "u32 list"
  ts_delivered :: "u32 list"

inductive timer_step :: "nat \<Rightarrow> nat \<Rightarrow> timer_system \<Rightarrow> timer_system \<Rightarrow> bool" for e i where
  trigger_add: "trigger_valid flags \<Longrightarrow>
    timer_step e i s (s\<lparr>ts_state := add_timer_flags flags (ts_state s), ts_setting := Suc (ts_setting s),
                        ts_triggered := flags # ts_triggered s\<rparr>)"
| trigger_set: "ts_setting s = Suc n \<Longrightarrow>
    timer_step e i s (s\<lparr>ts_state := on_event e async_event_set (ts_state s), ts_setting := n\<rparr>)"
| notice: "ts_pc s = Loop_idle \<Longrightarrow> ev_signaled (event_objects (ts_state s) e) \<Longrightarrow>
    timer_step e i s (s\<lparr>ts_state := note_ready_event i (ts_state s)\<rparr>)"
| begin_skip: "ts_pc s = Loop_idle \<Longrightarrow> dispatch_begin busy (Some f) i (ts_state s) = (None, st) \<Longrightarrow>
    timer_step e i s (s\<lparr>ts_state := st\<rparr>)"
| begin_go: "ts_pc s = Loop_idle \<Longrightarrow> dispatch_begin busy (Some f) i (ts_state s) = (Some g, st) \<Longrightarrow>
    timer_step e i s (s\<lparr>ts_state := st, ts_pc := Loop_reset g\<rparr>)"
| reset: "ts_pc s = Loop_reset g \<Longrightarrow>
    timer_step e i s (s\<lparr>ts_state := dispatch_reset i (ts_state s), ts_pc := Loop_exchange g\<rparr>)"
| exchange_none: "ts_pc s = Loop_exchange g \<Longrightarrow> dispatch_exchange i (ts_state s) = (None, st) \<Longrightarrow>
    timer_step e i s (s\<lparr>ts_state := st, ts_pc := Loop_idle\<rparr>)"
| exchange_some: "ts_pc s = Loop_exchange g \<Longrightarrow> dispatch_exchange i (ts_state s) = (Some flags, st) \<Longrightarrow>
    timer_step e i s (s\<lparr>ts_state := st, ts_pc := Loop_dispatch g flags\<rparr>)"
| accepted: "ts_pc s = Loop_dispatch g flags \<Longrightarrow>
    timer_step e i s (s\<lparr>ts_pc := Loop_idle, ts_delivered := flags # ts_delivered s\<rparr>)"
| refused: "ts_pc s = Loop_dispatch g flags \<Longrightarrow>
    timer_step e i s (s\<lparr>ts_state := dispatch_refused i flags (ts_state s), ts_pc := Loop_idle\<rparr>)"

definition timer_init :: "nat \<Rightarrow> nat \<Rightarrow> timer_system \<Rightarrow> bool" where
  "timer_init e i s \<longleftrightarrow>
     timer_event (ts_state s) = Some e \<and> i < length (event_registrations (ts_state s)) \<and>
     event_registrations (ts_state s) ! i = \<lparr>reg_address = reg_address (event_registrations (ts_state s) ! i),
       reg_event = e, reg_hook_func = None, reg_pending = False\<rparr> \<and>
     async_event_init True True False = Some (event_objects (ts_state s) e) \<and>
     timer_pending_flags (ts_state s) = 0 \<and> ts_setting s = 0 \<and> ts_pc s = Loop_idle \<and>
     ts_triggered s = [] \<and> ts_delivered s = []"

definition flags_union :: "u32 list \<Rightarrow> u32" where
  "flags_union fs = foldr (OR) fs 0"

fun in_hand :: "loop_pc \<Rightarrow> u32" where
  "in_hand (Loop_dispatch g flags) = flags"
| "in_hand _ = 0"

text \<open>Flags in the mask are never left without something that makes the loop look at them.\<close>

definition will_look :: "nat \<Rightarrow> nat \<Rightarrow> timer_system \<Rightarrow> bool" where
  "will_look e i s \<longleftrightarrow>
     0 < ts_setting s \<or> ev_signaled (event_objects (ts_state s) e) \<or>
     reg_pending (event_registrations (ts_state s) ! i) \<or>
     (\<exists>g. ts_pc s = Loop_reset g \<or> ts_pc s = Loop_exchange g)"

definition timer_inv :: "nat \<Rightarrow> nat \<Rightarrow> timer_system \<Rightarrow> bool" where
  "timer_inv e i s \<longleftrightarrow>
     timer_event (ts_state s) = Some e \<and> i < length (event_registrations (ts_state s)) \<and>
     reg_event (event_registrations (ts_state s) ! i) = e \<and> reg_hook_func (event_registrations (ts_state s) ! i) = None \<and>
     event_ok (event_objects (ts_state s) e) \<and> ev_manual_reset (event_objects (ts_state s) e) \<and>
     flags_union (ts_triggered s) = flags_union (ts_delivered s) OR timer_pending_flags (ts_state s) OR in_hand (ts_pc s) \<and>
     (timer_pending_flags (ts_state s) \<noteq> 0 \<longrightarrow> will_look e i s)"

section \<open>No flag is lost\<close>

lemma flags_union_simps [simp]: "flags_union [] = 0" "flags_union (f # fs) = f OR flags_union fs"
  by (simp_all add: flags_union_def)

lemma set_pending_fields [simp]:
  "event_objects (set_pending i p st) = event_objects st" "timer_event (set_pending i p st) = timer_event st"
  "timer_pending_flags (set_pending i p st) = timer_pending_flags st"
  "length (event_registrations (set_pending i p st)) = length (event_registrations st)"
  "i < length (event_registrations st) \<Longrightarrow>
     event_registrations (set_pending i p st) ! i = (event_registrations st ! i)\<lparr>reg_pending := p\<rparr>"
  by (simp_all add: set_pending_def)

lemma on_event_fields [simp]:
  "event_registrations (on_event e f st) = event_registrations st" "timer_event (on_event e f st) = timer_event st"
  "timer_pending_flags (on_event e f st) = timer_pending_flags st"
  "event_objects (on_event e f st) e = f (event_objects st e)"
  by (simp_all add: on_event_def)

lemma add_timer_flags_fields [simp]:
  "event_registrations (add_timer_flags f st) = event_registrations st" "timer_event (add_timer_flags f st) = timer_event st"
  "event_objects (add_timer_flags f st) = event_objects st"
  "timer_pending_flags (add_timer_flags f st) = timer_pending_flags st OR f"
  by (simp_all add: add_timer_flags_def)

lemma timer_init_inv: "timer_init e i s \<Longrightarrow> timer_inv e i s"
  using event_init_ok [of True True False]
  by (auto simp: timer_init_def timer_inv_def) (metis event_registration.select_convs)+

text \<open>The sections of the dispatch, seen from the timer registration.\<close>

lemma timer_sections:
  assumes "timer_inv e i s"
  shows "is_timer i (ts_state s)"
    "event_registrations (dispatch_reset i (ts_state s)) = event_registrations (ts_state s)"
    "timer_event (dispatch_reset i (ts_state s)) = timer_event (ts_state s)"
    "timer_pending_flags (dispatch_reset i (ts_state s)) = timer_pending_flags (ts_state s)"
    "event_ok (event_objects (dispatch_reset i (ts_state s)) e)"
    "ev_manual_reset (event_objects (dispatch_reset i (ts_state s)) e)"
  using assms event_reset_spec [of "event_objects (ts_state s) e"]
  by (auto simp: timer_inv_def is_timer_def dispatch_reset_def)

lemma timer_step_inv: "timer_inv e i s \<Longrightarrow> timer_step e i s t \<Longrightarrow> timer_inv e i t"
proof (erule timer_step.cases)
  assume inv: "timer_inv e i s"
  note I = inv [unfolded timer_inv_def] and T = timer_sections [OF inv]
  note E = event_set_spec [of "event_objects (ts_state s) e"] event_reset_spec [of "event_objects (ts_state s) e"]
  {
    fix flags sa assume "s = sa" "trigger_valid flags"
      "t = sa\<lparr>ts_state := add_timer_flags flags (ts_state sa), ts_setting := Suc (ts_setting sa), ts_triggered := flags # ts_triggered sa\<rparr>"
    then show "timer_inv e i t" using I by (auto simp: timer_inv_def will_look_def or.assoc or.left_commute)
  next
    fix sa n assume "s = sa" "ts_setting sa = Suc n"
      "t = sa\<lparr>ts_state := on_event e async_event_set (ts_state sa), ts_setting := n\<rparr>"
    then show "timer_inv e i t" using I E by (auto simp: timer_inv_def will_look_def)
  next
    fix sa assume "s = sa" "ts_pc sa = Loop_idle" "t = sa\<lparr>ts_state := note_ready_event i (ts_state sa)\<rparr>"
    then show "timer_inv e i t" using I E
      by (auto simp: timer_inv_def will_look_def note_ready_event_def Let_def async_event_is_manual_reset_def)
  next
    fix sa busy f st assume "s = sa" "dispatch_begin busy (Some f) i (ts_state sa) = (None, st)" "t = sa\<lparr>ts_state := st\<rparr>"
    then show "timer_inv e i t" using I by (auto simp: timer_inv_def will_look_def dispatch_begin_def Let_def split: if_splits)
  next
    fix sa busy f g st assume "s = sa" "ts_pc sa = Loop_idle" "dispatch_begin busy (Some f) i (ts_state sa) = (Some g, st)"
      "t = sa\<lparr>ts_state := st, ts_pc := Loop_reset g\<rparr>"
    then show "timer_inv e i t" using I by (auto simp: timer_inv_def will_look_def dispatch_begin_def Let_def split: if_splits)
  next
    fix sa g assume "s = sa" "ts_pc sa = Loop_reset g" "t = sa\<lparr>ts_state := dispatch_reset i (ts_state sa), ts_pc := Loop_exchange g\<rparr>"
    then show "timer_inv e i t" using I T by (auto simp: timer_inv_def will_look_def)
  next
    fix sa g st assume "s = sa" "ts_pc sa = Loop_exchange g" "dispatch_exchange i (ts_state sa) = (None, st)"
      "t = sa\<lparr>ts_state := st, ts_pc := Loop_idle\<rparr>"
    then show "timer_inv e i t" using I T(1) by (auto simp: timer_inv_def dispatch_exchange_def split: if_splits)
  next
    fix sa g flags st assume "s = sa" "ts_pc sa = Loop_exchange g" "dispatch_exchange i (ts_state sa) = (Some flags, st)"
      "t = sa\<lparr>ts_state := st, ts_pc := Loop_dispatch g flags\<rparr>"
    then show "timer_inv e i t" using I T(1) by (auto simp: timer_inv_def dispatch_exchange_def split: if_splits)
  next
    fix sa g flags assume "s = sa" "ts_pc sa = Loop_dispatch g flags"
      "t = sa\<lparr>ts_pc := Loop_idle, ts_delivered := flags # ts_delivered sa\<rparr>"
    then show "timer_inv e i t" using I by (auto simp: timer_inv_def will_look_def or.assoc or.commute or.left_commute)
  next
    fix sa g flags assume "s = sa" "ts_pc sa = Loop_dispatch g flags"
      "t = sa\<lparr>ts_state := dispatch_refused i flags (ts_state sa), ts_pc := Loop_idle\<rparr>"
    then show "timer_inv e i t" using I T(1)
      by (auto simp: timer_inv_def will_look_def dispatch_refused_def Let_def is_timer_def or.assoc)
  }
qed

interpretation timer_runs: inductive_invariant "timer_init e i" "timer_step e i" "timer_inv e i"
  by unfold_locales (auto intro: timer_init_inv timer_step_inv)

text \<open>
  C6. Timer flags are not lost. However the threads that trigger the timer interleave with the loop, and
  whichever dispatches the scheduler refuses: the flags of all accepted triggers are, taken together,
  the flags handed to the timer hook, those in the mask and those the loop has in hand; and while the mask is
  not empty, something makes the loop look at it again (a producer about to set the event, the event itself,
  the pending mark, or the loop on its way to the mask). When the loop is idle and no producer is in the
  middle of a trigger, the next look hands the whole mask to the hook in one execution and leaves it empty.
\<close>

theorem timer_flags_not_lost:
  assumes "reachable (timer_init e i) (timer_step e i) s"
  shows "flags_union (ts_triggered s) =
      flags_union (ts_delivered s) OR timer_pending_flags (ts_state s) OR in_hand (ts_pc s) \<and>
    (timer_pending_flags (ts_state s) \<noteq> 0 \<longrightarrow> will_look e i s) \<and>
    (ts_pc s = Loop_idle \<and> ts_setting s = 0 \<and> timer_pending_flags (ts_state s) \<noteq> 0 \<longrightarrow>
      (\<exists>st. dispatch_registered_event (\<lambda>_ _. False) (\<lambda>_. Some f) (\<lambda>x (st, xs). Some (MUDMUX_DISPATCH_OK, st, xs @ [x])) i
          (if ev_signaled (event_objects (ts_state s) e) then note_ready_event i (ts_state s) else ts_state s, []) =
            Some (st, [\<lparr>e_target = Inr f, e_msg = sint (timer_pending_flags (ts_state s)), e_current_slot = -1,
                        e_registration = Some i, e_payload = [], e_completion = None\<rparr>]) \<and>
          timer_pending_flags st = 0))"
proof -
  note inv = timer_runs.reachable_inv [OF assms]
  have "\<exists>st. dispatch_registered_event (\<lambda>_ _. False) (\<lambda>_. Some f) (\<lambda>x (st, xs). Some (MUDMUX_DISPATCH_OK, st, xs @ [x])) i
          (if ev_signaled (event_objects (ts_state s) e) then note_ready_event i (ts_state s) else ts_state s, []) =
            Some (st, [\<lparr>e_target = Inr f, e_msg = sint (timer_pending_flags (ts_state s)), e_current_slot = -1,
                        e_registration = Some i, e_payload = [], e_completion = None\<rparr>]) \<and>
          timer_pending_flags st = 0"
    if idle: "ts_pc s = Loop_idle" "ts_setting s = 0" "timer_pending_flags (ts_state s) \<noteq> 0"
  proof -
    define st where "st = (if ev_signaled (event_objects (ts_state s) e) then note_ready_event i (ts_state s) else ts_state s)"
    have st: "reg_pending (event_registrations st ! i)" "reg_event (event_registrations st ! i) = e"
      "reg_hook_func (event_registrations st ! i) = None" "i < length (event_registrations st)"
      "timer_event st = Some e" "timer_pending_flags st = timer_pending_flags (ts_state s)"
      using inv idle by (auto simp: st_def timer_inv_def will_look_def note_ready_event_def Let_def)
    then show ?thesis
      unfolding st_def [symmetric] using idle(3)
      by (simp add: dispatch_registered_event_def dispatch_begin_def Let_def dispatch_exchange_def dispatch_reset_def
          is_timer_def event_execution_def)
  qed
  then show ?thesis using inv by (simp add: timer_inv_def)
qed

text \<open>A timer that has been triggered once with flags 5, before the loop looks at it.\<close>

definition sample_timer_state :: event_state where
  "sample_timer_state =
     \<lparr>event_registrations = [\<lparr>reg_address = 100, reg_event = 0, reg_hook_func = None, reg_pending = False\<rparr>],
      event_objects = (\<lambda>_. \<lparr>ev_counter = 0, ev_signaled = False, ev_manual_reset = True\<rparr>),
      timer_event = Some 0, timer_pending_flags = 0\<rparr>"

definition sample_timer :: timer_system where
  "sample_timer = \<lparr>ts_state = sample_timer_state, ts_setting = 0, ts_pc = Loop_idle, ts_triggered = [], ts_delivered = []\<rparr>"

lemma sample_timer_reachable:
  "reachable (timer_init 0 0) (timer_step 0 0)
     (sample_timer\<lparr>ts_state := on_event 0 async_event_set (add_timer_flags 5 sample_timer_state), ts_triggered := [5]\<rparr>)"
proof -
  let ?s1 = "sample_timer\<lparr>ts_state := add_timer_flags 5 sample_timer_state, ts_setting := Suc 0, ts_triggered := [5]\<rparr>"
  have "timer_init 0 0 sample_timer"
    by (simp add: timer_init_def sample_timer_def sample_timer_state_def async_event_init_def Let_def)
  then have "reachable (timer_init 0 0) (timer_step 0 0) sample_timer" by (rule reachable_init)
  moreover have "timer_step 0 0 sample_timer ?s1"
    using timer_step.trigger_add [of 5 0 0 sample_timer] by (simp add: trigger_valid_def sample_timer_def)
  ultimately have "reachable (timer_init 0 0) (timer_step 0 0) ?s1" by (rule reachable_step)
  moreover have "timer_step 0 0 ?s1
      (sample_timer\<lparr>ts_state := on_event 0 async_event_set (add_timer_flags 5 sample_timer_state), ts_triggered := [5]\<rparr>)"
    using timer_step.trigger_set [of ?s1 0 0 0] by (simp add: sample_timer_def)
  ultimately show ?thesis by (rule reachable_step)
qed

theorem timer_flags_not_lost_witness:
  "\<exists>st. dispatch_registered_event (\<lambda>_ _. False) (\<lambda>_. Some 9) (\<lambda>x (st, xs). Some (MUDMUX_DISPATCH_OK, st, xs @ [x])) 0
     (note_ready_event 0 (on_event 0 async_event_set (add_timer_flags 5 sample_timer_state)), []) =
       Some (st, [\<lparr>e_target = Inr 9, e_msg = 5, e_current_slot = -1, e_registration = Some 0, e_payload = [], e_completion = None\<rparr>]) \<and>
     timer_pending_flags st = 0"
proof -
  have s: "ev_signaled (async_event_set \<lparr>ev_counter = 0, ev_signaled = False, ev_manual_reset = True\<rparr>)"
    using event_set_spec [of "\<lparr>ev_counter = 0, ev_signaled = False, ev_manual_reset = True\<rparr>"] by (simp add: event_ok_def)
  show ?thesis
    using timer_flags_not_lost [OF sample_timer_reachable, of 9] s by (simp add: sample_timer_def sample_timer_state_def)
qed

end
