(* ===== verification/Transport.thy ===== *)
theory Transport
  imports Inbound_Typing
begin

text \<open>
  Where connections come from: listeners and accepted connections (\<^verbatim>\<open>lib/comm/accept.cpp\<close>) and enabling TLS on a
  slot (\<^verbatim>\<open>lib/comm/ssl.cpp\<close>). Sockets and OpenSSL objects are outside; the calls on them are fields of two records
  of functions. The POSIX half is modelled.
\<close>

section \<open>Environment\<close>

record 'x listener_services =
  ls_alloc :: "nat \<Rightarrow> bool"
  ls_is_unix :: "int \<Rightarrow> bool"
  ls_accept :: "int \<Rightarrow> 'x \<Rightarrow> int option \<times> 'x"
  ls_nonblocking :: "int \<Rightarrow> bool"
  ls_socket_bio :: "int \<Rightarrow> nat option"
  ls_close :: "int \<Rightarrow> 'x \<Rightarrow> 'x"
  ls_free_bio :: "nat \<Rightarrow> 'x \<Rightarrow> 'x"
  ls_do_accept :: "nat \<Rightarrow> 'x \<Rightarrow> bool \<times> 'x"
  ls_pop :: "nat \<Rightarrow> 'x \<Rightarrow> nat option \<times> 'x"
  ls_runtime_add :: "int \<Rightarrow> int \<Rightarrow> 'x \<Rightarrow> bool \<times> 'x"
  ls_unix_socket :: "'x \<Rightarrow> int option \<times> 'x"
  ls_bind_listen :: "int \<Rightarrow> byte list \<Rightarrow> 'x \<Rightarrow> bool \<times> 'x"
  ls_accept_bio :: "'x \<Rightarrow> nat option \<times> 'x"
  ls_set_accept_name :: "nat \<Rightarrow> byte list \<Rightarrow> bool"
  ls_set_bind_mode :: "nat \<Rightarrow> bool"
  ls_set_nbio_accept :: "nat \<Rightarrow> bool"

record 'x tls_services =
  ts_new :: "'x \<Rightarrow> nat option \<times> 'x"
  ts_up_ref :: "nat \<Rightarrow> bool"
  ts_free :: "nat \<Rightarrow> 'x \<Rightarrow> 'x"
  ts_free_bio :: "nat \<Rightarrow> 'x \<Rightarrow> 'x"

definition with_ext :: "('x \<Rightarrow> 'a \<times> 'x) \<Rightarrow> 'x world \<Rightarrow> 'a \<times> 'x world" where
  "with_ext f w = (case f (w_ext w) of (a, x) \<Rightarrow> (a, w\<lparr>w_ext := x\<rparr>))"

section \<open>Listeners\<close>

definition set_socket_nonblocking :: "'x listener_services \<Rightarrow> int \<Rightarrow> bool" where
  "set_socket_nonblocking L fd \<longleftrightarrow> fd \<noteq> -1 \<and> ls_nonblocking L fd"

text \<open>A BIO given to a slot of its own, released when there is no slot for it.\<close>

definition add_or_free ::
  "'x services \<Rightarrow> 'x listener_services \<Rightarrow> nat \<Rightarrow> nat option \<Rightarrow> u32 \<Rightarrow> 'x world \<Rightarrow> int \<times> 'x world" where
  "add_or_free S L bio wbio flags w =
     (case comm_abstract_add_bio (ls_alloc L) (sv_unix_path S) (w_slots w) (Some bio) wbio (-1) flags of
        (slot, rel, t) \<Rightarrow>
          (let w1 = w\<lparr>w_slots := t, w_released := w_released w @ rel\<rparr>
           in if slot < 0 then (-1, on_ext (ls_free_bio L bio) w1) else (slot, w1)))"

definition listener_is_unix_socket :: "'x services \<Rightarrow> 'x listener_services \<Rightarrow> nat option \<Rightarrow> bool" where
  "listener_is_unix_socket S L bio = (case socket_of S bio of None \<Rightarrow> False | Some fd \<Rightarrow> ls_is_unix L fd)"

definition accept_unix_listener ::
  "'x services \<Rightarrow> 'x listener_services \<Rightarrow> nat option \<Rightarrow> 'x world \<Rightarrow> int \<times> 'x world" where
  "accept_unix_listener S L listener_bio w =
     (case socket_of S listener_bio of
        None \<Rightarrow> (-1, w)
      | Some listener_fd \<Rightarrow>
          (case with_ext (ls_accept L listener_fd) w of
             (None, w1) \<Rightarrow> (-1, w1)
           | (Some fd, w1) \<Rightarrow>
               if \<not> set_socket_nonblocking L fd then (-1, on_ext (ls_close L fd) w1)
               else case ls_socket_bio L fd of
                 None \<Rightarrow> (-1, on_ext (ls_close L fd) w1)
               | Some bio \<Rightarrow> add_or_free S L bio (Some bio) C_SOCKET_READABLE w1))"

text \<open>The listener is registered with the runtime; its slot is given up when that fails.\<close>

definition register_listener :: "'x services \<Rightarrow> 'x listener_services \<Rightarrow> int \<Rightarrow> int \<times> 'x world \<Rightarrow> int \<times> 'x world" where
  "register_listener S L fd = (\<lambda>(slot, w).
     (if slot < 0 then (-1, w)
      else case with_ext (ls_runtime_add L fd slot) w of
        (False, w1) \<Rightarrow> (-1, close_remove S slot w1)
      | (True, w1) \<Rightarrow> (0, w1)))"

definition SUN_PATH_SIZE :: nat where "SUN_PATH_SIZE = 108"

definition create_unix_listener ::
  "'x services \<Rightarrow> 'x listener_services \<Rightarrow> byte list \<Rightarrow> 'x world \<Rightarrow> int \<times> 'x world" where
  "create_unix_listener S L path w =
     (if length path \<ge> SUN_PATH_SIZE then (-1, w)
      else case with_ext (ls_unix_socket L) w of
        (None, w1) \<Rightarrow> (-1, w1)
      | (Some fd, w1) \<Rightarrow>
          if \<not> set_socket_nonblocking L fd then (-1, on_ext (ls_close L fd) w1)
          else case with_ext (ls_bind_listen L fd path) w1 of
            (False, w2) \<Rightarrow> (-1, on_ext (ls_close L fd) w2)
          | (True, w2) \<Rightarrow>
              (case ls_socket_bio L fd of
                 None \<Rightarrow> (-1, on_ext (ls_close L fd) w2)
               | Some bio \<Rightarrow> register_listener S L fd (add_or_free S L bio None C_SOCKET_LISTENING w2)))"

text \<open>A TCP listener BIO, set up in four steps; each failure releases it.\<close>

definition tcp_listener_bio :: "'x listener_services \<Rightarrow> byte list \<Rightarrow> 'x world \<Rightarrow> nat option \<times> 'x world" where
  "tcp_listener_bio L endpoint w =
     (case with_ext (ls_accept_bio L) w of
        (None, w1) \<Rightarrow> (None, w1)
      | (Some bio, w1) \<Rightarrow>
          if \<not> ls_set_accept_name L bio endpoint then (None, on_ext (ls_free_bio L bio) w1)
          else if \<not> ls_set_bind_mode L bio then (None, on_ext (ls_free_bio L bio) w1)
          else if \<not> ls_set_nbio_accept L bio then (None, on_ext (ls_free_bio L bio) w1)
          else case with_ext (ls_do_accept L bio) w1 of
            (False, w2) \<Rightarrow> (None, on_ext (ls_free_bio L bio) w2)
          | (True, w2) \<Rightarrow> (Some bio, w2))"

definition comm_accept :: "'x services \<Rightarrow> 'x listener_services \<Rightarrow> byte list \<Rightarrow> 'x world \<Rightarrow> int \<times> 'x world" where
  "comm_accept S L accept_name w =
     (let tcp_scheme = bytes_of ''tcp://''; unix_scheme = bytes_of ''unix://'' in
      if accept_name = [] then (-1, w)
      else if take (length unix_scheme) accept_name = unix_scheme then
        (let path = drop (length unix_scheme) accept_name in
         if path = [] then (-1, w) else create_unix_listener S L path w)
      else if take (length tcp_scheme) accept_name \<noteq> tcp_scheme \<or> length accept_name = length tcp_scheme then (-1, w)
      else case tcp_listener_bio L (drop (length tcp_scheme) accept_name) w of
        (None, w1) \<Rightarrow> (-1, w1)
      | (Some bio, w1) \<Rightarrow>
          (case socket_of S (Some bio) of
             None \<Rightarrow> (-1, on_ext (ls_free_bio L bio) w1)
           | Some fd \<Rightarrow> register_listener S L fd (add_or_free S L bio None C_SOCKET_LISTENING w1)))"

section \<open>Accepted connections\<close>

definition accept_new_comm :: "'x services \<Rightarrow> 'x listener_services \<Rightarrow> int \<Rightarrow> 'x world \<Rightarrow> int \<times> 'x world" where
  "accept_new_comm S L listener w =
     (case comm_at listener w of
        None \<Rightarrow> (-1, w)
      | Some c \<Rightarrow>
          (case c_rbio c of
             None \<Rightarrow> (-1, w)
           | Some listener_bio \<Rightarrow>
               if \<not> comm_has_flag c C_SOCKET_LISTENING then (-1, w)
               else if listener_is_unix_socket S L (c_rbio c) then accept_unix_listener S L (c_rbio c) w
               else case with_ext (ls_do_accept L listener_bio) w of
                 (False, w1) \<Rightarrow> (-1, w1)
               | (True, w1) \<Rightarrow>
                   (case with_ext (ls_pop L listener_bio) w1 of
                      (None, w2) \<Rightarrow> (-1, w2)
                    | (Some bio, w2) \<Rightarrow>
                        (case socket_of S (Some bio) of
                           None \<Rightarrow> (-1, on_ext (ls_free_bio L bio) w2)
                         | Some fd \<Rightarrow>
                             if \<not> set_socket_nonblocking L fd then (-1, on_ext (ls_free_bio L bio) w2)
                             else add_or_free S L bio (Some bio) C_SOCKET_READABLE w2))))"

definition async_poll_read :: "'x services \<Rightarrow> 'x listener_services \<Rightarrow> int \<Rightarrow> 'x world \<Rightarrow> bool \<times> 'x world" where
  "async_poll_read S L slot w =
     (case comm_at slot w of
        None \<Rightarrow> (False, w)
      | Some c \<Rightarrow>
          (case socket_of S (c_rbio c) of
             None \<Rightarrow> (False, w)
           | Some fd \<Rightarrow> with_ext (ls_runtime_add L fd slot) w))"

definition comm_process_listener_event ::
  "'x services \<Rightarrow> 'x listener_services \<Rightarrow> int \<Rightarrow> 'x world \<Rightarrow> (int \<times> 'x world) option" where
  "comm_process_listener_event S L listener w =
     (case comm_at listener w of
        None \<Rightarrow> Some (-1, w)
      | Some c \<Rightarrow>
          if c_rbio c = None then Some (-1, w)
          else case accept_new_comm S L listener w of
            (slot, w1) \<Rightarrow>
              if slot < 0 then Some (-1, w1)
              else case async_poll_read S L slot w1 of
                (False, w2) \<Rightarrow> Some (-1, close_remove S slot w2)
              | (True, w2) \<Rightarrow>
                  do { (r, w3) \<leftarrow> comm_invoke_connect S slot listener w2; Some (slot, w3) })"

section \<open>TLS\<close>

text \<open>
  The server context \<open>g_ssl_ctx\<close>: each argument is the outcome of one OpenSSL call; the list in the result holds
  the contexts that are freed.
\<close>

definition comm_ssl_init ::
  "byte list \<Rightarrow> byte list \<Rightarrow> bool \<Rightarrow> nat option \<Rightarrow> (nat \<Rightarrow> byte list \<Rightarrow> bool) \<Rightarrow> (nat \<Rightarrow> byte list \<Rightarrow> bool) \<Rightarrow> (nat \<Rightarrow> bool) \<Rightarrow>
   nat option \<Rightarrow> bool \<times> nat list \<times> nat option" where
  "comm_ssl_init certificate_path private_key_path init_ok new_ctx use_certificate use_key check_key g_ssl_ctx =
     (if certificate_path = [] \<or> private_key_path = [] then (False, [], g_ssl_ctx)
      else if \<not> init_ok then (False, [], g_ssl_ctx)
      else let freed = opt_list id g_ssl_ctx in
        case new_ctx of
          None \<Rightarrow> (False, freed, None)
        | Some ctx \<Rightarrow>
            if \<not> use_certificate ctx certificate_path then (False, freed @ [ctx], None)
            else if \<not> use_key ctx private_key_path then (False, freed @ [ctx], None)
            else if \<not> check_key ctx then (False, freed @ [ctx], None)
            else (True, freed, Some ctx))"

definition comm_ssl_deinit :: "nat option \<Rightarrow> nat list \<times> nat option" where
  "comm_ssl_deinit g_ssl_ctx = (opt_list id g_ssl_ctx, None)"

definition comm_enable_tls_for_slot ::
  "'x services \<Rightarrow> 'x tls_services \<Rightarrow> nat option \<Rightarrow> int \<Rightarrow> 'x world \<Rightarrow> 'x world" where
  "comm_enable_tls_for_slot S T g_ssl_ctx slot w =
     (if slot < 0 then w
      else case comm_at slot w of
        None \<Rightarrow> w
      | Some c \<Rightarrow>
          if g_ssl_ctx = None \<or> c_rbio c = None \<or> c_wbio c = None \<or> c_ssl c \<noteq> None then w
          else case with_ext (ts_new T) w of
            (None, w1) \<Rightarrow> w1
          | (Some ssl, w1) \<Rightarrow>
              if \<not> ts_up_ref T (the (c_wbio c)) then on_ext (ts_free T ssl) w1
              else if \<not> ts_up_ref T (the (c_rbio c))
              then on_ext (ts_free T ssl) (on_ext (ts_free_bio T (the (c_wbio c))) w1)
              else let c1 = comm_clear_flag C_TLS_ESTABLISHED (c\<lparr>c_ssl := Some ssl\<rparr>)
                   in update_slot_event_interest S c1 False (put_comm slot c1 w1))"

definition comm_enable_tls :: "'x services \<Rightarrow> 'x tls_services \<Rightarrow> nat option \<Rightarrow> tls \<Rightarrow> 'x world \<Rightarrow> 'x world" where
  "comm_enable_tls S T g_ssl_ctx loc w =
     (if current_hook_type loc \<noteq> HOOK_CONNECT \<or> current_slot loc < 0 then w
      else comm_enable_tls_for_slot S T g_ssl_ctx (current_slot loc) w)"

section \<open>The type invariant\<close>

lemma with_ext_typed: "with_ext f w = (a, w') \<Longrightarrow> input_typed w' = input_typed w \<and> (\<forall>s. comm_at s w' = comm_at s w)"
  by (auto simp: with_ext_def comm_at_def split: prod.splits)

text \<open>A new slot starts with an empty chain; every other slot keeps its own.\<close>

lemma add_bio_typed:
  assumes w: "input_typed w"
    and r: "comm_abstract_add_bio alloc unix (w_slots w) rbio wbio slot flags = (ret, rel, t)"
  shows "input_typed (w\<lparr>w_slots := t, w_released := rs\<rparr>)"
proof -
  note spec = add_bio_spec [OF _ r]
  have wf: "table_wf (w_slots w)" using w by (simp add: input_typed_def)
  have old: "single_buffer c" if "resolve_slot_unlocked (w_slots w) s = Some c" for s c
    using w that by (auto simp: input_typed_def comm_at_def comm_abstract_get_def)
  have "single_buffer c" if "resolve_slot_unlocked t s = Some c" for s c
  proof (cases "ret < 0 \<or> s \<noteq> ret")
    case True
    then show ?thesis using spec [OF wf] that old [of s c] by (auto simp: raw_resolve split: if_splits)
  next
    case False
    then have "c = assigned_comm rbio wbio flags (raw_slot (w_slots w) ret)"
      using spec [OF wf] that by (auto simp: raw_resolve split: if_splits)
    then show ?thesis using assigned_clean [OF raw_slot_ok [OF wf]] by (simp add: single_buffer_def comm_clean_def)
  qed
  then show ?thesis using spec [OF wf] by (simp add: input_typed_def comm_at_def comm_abstract_get_def)
qed

lemma add_or_free_typed: "input_typed w \<Longrightarrow> add_or_free S L bio wbio flags w = (slot, w') \<Longrightarrow> input_typed w'"
  by (auto simp: add_or_free_def Let_def add_bio_typed split: prod.splits if_splits)

lemma close_remove_typed: "input_typed w \<Longrightarrow> input_typed (close_remove S slot w)"
proof (cases "comm_at slot w")
  case None
  assume "input_typed w"
  then show ?thesis
    using None by (simp add: close_remove_def comm_abstract_remove_def comm_at_def comm_abstract_get_def input_typed_def)
qed (rule typed_remove)

lemma accept_unix_typed: "input_typed w \<Longrightarrow> accept_unix_listener S L bio w = (slot, w') \<Longrightarrow> input_typed w'"
  unfolding accept_unix_listener_def
  by (auto split: option.splits prod.splits if_splits dest: add_or_free_typed with_ext_typed)

lemma accept_new_typed: "input_typed w \<Longrightarrow> accept_new_comm S L listener w = (slot, w') \<Longrightarrow> input_typed w'"
  unfolding accept_new_comm_def
  by (auto split: option.splits prod.splits if_splits bool.splits dest: accept_unix_typed add_or_free_typed with_ext_typed)

lemma listener_event_typed:
  assumes S: "typed_services S" and w: "input_typed w"
  shows "tw snd (comm_process_listener_event S L listener w)"
proof -
  obtain slot w1 where a: "accept_new_comm S L listener w = (slot, w1)" by fastforce
  note w1 = accept_new_typed [OF w a]
  obtain ok w2 where p: "async_poll_read S L slot w1 = (ok, w2)" by fastforce
  have w2: "input_typed w2" using p w1 by (auto simp: async_poll_read_def split: option.splits dest: with_ext_typed)
  show ?thesis
    unfolding comm_process_listener_event_def a
    by (auto intro!: tw_Some tw_bind [OF connect_typed [OF S w2]] simp: w w1 w2 p close_remove_typed
        split: option.split bool.split)
qed

lemma enable_tls_typed: "input_typed w \<Longrightarrow> input_typed (comm_enable_tls_for_slot S T ctx slot w)"
proof -
  assume w: "input_typed w"
  have n: "next_comm c (comm_clear_flag m (c\<lparr>c_ssl := x\<rparr>))" for c m x
    by (auto simp: next_comm_def mux_simps comm_used_def single_buffer_def one_buffer_def)
  show ?thesis
    unfolding comm_enable_tls_for_slot_def Let_def
    by (auto simp: w split: option.split prod.split dest!: with_ext_typed intro!: typed_put(1) n)
qed

end
