(* ===== verification/Console_Worker.thy ===== *)
theory Console_Worker
  imports Async_Event Async_Queue
begin

text \<open>
  The console worker (\<^verbatim>\<open>lib/async/console_worker.cpp\<close>, the POSIX half): a thread that reads standard input into a
  message queue and wakes the event loop, and the operations its owner calls on it. The thread is a program counter
  with one step per system call or critical section.
\<close>

section \<open>Console types\<close>

datatype console_type = CONSOLE_TYPE_NONE | CONSOLE_TYPE_TTY | CONSOLE_TYPE_PIPE | CONSOLE_TYPE_FILE

definition console_type_str :: "console_type \<Rightarrow> byte list" where
  "console_type_str t =
     (case t of
        CONSOLE_TYPE_NONE \<Rightarrow> bytes_of ''console:none''
      | CONSOLE_TYPE_TTY \<Rightarrow> bytes_of ''console:tty''
      | CONSOLE_TYPE_PIPE \<Rightarrow> bytes_of ''console:pipe''
      | CONSOLE_TYPE_FILE \<Rightarrow> bytes_of ''console:file'')"

text \<open>\<open>fifo\<close> is the answer of \<^verbatim>\<open>fstat\<close> on standard input: \<open>None\<close> when it fails.\<close>

definition console_detect_type :: "bool \<Rightarrow> bool option \<Rightarrow> console_type" where
  "console_detect_type tty fifo =
     (if tty then CONSOLE_TYPE_TTY
      else case fifo of
        Some True \<Rightarrow> CONSOLE_TYPE_PIPE
      | Some False \<Rightarrow> CONSOLE_TYPE_FILE
      | None \<Rightarrow> CONSOLE_TYPE_NONE)"

section \<open>The context of a worker\<close>

record console_worker_context =
  cw_eof_detected :: bool
  cw_stop_requested :: bool
  cw_worker_finished :: bool
  cw_worker_started :: bool
  cw_stop_event :: async_event

definition CONSOLE_MAX_LINE :: nat where "CONSOLE_MAX_LINE = 4096"

definition console_worker_is_stop_requested :: "console_worker_context \<Rightarrow> bool" where
  "console_worker_is_stop_requested ctx = cw_stop_requested ctx"

definition console_worker_mark_done :: "console_worker_context \<Rightarrow> console_worker_context" where
  "console_worker_mark_done ctx = ctx\<lparr>cw_worker_finished := True\<rparr>"

text \<open>
  What \<^verbatim>\<open>console_worker_wait_done\<close> returns once it does: without a timeout it returns when the worker has finished,
  with one also when \<open>expired\<close>. \<open>None\<close>: it is still waiting.
\<close>

definition console_worker_wait_done :: "int \<Rightarrow> bool \<Rightarrow> console_worker_context \<Rightarrow> bool option" where
  "console_worker_wait_done timeout_ms expired ctx =
     (if cw_worker_finished ctx then Some True
      else if timeout_ms < 0 then None
      else if expired then Some False else None)"

text \<open>The two accesses of \<^verbatim>\<open>console_worker_signal_stop\<close>: the flag, then the event.\<close>

definition request_stop :: "console_worker_context \<Rightarrow> console_worker_context" where
  "request_stop ctx = ctx\<lparr>cw_stop_requested := True\<rparr>"

definition set_stop_event :: "console_worker_context \<Rightarrow> console_worker_context" where
  "set_stop_event ctx = ctx\<lparr>cw_stop_event := async_event_set (cw_stop_event ctx)\<rparr>"

definition console_worker_signal_stop :: "console_worker_context \<Rightarrow> console_worker_context" where
  "console_worker_signal_stop ctx = set_stop_event (request_stop ctx)"

text \<open>The completion that \<^verbatim>\<open>console_worker_set_eof\<close> posts is the second component; there is none without a context.\<close>

definition console_worker_set_eof :: "console_worker_context option \<Rightarrow> console_worker_context option \<times> nat option" where
  "console_worker_set_eof ctx =
     (case ctx of None \<Rightarrow> (None, None) | Some c \<Rightarrow> (Some (c\<lparr>cw_eof_detected := True\<rparr>), Some 0))"

definition console_worker_take_eof :: "console_worker_context option \<Rightarrow> bool \<times> console_worker_context option" where
  "console_worker_take_eof ctx =
     (case ctx of None \<Rightarrow> (False, None) | Some c \<Rightarrow> (cw_eof_detected c, Some (c\<lparr>cw_eof_detected := False\<rparr>)))"

text \<open>
  Creation: \<open>alloc\<close>, \<open>created\<close> and \<open>thread\<close> are the outcomes of the allocation, of \<^verbatim>\<open>eventfd\<close> and of starting the thread.
\<close>

definition console_worker_init :: "bool \<Rightarrow> bool \<Rightarrow> bool \<Rightarrow> console_type \<Rightarrow> console_worker_context option" where
  "console_worker_init alloc created thread ct =
     (if \<not> alloc then None
      else case async_event_init created True False of
        None \<Rightarrow> None
      | Some e \<Rightarrow>
          (let ctx = \<lparr>cw_eof_detected = False, cw_stop_requested = False, cw_worker_finished = False,
                      cw_worker_started = False, cw_stop_event = e\<rparr>
           in if ct = CONSOLE_TYPE_NONE then Some ctx
              else if thread then Some (ctx\<lparr>cw_worker_started := True\<rparr>) else None))"

text \<open>
  The owner's side of stopping: \<open>finished\<close> is what the wait returned. Destroying a worker that has not been joined
  signals again and waits without a timeout.
\<close>

definition console_worker_shutdown :: "bool \<Rightarrow> console_worker_context option \<Rightarrow> bool \<times> console_worker_context option" where
  "console_worker_shutdown finished ctx =
     (case ctx of
        None \<Rightarrow> (True, None)
      | Some c \<Rightarrow>
          if \<not> cw_worker_started c then (True, ctx)
          else let c1 = console_worker_signal_stop c
               in if finished then (True, Some (c1\<lparr>cw_worker_finished := True, cw_worker_started := False\<rparr>))
                  else (False, Some c1))"

section \<open>The thread\<close>

datatype stdin_poll = Poll_interrupted | Poll_broken | Poll_answer bool

datatype stdin_read = Read_failed bool | Read_bytes "byte list"

datatype console_pc =
  Cw_check | Cw_poll | Cw_read | Cw_eof | Cw_enqueue "byte list" | Cw_post nat | Cw_finish | Cw_exit

record console_system =
  cs_ctx :: console_worker_context
  cs_queue :: async_queue
  cs_posted :: "nat list"
  cs_pc :: console_pc

text \<open>
  One step. \<open>Poll_answer b\<close> is a return of \<^verbatim>\<open>poll\<close> in which standard input has \<^verbatim>\<open>POLLIN\<close> set iff \<open>b\<close>; the stop event is
  readable iff its counter is not zero. \<open>Read_failed b\<close> is a failed read, to be retried iff \<open>b\<close>; a read of no bytes
  is the end of the input.
\<close>

definition console_worker_step :: "stdin_poll \<Rightarrow> stdin_read \<Rightarrow> console_system \<Rightarrow> console_system" where
  "console_worker_step p r s =
     (case cs_pc s of
        Cw_check \<Rightarrow> s\<lparr>cs_pc := (if console_worker_is_stop_requested (cs_ctx s) then Cw_finish else Cw_poll)\<rparr>
      | Cw_poll \<Rightarrow>
          (case p of
             Poll_interrupted \<Rightarrow> s\<lparr>cs_pc := Cw_check\<rparr>
           | Poll_broken \<Rightarrow> s\<lparr>cs_pc := Cw_finish\<rparr>
           | Poll_answer readable \<Rightarrow>
               if ev_counter (cw_stop_event (cs_ctx s)) \<noteq> 0 then s\<lparr>cs_pc := Cw_finish\<rparr>
               else if \<not> readable then s\<lparr>cs_pc := Cw_check\<rparr>
               else s\<lparr>cs_pc := Cw_read\<rparr>)
      | Cw_read \<Rightarrow>
          (case r of
             Read_failed retry \<Rightarrow> s\<lparr>cs_pc := (if retry then Cw_check else Cw_finish)\<rparr>
           | Read_bytes bytes \<Rightarrow> s\<lparr>cs_pc := (if bytes = [] then Cw_eof else Cw_enqueue (take (CONSOLE_MAX_LINE - 1) bytes))\<rparr>)
      | Cw_eof \<Rightarrow>
          (case console_worker_set_eof (Some (cs_ctx s)) of
             (c, d) \<Rightarrow> s\<lparr>cs_ctx := the c, cs_posted := cs_posted s @ opt_list id d, cs_pc := Cw_finish\<rparr>)
      | Cw_enqueue bytes \<Rightarrow>
          s\<lparr>cs_queue := snd (async_queue_enqueue (cs_queue s) (Some (bytes @ [0]))), cs_pc := Cw_post (length bytes)\<rparr>
      | Cw_post n \<Rightarrow> s\<lparr>cs_posted := cs_posted s @ [n], cs_pc := Cw_check\<rparr>
      | Cw_finish \<Rightarrow> s\<lparr>cs_ctx := console_worker_mark_done (cs_ctx s), cs_pc := Cw_exit\<rparr>
      | Cw_exit \<Rightarrow> s)"

fun console_worker_proc :: "(stdin_poll \<times> stdin_read) list \<Rightarrow> console_system \<Rightarrow> console_system" where
  "console_worker_proc [] s = s"
| "console_worker_proc ((p, r) # answers) s = console_worker_proc answers (console_worker_step p r s)"

definition on_context :: "(console_worker_context \<Rightarrow> console_worker_context) \<Rightarrow> console_system \<Rightarrow> console_system" where
  "on_context f s = s\<lparr>cs_ctx := f (cs_ctx s)\<rparr>"

definition start_worker :: "console_worker_context \<Rightarrow> async_queue \<Rightarrow> console_system" where
  "start_worker ctx q = \<lparr>cs_ctx = ctx, cs_queue = q, cs_posted = [], cs_pc = Cw_check\<rparr>"

section \<open>Stopping\<close>

lemmas step_simps = console_worker_step_def console_worker_is_stop_requested_def console_worker_mark_done_def
  console_worker_set_eof_def opt_list_def

text \<open>What the thread keeps: a finished worker is marked as such, the chunks fit a queue message.\<close>

definition worker_ok :: "console_system \<Rightarrow> bool" where
  "worker_ok s \<longleftrightarrow> event_ok (cw_stop_event (cs_ctx s)) \<and>
     (cs_pc s = Cw_exit \<longrightarrow> cw_worker_finished (cs_ctx s)) \<and>
     (\<forall>bytes. cs_pc s = Cw_enqueue bytes \<longrightarrow> 0 < length bytes \<and> length bytes < CONSOLE_MAX_LINE)"

lemma worker_ok_step: "worker_ok s \<Longrightarrow> worker_ok (console_worker_step p r s)"
  by (auto simp: worker_ok_def step_simps CONSOLE_MAX_LINE_def
      split: console_pc.splits stdin_poll.splits stdin_read.splits)

lemma worker_ok_proc: "worker_ok s \<Longrightarrow> worker_ok (console_worker_proc answers s)"
  by (induction answers s rule: console_worker_proc.induct) (auto intro: worker_ok_step)

lemma worker_ok_owner:
  "worker_ok s \<Longrightarrow> worker_ok (on_context request_stop s)" "worker_ok s \<Longrightarrow> worker_ok (on_context set_stop_event s)"
  using event_set_spec by (auto simp: worker_ok_def on_context_def request_stop_def set_stop_event_def)

lemma worker_ok_start: "console_worker_init alloc created thread ct = Some ctx \<Longrightarrow> worker_ok (start_worker ctx q)"
  by (auto simp: worker_ok_def start_worker_def console_worker_init_def Let_def dest: event_init_ok
      split: option.splits if_splits)

text \<open>The steps that remain once the stop flag and the stop event are set.\<close>

definition stop_signalled :: "console_system \<Rightarrow> bool" where
  "stop_signalled s \<longleftrightarrow> cw_stop_requested (cs_ctx s) \<and> ev_counter (cw_stop_event (cs_ctx s)) \<noteq> 0"

fun steps_left :: "console_pc \<Rightarrow> nat" where
  "steps_left Cw_exit = 0"
| "steps_left Cw_finish = 1"
| "steps_left Cw_check = 2"
| "steps_left Cw_eof = 2"
| "steps_left Cw_poll = 3"
| "steps_left (Cw_post n) = 3"
| "steps_left (Cw_enqueue bytes) = 4"
| "steps_left Cw_read = 5"

lemma steps_left_exit: "steps_left pc = 0 \<longleftrightarrow> pc = Cw_exit"
  by (cases pc) simp_all

lemma steps_left_bound: "steps_left pc \<le> 5"
  by (cases pc) simp_all

lemma stop_step:
  "stop_signalled s \<Longrightarrow> stop_signalled (console_worker_step p r s) \<and>
     steps_left (cs_pc (console_worker_step p r s)) \<le> steps_left (cs_pc s) - 1"
  by (auto simp: stop_signalled_def step_simps split: console_pc.splits stdin_poll.splits stdin_read.splits)

lemma stop_proc:
  "stop_signalled s \<Longrightarrow> steps_left (cs_pc (console_worker_proc answers s)) \<le> steps_left (cs_pc s) - length answers"
proof (induction answers s rule: console_worker_proc.induct)
  case (2 p r answers s)
  then show ?case using stop_step [OF 2(2), of p r] by (auto intro: order_trans)
qed simp

lemma stop_requested_proc:
  "cw_stop_requested (cs_ctx s) \<Longrightarrow> cw_stop_requested (cs_ctx (console_worker_proc answers s))"
proof (induction answers s rule: console_worker_proc.induct)
  case (2 p r answers s)
  have "cw_stop_requested (cs_ctx (console_worker_step p r s))"
    using 2(2) by (auto simp: step_simps split: console_pc.splits stdin_poll.splits stdin_read.splits)
  then show ?case using 2(1) by simp
qed simp

text \<open>
  C38. Stopping the console worker terminates: whatever the thread did before, between and after the two accesses of
  \<^verbatim>\<open>console_worker_signal_stop\<close>, and whatever \<^verbatim>\<open>poll\<close> and \<^verbatim>\<open>read\<close> answer, five steps after the stop event is set the
  thread has left its loop and \<^verbatim>\<open>console_worker_wait_done\<close> returns true.
\<close>

theorem console_worker_stops:
  assumes "console_worker_init alloc created thread ct = Some ctx"
    and "5 \<le> length late"
    and "s = console_worker_proc late (on_context set_stop_event
               (console_worker_proc middle (on_context request_stop (console_worker_proc early (start_worker ctx q)))))"
  shows "cs_pc s = Cw_exit \<and> console_worker_wait_done timeout_ms expired (cs_ctx s) = Some True"
proof -
  define t where "t = console_worker_proc middle (on_context request_stop (console_worker_proc early (start_worker ctx q)))"
  have t: "worker_ok t"
    unfolding t_def by (intro worker_ok_proc worker_ok_owner worker_ok_start [OF assms(1)])
  have "cw_stop_requested (cs_ctx t)"
    unfolding t_def by (rule stop_requested_proc) (simp add: on_context_def request_stop_def)
  then have "stop_signalled (on_context set_stop_event t)"
    using t event_set_spec [of "cw_stop_event (cs_ctx t)"]
    by (auto simp: stop_signalled_def worker_ok_def on_context_def set_stop_event_def event_ok_def)
  then have "steps_left (cs_pc s) \<le> steps_left (cs_pc (on_context set_stop_event t)) - length late"
    using stop_proc assms(3) t_def by simp
  then have exit: "cs_pc s = Cw_exit"
    using assms(2) steps_left_bound [of "cs_pc (on_context set_stop_event t)"] by (simp flip: steps_left_exit)
  have "worker_ok s" unfolding assms(3) t_def [symmetric] by (intro worker_ok_proc worker_ok_owner t)
  then show ?thesis using exit by (simp add: worker_ok_def console_worker_wait_done_def)
qed

theorem console_worker_stops_witness:
  "\<exists>ctx q. console_worker_init True True True CONSOLE_TYPE_TTY = Some ctx \<and>
     async_queue_create (\<lambda>_ _. True) 100 4096 ASYNC_QUEUE_DROP_OLDEST = Some q \<and>
     (let s = console_worker_proc (replicate 5 (Poll_interrupted, Read_failed True)) (on_context set_stop_event
           (console_worker_proc [(Poll_answer True, Read_bytes [104, 105])] (on_context request_stop
             (console_worker_proc [(Poll_answer True, Read_bytes [120])] (start_worker ctx q))))) in
      cs_pc s = Cw_exit \<and> console_worker_wait_done (-1) False (cs_ctx s) = Some True)"
proof -
  obtain ctx where c: "console_worker_init True True True CONSOLE_TYPE_TTY = Some ctx"
    by (simp add: console_worker_init_def async_event_init_def Let_def)
  obtain q where q: "async_queue_create (\<lambda>_ _. True) 100 4096 ASYNC_QUEUE_DROP_OLDEST = Some q"
    by (simp add: async_queue_create_def Let_def)
  have "5 \<le> length (replicate 5 (Poll_interrupted, Read_failed True))" by simp
  note stops = console_worker_stops [OF c this refl]
  show ?thesis unfolding Let_def using c q stops by blast
qed

section \<open>Chunks\<close>

text \<open>A chunk is never refused for its size by the queue the console creates.\<close>

lemma console_chunk_accepted:
  assumes "worker_ok s" "cs_pc s = Cw_enqueue bytes" "queue_inv (cs_queue s)" "q_max_msg_size (cs_queue s) = CONSOLE_MAX_LINE"
    and "has_flag (q_flags (cs_queue s)) ASYNC_QUEUE_DROP_OLDEST"
  shows "fst (async_queue_enqueue (cs_queue s) (Some (bytes @ [0]))) = Enqueued"
proof -
  have "fst (enqueue_make_room q) = Enqueued" if "has_flag (q_flags q) ASYNC_QUEUE_DROP_OLDEST" "0 < q_capacity q" for q
    using that by (induction q rule: enqueue_make_room.induct) (subst enqueue_make_room.simps, auto)
  then have "fst (enqueue_make_room (cs_queue s)) = Enqueued" using assms by (simp add: queue_inv_def)
  then show ?thesis
    using assms(1,2,4) by (auto simp: worker_ok_def async_queue_enqueue_def split: prod.splits)
qed

text \<open>
  A hang-up without data is not noticed: when \<^verbatim>\<open>poll\<close> reports standard input without \<^verbatim>\<open>POLLIN\<close>, as Linux does for a pipe
  whose writer has closed it, the thread goes round its loop for ever, posts nothing and never reports the end of
  the input.
\<close>

lemma hangup_not_noticed:
  assumes "cs_pc s \<in> {Cw_check, Cw_poll}" "\<not> cw_stop_requested (cs_ctx s)" "ev_counter (cw_stop_event (cs_ctx s)) = 0"
  shows "cs_pc (console_worker_proc (replicate n (Poll_answer False, r)) s) \<in> {Cw_check, Cw_poll} \<and>
    cs_ctx (console_worker_proc (replicate n (Poll_answer False, r)) s) = cs_ctx s \<and>
    cs_posted (console_worker_proc (replicate n (Poll_answer False, r)) s) = cs_posted s"
  using assms
proof (induction n arbitrary: s)
  case (Suc n)
  have "cs_pc (console_worker_step (Poll_answer False) r s) \<in> {Cw_check, Cw_poll}"
    "cs_ctx (console_worker_step (Poll_answer False) r s) = cs_ctx s"
    "cs_posted (console_worker_step (Poll_answer False) r s) = cs_posted s"
    using Suc.prems by (auto simp: step_simps)
  then show ?case using Suc.IH [of "console_worker_step (Poll_answer False) r s"] Suc.prems by simp
qed simp

end
