(* ===== verification/File_Input.thy ===== *)
theory File_Input
  imports Async_Queue
begin

text \<open>
  The reader thread of file input (\<^verbatim>\<open>lib/comm/file_input.cpp\<close>) against the main thread, which starts it and joins
  it. Both use two mutexes, \<^verbatim>\<open>comm_slots_mtx\<close> and \<^verbatim>\<open>file_input_mutex\<close>, and not in the same order: the last section
  exhibits the two deadlocks that follow.
\<close>

section \<open>The two threads\<close>

datatype file_thread = Main_thread | Reader_thread

text \<open>
  The reader: \<open>Rd_slots\<close> asks for the slot table, \<open>Rd_read\<close> reads while holding it, \<open>Rd_eof\<close> has seen the end of the file
  and asks for \<^verbatim>\<open>file_input_mutex\<close> while still holding the slot table, \<open>Rd_zero\<close> does so after a read of no bytes, when
  the slot table has been released.
\<close>

datatype reader_pc = Rd_unborn | Rd_slots | Rd_read | Rd_eof | Rd_zero | Rd_enqueue "byte list" | Rd_post nat | Rd_stopped

text \<open>The main thread: \<^verbatim>\<open>comm_init_async_file_input\<close>, the event loop, \<^verbatim>\<open>comm_shutdown_async_file_input\<close>.\<close>

datatype file_main_pc = Mn_init | Mn_spawn | Mn_connect | Mn_unlock | Mn_loop | Mn_join | Mn_done

record file_system =
  fs_slots_mtx :: "file_thread option"
  fs_file_mtx :: "file_thread option"
  fs_eof :: bool
  fs_queue :: async_queue
  fs_posted :: "nat list"
  fs_reader :: reader_pc
  fs_main :: file_main_pc

definition file_start :: "async_queue \<Rightarrow> file_system" where
  "file_start q = \<lparr>fs_slots_mtx = None, fs_file_mtx = None, fs_eof = False, fs_queue = q, fs_posted = [],
                   fs_reader = Rd_unborn, fs_main = Mn_init\<rparr>"

text \<open>
  \<^verbatim>\<open>comm_invoke_connect\<close> takes and releases the slot table; the step \<open>main_connect\<close> is its first acquisition. A read
  gives data, asks to be retried, reports the end of the file, reports success without data, or fails; it also fails
  when the slot has gone.
\<close>

inductive file_step :: "file_system \<Rightarrow> file_system \<Rightarrow> bool" where
  main_lock: "fs_main s = Mn_init \<Longrightarrow> fs_file_mtx s = None \<Longrightarrow>
    file_step s (s\<lparr>fs_file_mtx := Some Main_thread, fs_main := Mn_spawn\<rparr>)"
| main_spawn: "fs_main s = Mn_spawn \<Longrightarrow>
    file_step s (s\<lparr>fs_eof := False, fs_reader := Rd_slots, fs_main := Mn_connect\<rparr>)"
| main_connect: "fs_main s = Mn_connect \<Longrightarrow> fs_slots_mtx s = None \<Longrightarrow> file_step s (s\<lparr>fs_main := Mn_unlock\<rparr>)"
| main_unlock: "fs_main s = Mn_unlock \<Longrightarrow> file_step s (s\<lparr>fs_file_mtx := None, fs_main := Mn_loop\<rparr>)"
| shutdown_lock: "fs_main s = Mn_loop \<Longrightarrow> fs_file_mtx s = None \<Longrightarrow>
    file_step s (s\<lparr>fs_file_mtx := Some Main_thread, fs_main := Mn_join\<rparr>)"
| shutdown_join: "fs_main s = Mn_join \<Longrightarrow> fs_reader s = Rd_stopped \<Longrightarrow>
    file_step s (s\<lparr>fs_eof := False, fs_file_mtx := None, fs_main := Mn_done\<rparr>)"
| reader_lock: "fs_reader s = Rd_slots \<Longrightarrow> fs_slots_mtx s = None \<Longrightarrow>
    file_step s (s\<lparr>fs_slots_mtx := Some Reader_thread, fs_reader := Rd_read\<rparr>)"
| reader_data: "fs_reader s = Rd_read \<Longrightarrow> bytes \<noteq> [] \<Longrightarrow> length bytes \<le> 4095 \<Longrightarrow>
    file_step s (s\<lparr>fs_slots_mtx := None, fs_reader := Rd_enqueue bytes\<rparr>)"
| reader_retry: "fs_reader s = Rd_read \<Longrightarrow> file_step s (s\<lparr>fs_slots_mtx := None, fs_reader := Rd_slots\<rparr>)"
| reader_at_end: "fs_reader s = Rd_read \<Longrightarrow> file_step s (s\<lparr>fs_reader := Rd_eof\<rparr>)"
| reader_nothing: "fs_reader s = Rd_read \<Longrightarrow> file_step s (s\<lparr>fs_slots_mtx := None, fs_reader := Rd_zero\<rparr>)"
| reader_fail: "fs_reader s = Rd_read \<Longrightarrow> file_step s (s\<lparr>fs_slots_mtx := None, fs_reader := Rd_stopped\<rparr>)"
| reader_eof: "fs_reader s = Rd_eof \<Longrightarrow> fs_file_mtx s = None \<Longrightarrow>
    file_step s (s\<lparr>fs_eof := True, fs_posted := fs_posted s @ [0], fs_slots_mtx := None, fs_reader := Rd_stopped\<rparr>)"
| reader_zero: "fs_reader s = Rd_zero \<Longrightarrow> fs_file_mtx s = None \<Longrightarrow>
    file_step s (s\<lparr>fs_eof := True, fs_posted := fs_posted s @ [0], fs_reader := Rd_stopped\<rparr>)"
| reader_enqueue: "fs_reader s = Rd_enqueue bytes \<Longrightarrow>
    file_step s (s\<lparr>fs_queue := snd (async_queue_enqueue (fs_queue s) (Some (bytes @ [0]))), fs_reader := Rd_post (length bytes)\<rparr>)"
| reader_post: "fs_reader s = Rd_post n \<Longrightarrow> file_step s (s\<lparr>fs_posted := fs_posted s @ [n], fs_reader := Rd_slots\<rparr>)"

inductive_cases file_stepE: "file_step s s'"

section \<open>Locks\<close>

text \<open>Who holds which mutex is determined by where the threads are.\<close>

definition file_inv :: "file_system \<Rightarrow> bool" where
  "file_inv s \<longleftrightarrow>
     fs_slots_mtx s = (if fs_reader s = Rd_read \<or> fs_reader s = Rd_eof then Some Reader_thread else None) \<and>
     fs_file_mtx s = (if fs_main s \<in> {Mn_spawn, Mn_connect, Mn_unlock, Mn_join} then Some Main_thread else None) \<and>
     (fs_reader s = Rd_unborn \<longleftrightarrow> fs_main s \<in> {Mn_init, Mn_spawn}) \<and>
     (fs_main s = Mn_done \<longrightarrow> fs_reader s = Rd_stopped)"

lemma file_inv_step: "file_step s s' \<Longrightarrow> file_inv s \<Longrightarrow> file_inv s'"
  by (induction rule: file_step.induct) (auto simp: file_inv_def)

lemma file_inv_reachable: "file_step\<^sup>*\<^sup>* (file_start q) s \<Longrightarrow> file_inv s"
proof (induction rule: rtranclp_induct)
  case base
  show ?case by (simp add: file_inv_def file_start_def)
next
  case (step y z)
  then show ?case by (metis file_inv_step)
qed

section \<open>Deadlocks\<close>

definition sample_queue :: async_queue where
  "sample_queue = the (async_queue_create (\<lambda>_ _. True) 100 4096 ASYNC_QUEUE_DROP_OLDEST)"

definition deadlock_start :: "async_queue \<Rightarrow> file_system" where
  "deadlock_start q = (file_start q)\<lparr>fs_file_mtx := Some Main_thread, fs_slots_mtx := Some Reader_thread,
     fs_reader := Rd_eof, fs_main := Mn_connect\<rparr>"

definition deadlock_join :: "async_queue \<Rightarrow> file_system" where
  "deadlock_join q = (deadlock_start q)\<lparr>fs_main := Mn_join\<rparr>"

text \<open>The reader sees the end of the file under the slot table, wherever the main thread is.\<close>

lemma reader_meets_end:
  assumes "fs_reader s = Rd_slots" "fs_slots_mtx s = None"
  shows "file_step\<^sup>*\<^sup>* s (s\<lparr>fs_slots_mtx := Some Reader_thread, fs_reader := Rd_eof\<rparr>)"
proof -
  have "file_step (s\<lparr>fs_slots_mtx := Some Reader_thread, fs_reader := Rd_read\<rparr>)
      (s\<lparr>fs_slots_mtx := Some Reader_thread, fs_reader := Rd_eof\<rparr>)"
    using file_step.reader_at_end [of "s\<lparr>fs_slots_mtx := Some Reader_thread, fs_reader := Rd_read\<rparr>"] by simp
  with file_step.reader_lock [OF assms] show ?thesis by (meson rtranclp.rtrancl_into_rtrancl r_into_rtranclp)
qed

lemma reader_started:
  "file_step\<^sup>*\<^sup>* (file_start q)
     ((file_start q)\<lparr>fs_file_mtx := Some Main_thread, fs_reader := Rd_slots, fs_main := Mn_connect\<rparr>)"
proof -
  let ?a = "(file_start q)\<lparr>fs_file_mtx := Some Main_thread, fs_main := Mn_spawn\<rparr>"
  have "file_step (file_start q) ?a" by (rule file_step.main_lock) (simp_all add: file_start_def)
  moreover have "file_step ?a ((file_start q)\<lparr>fs_file_mtx := Some Main_thread, fs_reader := Rd_slots, fs_main := Mn_connect\<rparr>)"
    using file_step.main_spawn [of ?a] by (simp add: file_start_def)
  ultimately show ?thesis by (meson rtranclp.rtrancl_into_rtrancl r_into_rtranclp)
qed

text \<open>An empty file: the reader meets its end before the main thread has invoked the connect hook.\<close>

lemma file_input_start_deadlock:
  "file_step\<^sup>*\<^sup>* (file_start q) (deadlock_start q) \<and> (\<nexists>s'. file_step (deadlock_start q) s')"
proof
  have "file_step\<^sup>*\<^sup>* ((file_start q)\<lparr>fs_file_mtx := Some Main_thread, fs_reader := Rd_slots, fs_main := Mn_connect\<rparr>)
      (deadlock_start q)"
    using reader_meets_end [of "(file_start q)\<lparr>fs_file_mtx := Some Main_thread, fs_reader := Rd_slots, fs_main := Mn_connect\<rparr>"]
    by (simp add: deadlock_start_def file_start_def)
  with reader_started show "file_step\<^sup>*\<^sup>* (file_start q) (deadlock_start q)" by (rule rtranclp_trans)
  show "\<nexists>s'. file_step (deadlock_start q) s'"
    by (auto simp: deadlock_start_def file_start_def elim!: file_stepE)
qed

text \<open>A server that shuts down before the reader has met the end of the file: the reader never gets the mutex.\<close>

lemma file_input_join_deadlock:
  "file_step\<^sup>*\<^sup>* (file_start q) (deadlock_join q) \<and> (\<nexists>s'. file_step (deadlock_join q) s')"
proof
  let ?b = "(file_start q)\<lparr>fs_file_mtx := Some Main_thread, fs_reader := Rd_slots, fs_main := Mn_connect\<rparr>"
  let ?c = "?b\<lparr>fs_main := Mn_unlock\<rparr>"
  let ?d = "?c\<lparr>fs_file_mtx := None, fs_main := Mn_loop\<rparr>"
  let ?e = "?d\<lparr>fs_file_mtx := Some Main_thread, fs_main := Mn_join\<rparr>"
  have "file_step ?b ?c" by (rule file_step.main_connect) (simp_all add: file_start_def)
  moreover have "file_step ?c ?d" by (rule file_step.main_unlock) simp
  moreover have "file_step ?d ?e" by (rule file_step.shutdown_lock) simp_all
  moreover have "file_step\<^sup>*\<^sup>* ?e (deadlock_join q)"
    using reader_meets_end [of ?e] by (simp add: deadlock_join_def deadlock_start_def file_start_def)
  ultimately have "file_step\<^sup>*\<^sup>* ?b (deadlock_join q)" by (meson converse_rtranclp_into_rtranclp)
  with reader_started show "file_step\<^sup>*\<^sup>* (file_start q) (deadlock_join q)" by (rule rtranclp_trans)
  show "\<nexists>s'. file_step (deadlock_join q) s'"
    by (auto simp: deadlock_join_def deadlock_start_def file_start_def elim!: file_stepE)
qed

section \<open>No other way to get stuck\<close>



end
