(* ===== verification/Console_Input.thy ===== *)
theory Console_Input
  imports Transport Registered_Events Console_Worker
begin

text \<open>
  Console and file input (\<^verbatim>\<open>lib/comm/console.cpp\<close>, \<^verbatim>\<open>lib/comm/file_input.cpp\<close>) as the event loop sees it: creating the
  input queue and its worker, draining the queue into the console slot, and what the end of the input does. The
  rest of the state, \<open>w_ext\<close>, is now the application record below: the registered events, the console, the file input
  and what remains. The threads behind the queues are in \<^verbatim>\<open>Console_Worker\<close> and \<^verbatim>\<open>File_Input\<close>.
\<close>

section \<open>State\<close>

record console_state =
  con_queue :: "async_queue option"
  con_ctx :: "console_worker_context option"
  con_disconnect_pending :: bool

record file_state =
  fi_queue :: "async_queue option"
  fi_eof :: bool

record 'y app =
  ap_events :: event_state
  ap_console :: console_state
  ap_file :: file_state
  ap_rest :: 'y

text \<open>
  What the functions call: the kind of standard input, the outcomes of allocations and of creating a worker, the
  wait for a worker to finish, posting a completion, and the BIOs on standard input and output.
\<close>

record 'y input_services =
  is_console_type :: console_type
  is_alloc_slots :: "nat \<Rightarrow> bool"
  is_alloc_queue :: "nat \<Rightarrow> nat \<Rightarrow> bool"
  is_new_worker :: "'y \<Rightarrow> (bool \<times> bool \<times> bool) \<times> 'y"
  is_worker_finished :: "'y \<Rightarrow> bool \<times> 'y"
  is_post_completion :: "nat \<Rightarrow> 'y \<Rightarrow> 'y"
  is_stdin :: "nat option"
  is_stdout :: "nat option"

definition on_console :: "(console_state \<Rightarrow> console_state) \<Rightarrow> 'y app world \<Rightarrow> 'y app world" where
  "on_console f = on_ext (\<lambda>a. a\<lparr>ap_console := f (ap_console a)\<rparr>)"

definition on_file :: "(file_state \<Rightarrow> file_state) \<Rightarrow> 'y app world \<Rightarrow> 'y app world" where
  "on_file f = on_ext (\<lambda>a. a\<lparr>ap_file := f (ap_file a)\<rparr>)"

definition with_rest :: "('y \<Rightarrow> 'a \<times> 'y) \<Rightarrow> 'y app world \<Rightarrow> 'a \<times> 'y app world" where
  "with_rest f = with_ext (\<lambda>a. case f (ap_rest a) of (r, y) \<Rightarrow> (r, a\<lparr>ap_rest := y\<rparr>))"

abbreviation console_of :: "'y app world \<Rightarrow> console_state" where
  "console_of w \<equiv> ap_console (w_ext w)"

abbreviation file_of :: "'y app world \<Rightarrow> file_state" where
  "file_of w \<equiv> ap_file (w_ext w)"

section \<open>Console\<close>

definition new_console_queue :: "'y input_services \<Rightarrow> async_queue option" where
  "new_console_queue I = async_queue_create (is_alloc_queue I) 100 4096 ASYNC_QUEUE_DROP_OLDEST"

definition new_console_worker :: "'y input_services \<Rightarrow> 'y app world \<Rightarrow> 'y app world" where
  "new_console_worker I w =
     (case with_rest (is_new_worker I) w of
        ((alloc, created, thread), w1) \<Rightarrow>
          on_console (\<lambda>c. c\<lparr>con_ctx := console_worker_init alloc created thread (is_console_type I)\<rparr>) w1)"

definition add_console_slot :: "'x services \<Rightarrow> 'y input_services \<Rightarrow> 'x world \<Rightarrow> int \<times> 'x world" where
  "add_console_slot S I w =
     (case comm_abstract_add_file (is_alloc_slots I) (sv_unix_path S) (w_slots w) (is_stdin I) (is_stdout I)
             COMM_SLOT_CONSOLE C_LINE_INPUT of
        (ret, rel, t) \<Rightarrow> (ret, w\<lparr>w_slots := t, w_released := w_released w @ rel\<rparr>))"

definition comm_init_console ::
  "'y app services \<Rightarrow> 'y input_services \<Rightarrow> 'y app world \<Rightarrow> (bool \<times> 'y app world) option" where
  "comm_init_console S I w =
     (let w0 = on_console (\<lambda>c. c\<lparr>con_disconnect_pending := False\<rparr>) w;
          q = (case con_queue (console_of w0) of None \<Rightarrow> new_console_queue I | Some q \<Rightarrow> Some q);
          drop_queue = on_console (\<lambda>c. c\<lparr>con_queue := None, con_ctx := None\<rparr>) in
      if q = None then Some (False, w0)
      else let w1 = new_console_worker I (on_console (\<lambda>c. c\<lparr>con_queue := q\<rparr>) w0) in
      if con_ctx (console_of w1) = None then Some (False, drop_queue w1)
      else case (if comm_at COMM_SLOT_CONSOLE w1 = None then add_console_slot S I w1 else (0, w1)) of
        (ret, w2) \<Rightarrow>
          if ret < 0 then Some (False, drop_queue w2)
          else do { (r, w3) \<leftarrow> comm_invoke_connect S COMM_SLOT_CONSOLE COMM_SLOT_CONSOLE w2; Some (True, w3) })"

text \<open>The end of file signalled by the loop side itself; the completion wakes the loop.\<close>

definition set_console_eof :: "'y input_services \<Rightarrow> 'y app \<Rightarrow> 'y app" where
  "set_console_eof I a =
     (case console_worker_set_eof (con_ctx (ap_console a)) of
        (ctx, post) \<Rightarrow>
          a\<lparr>ap_console := (ap_console a)\<lparr>con_ctx := ctx\<rparr>,
            ap_rest := (case post of None \<Rightarrow> ap_rest a | Some d \<Rightarrow> is_post_completion I d (ap_rest a))\<rparr>)"

definition comm_signal_console_eof :: "'y input_services \<Rightarrow> 'y app \<Rightarrow> 'y app" where
  "comm_signal_console_eof I a = set_console_eof I a"

definition console_line_input :: "'x services \<Rightarrow> 'x world \<Rightarrow> 'x world" where
  "console_line_input S w =
     (case comm_set_line_input (sv_arm S) COMM_SLOT_CONSOLE True (w_slots w, w_terminal w) of
        (ok, t, tm) \<Rightarrow> w\<lparr>w_slots := t, w_terminal := tm\<rparr>)"

text \<open>
  The worker is stopped and destroyed, and the terminal is back in line mode. The wait of \<^verbatim>\<open>console_worker_shutdown\<close>
  may time out; destroying the worker waits for it without a limit.
\<close>

definition stop_console_worker :: "'y app services \<Rightarrow> 'y input_services \<Rightarrow> 'y app world \<Rightarrow> 'y app world" where
  "stop_console_worker S I w =
     (case with_rest (is_worker_finished I) w of
        (finished, w1) \<Rightarrow>
          console_line_input S
            (on_console (\<lambda>c. c\<lparr>con_ctx := None\<rparr>)
              (on_console (\<lambda>c. c\<lparr>con_ctx := snd (console_worker_shutdown finished (con_ctx c))\<rparr>) w1)))"

definition comm_shutdown_console :: "'y app services \<Rightarrow> 'y input_services \<Rightarrow> 'y app world \<Rightarrow> 'y app world" where
  "comm_shutdown_console S I w =
     (let w0 = on_console (\<lambda>c. c\<lparr>con_disconnect_pending := False\<rparr>) w;
          w1 = (if con_ctx (console_of w0) \<noteq> None then stop_console_worker S I w0 else w0)
      in on_console (\<lambda>c. c\<lparr>con_queue := None\<rparr>) w1)"

definition comm_enable_virtual_terminal :: "int \<Rightarrow> 'x world \<Rightarrow> bool \<times> 'x world" where
  "comm_enable_virtual_terminal slot w =
     (case comm_at slot w of
        None \<Rightarrow> (False, w)
      | Some c \<Rightarrow> (True, put_comm slot (comm_set_flag C_ENABLE_ANSI c) w))"

subsection \<open>Input\<close>

text \<open>The end of file reported by the worker.\<close>

definition console_take_eof ::
  "'y app services \<Rightarrow> 'y input_services \<Rightarrow> bool \<Rightarrow> 'y app world \<Rightarrow> 'y app world" where
  "console_take_eof S I allow_reconnect w =
     (case console_worker_take_eof (con_ctx (console_of w)) of
        (eof, ctx) \<Rightarrow>
          (let w1 = on_console (\<lambda>c. c\<lparr>con_ctx := ctx\<rparr>) w in
           if \<not> eof then w1
           else let w2 = stop_console_worker S I w1;
                    w3 = (if is_console_type I = CONSOLE_TYPE_TTY \<and> allow_reconnect then new_console_worker I w2 else w2)
                in on_console (\<lambda>c. c\<lparr>con_disconnect_pending := True\<rparr>) w3))"

text \<open>Input typed after a disconnect opens the console slot again; \<open>Some r\<close> ends the function with \<open>r\<close>.\<close>

definition console_reconnect ::
  "'y app services \<Rightarrow> 'y input_services \<Rightarrow> bool \<Rightarrow> 'y app world \<Rightarrow> (int option \<times> 'y app world) option" where
  "console_reconnect S I allow_reconnect w =
     (if comm_at COMM_SLOT_CONSOLE w = None \<and> allow_reconnect \<and> con_ctx (console_of w) \<noteq> None \<and>
         \<not> async_queue_is_empty (con_queue (console_of w))
      then case add_console_slot S I w of
        (ret, w1) \<Rightarrow>
          if ret < 0 then Some (Some (-1), w1)
          else do {
            (r, w2) \<leftarrow> comm_invoke_connect S COMM_SLOT_CONSOLE COMM_SLOT_CONSOLE
              (on_console (\<lambda>c. c\<lparr>con_queue := map_option async_queue_clear (con_queue c)\<rparr>) w1);
            Some (Some 0, w2)
          }
      else Some (None, w))"

definition strip_nul :: "byte list \<Rightarrow> byte list" where
  "strip_nul line = (if line \<noteq> [] \<and> last line = 0 then butlast line else line)"

text \<open>
  The queue is drained into the slot. The worker may add to the queue at any time, so the number of rounds is not
  bounded by the code; the first argument bounds it here, and is the fuel of the functions called.
\<close>

fun console_drain :: "nat \<Rightarrow> 'y app services \<Rightarrow> 'y input_services \<Rightarrow> 'y app world \<Rightarrow> 'y app world option" where
  "console_drain 0 S I w = None"
| "console_drain (Suc n) S I w =
     (case con_queue (console_of w) of
        None \<Rightarrow> Some w
      | Some q \<Rightarrow>
          (case async_queue_dequeue q 4096 of
             (None, q1) \<Rightarrow> Some w
           | (Some line, q1) \<Rightarrow>
               do {
                 (ok, w1) \<leftarrow> comm_refill_inbound_buffers n S COMM_SLOT_CONSOLE (Some (strip_nul line))
                   (on_console (\<lambda>c. c\<lparr>con_queue := Some q1\<rparr>) w);
                 if ok then console_drain n S I w1 else Some (on_ext (set_console_eof I) w1)
               }))"

text \<open>A pending disconnect is completed once nothing of the session is in flight.\<close>

definition console_idle :: "'x services \<Rightarrow> comm_abstract \<Rightarrow> 'x world \<Rightarrow> bool" where
  "console_idle S c w \<longleftrightarrow>
     \<not> (sv_busy S COMM_SLOT_CONSOLE w \<or> comm_has_flag c C_DEFERRED_INBOUND \<or>
        comm_has_flag c C_ENABLE_PROMPT \<and> \<not> comm_has_flag c C_INVOKED_PROMPT)"

definition console_close :: "'x services \<Rightarrow> comm_abstract \<Rightarrow> 'x world \<Rightarrow> (bool \<times> 'x world) option" where
  "console_close S c w =
     do {
       w1 \<leftarrow> (if \<not> comm_has_flag c C_CLOSING \<or> comm_has_flag c C_DISCONNECT_PENDING
              then map_option snd (comm_close_after_console_eof S COMM_SLOT_CONSOLE w) else Some w);
       c1 \<leftarrow> comm_at COMM_SLOT_CONSOLE w1;
       if comm_has_flag c1 C_AWAITING_HOOK \<or> comm_has_flag c1 C_DISCONNECT_PENDING \<or> sv_busy S COMM_SLOT_CONSOLE w1
       then Some (False, w1)
       else Some (True, close_remove S COMM_SLOT_CONSOLE w1)
     }"

definition console_disconnect ::
  "'y app services \<Rightarrow> bool \<Rightarrow> 'y app world \<Rightarrow> 'y app world option" where
  "console_disconnect S allow_reconnect w =
     (if \<not> con_disconnect_pending (console_of w) then Some w
      else do {
        (go, w1) \<leftarrow> (case comm_at COMM_SLOT_CONSOLE w of
                       None \<Rightarrow> Some (True, w)
                     | Some c \<Rightarrow>
                         if \<not> allow_reconnect \<and> \<not> console_idle S c w then Some (False, w)
                         else console_close S c w);
        if \<not> go then Some w1
        else let w2 = on_console (\<lambda>c. c\<lparr>con_queue := map_option async_queue_clear (con_queue c),
                                        con_disconnect_pending := False\<rparr>) w1
             in Some (if allow_reconnect then w2 else w2\<lparr>w_shutdown := True\<rparr>)
      })"

definition comm_process_console_input ::
  "nat \<Rightarrow> 'y app services \<Rightarrow> 'y input_services \<Rightarrow> bool \<Rightarrow> 'y app world \<Rightarrow> (int \<times> 'y app world) option" where
  "comm_process_console_input n S I allow_reconnect w =
     do {
       (early, w1) \<leftarrow> console_reconnect S I allow_reconnect (console_take_eof S I allow_reconnect w);
       case early of
         Some r \<Rightarrow> Some (r, w1)
       | None \<Rightarrow>
           do {
             w2 \<leftarrow> console_drain n S I w1;
             (r, w3) \<leftarrow> comm_process_input n S COMM_SLOT_CONSOLE (-1) w2;
             w4 \<leftarrow> console_disconnect S allow_reconnect w3;
             Some (0, w4)
           }
     }"

section \<open>File input\<close>

text \<open>\<open>thread\<close> is whether the reader could be started; \<^verbatim>\<open>std::thread\<close> throws otherwise.\<close>

definition comm_init_async_file_input ::
  "'y app services \<Rightarrow> 'y input_services \<Rightarrow> bool \<Rightarrow> int \<Rightarrow> 'y app world \<Rightarrow> (bool \<times> 'y app world) option" where
  "comm_init_async_file_input S I thread slot w =
     (let q = (case fi_queue (file_of w) of None \<Rightarrow> new_console_queue I | Some q \<Rightarrow> Some q) in
      if q = None then Some (False, w)
      else let w1 = on_file (\<lambda>f. f\<lparr>fi_queue := q\<rparr>) w in
      case comm_at slot w1 of
        None \<Rightarrow> Some (False, w1)
      | Some c \<Rightarrow>
          if c_rbio c = None then Some (False, w1)
          else if \<not> thread then None
          else do {
            (r, w2) \<leftarrow> comm_invoke_connect S slot slot (on_file (\<lambda>f. f\<lparr>fi_eof := False\<rparr>) w1);
            Some (True, w2)
          })"

text \<open>The state after the reader has been joined.\<close>

definition comm_shutdown_async_file_input :: "'y app world \<Rightarrow> 'y app world" where
  "comm_shutdown_async_file_input w = on_file (\<lambda>f. f\<lparr>fi_queue := None, fi_eof := False\<rparr>) w"

definition comm_has_file_inputs :: "'y app world \<Rightarrow> bool" where
  "comm_has_file_inputs w \<longleftrightarrow> fi_queue (file_of w) \<noteq> None"

text \<open>The result is \<open>False\<close> when the queue has gone and the function returns at once.\<close>

fun file_drain :: "nat \<Rightarrow> 'y app services \<Rightarrow> int \<Rightarrow> 'y app world \<Rightarrow> (bool \<times> 'y app world) option" where
  "file_drain 0 S slot w = None"
| "file_drain (Suc n) S slot w =
     (case fi_queue (file_of w) of
        None \<Rightarrow> Some (False, w)
      | Some q \<Rightarrow>
          (case async_queue_dequeue q 4096 of
             (None, q1) \<Rightarrow> Some (True, w)
           | (Some line, q1) \<Rightarrow>
               do {
                 (ok, w1) \<leftarrow> comm_refill_inbound_buffers n S slot (Some (strip_nul line))
                   (on_file (\<lambda>f. f\<lparr>fi_queue := Some q1\<rparr>) w);
                 if ok then file_drain n S slot w1 else Some (True, w1)
               }))"

definition comm_process_file_input ::
  "nat \<Rightarrow> 'y app services \<Rightarrow> int \<Rightarrow> 'y app world \<Rightarrow> (int \<times> 'y app world) option" where
  "comm_process_file_input n S slot w =
     do {
       (go, w1) \<leftarrow> file_drain n S slot w;
       if \<not> go then Some (0, w1)
       else do {
         (r, w2) \<leftarrow> comm_process_input n S slot (-1) w1;
         Some (if fi_eof (file_of w2) then (0, w2\<lparr>w_shutdown := True\<rparr>) else (1, w2))
       }
     }"

section \<open>The type invariant\<close>

lemma console_fields_typed [simp]:
  "input_typed (on_console f w) = input_typed w" "input_typed (on_file g w) = input_typed w"
  by (simp_all add: on_console_def on_file_def)

lemma with_rest_typed: "with_rest f w = (a, w') \<Longrightarrow> input_typed w' = input_typed w"
  unfolding with_rest_def by (simp add: with_ext_typed)

lemma new_worker_typed [simp]: "input_typed (new_console_worker I w) = input_typed w"
  by (auto simp: new_console_worker_def dest: with_rest_typed split: prod.splits)

lemma add_console_typed: "input_typed w \<Longrightarrow> add_console_slot S I w = (ret, w') \<Longrightarrow> input_typed w'"
proof -
  have same: "input_typed (w\<lparr>w_released := rs\<rparr>) = input_typed w" for rs
    by (simp add: input_typed_def comm_at_def)
  show "input_typed w \<Longrightarrow> add_console_slot S I w = (ret, w') \<Longrightarrow> input_typed w'"
    by (auto simp: add_console_slot_def comm_abstract_add_file_def add_bio_typed same
        split: prod.splits option.splits if_splits)
qed

lemma next_input_mode [typed_rules]:
  "next_comm a c \<Longrightarrow> next_comm a (fst (snd (set_echo_comm arm slot echo c tm)))"
  "next_comm a c \<Longrightarrow> next_comm a (fst (snd (set_line_input_comm arm slot echo c tm)))"
proof -
  have e: "next_comm a (fst (snd (set_echo_comm arm slot echo c tm)))" if "next_comm a c" for a c arm slot echo tm
    using that unfolding set_echo_comm_def set_client_echo_def Let_def by (auto intro!: typed_rules split: option.split)
  then show "next_comm a c \<Longrightarrow> next_comm a (fst (snd (set_echo_comm arm slot echo c tm)))" .
  have n: "next_comm a (negotiate_telnet_line_input arm b c)" if "next_comm a c" for a c b
    using that unfolding negotiate_telnet_line_input_def Let_def by (auto intro!: typed_rules)
  show "next_comm a c \<Longrightarrow> next_comm a (fst (snd (set_line_input_comm arm slot echo c tm)))"
    unfolding set_line_input_comm_def by (auto intro!: e n typed_rules split: option.split)
qed

lemma line_input_typed: "input_typed w \<Longrightarrow> input_typed (console_line_input S w)"
proof -
  assume w: "input_typed w"
  show ?thesis
  proof (cases "comm_at COMM_SLOT_CONSOLE w")
    case None
    then show ?thesis
      using w by (simp add: console_line_input_def comm_set_line_input_def on_slot_def comm_at_def input_typed_def)
  next
    case (Some c)
    define c' where "c' = fst (snd (set_line_input_comm (sv_arm S) COMM_SLOT_CONSOLE True c (w_terminal w)))"
    have "input_typed (put_comm COMM_SLOT_CONSOLE c' w)"
      unfolding c'_def by (rule typed_put(1) [OF w Some], intro typed_rules)
    moreover have "console_line_input S w =
        (put_comm COMM_SLOT_CONSOLE c' w)
          \<lparr>w_terminal := snd (snd (set_line_input_comm (sv_arm S) COMM_SLOT_CONSOLE True c (w_terminal w)))\<rparr>"
      using Some by (simp add: console_line_input_def comm_set_line_input_def on_slot_def comm_at_def c'_def put_comm_def
          split: prod.split)
    ultimately show ?thesis by simp
  qed
qed

lemma stop_worker_typed: "input_typed w \<Longrightarrow> input_typed (stop_console_worker S I w)"
  by (auto simp: stop_console_worker_def dest: with_rest_typed intro!: line_input_typed split: prod.split)

lemma shutdown_console_typed: "input_typed w \<Longrightarrow> input_typed (comm_shutdown_console S I w)"
  by (simp add: comm_shutdown_console_def Let_def stop_worker_typed)

lemma take_eof_typed: "input_typed w \<Longrightarrow> input_typed (console_take_eof S I b w)"
  by (simp add: console_take_eof_def Let_def stop_worker_typed split: prod.split)

lemma init_console_typed:
  assumes S: "typed_services S" and w: "input_typed w"
  shows "tw snd (comm_init_console S I w)"
proof -
  have a: "input_typed w2"
    if "(if P then add_console_slot S I w1 else (0, w1)) = (ret, w2)" "input_typed w1" for P w1 ret w2
    using that by (auto split: if_splits dest: add_console_typed)
  show ?thesis
    unfolding comm_init_console_def Let_def
    by (intro tw_rules tw_bind [OF connect_typed [OF S]]) (auto simp: w dest!: a)
qed

lemma reconnect_typed:
  assumes S: "typed_services S" and w: "input_typed w"
  shows "tw snd (console_reconnect S I b w)"
  unfolding console_reconnect_def
  by (intro tw_rules tw_bind [OF connect_typed [OF S]]) (auto simp: w dest: add_console_typed [OF w])

lemma drain_typed:
  assumes S: "typed_services S"
  shows "input_typed w \<Longrightarrow> tw id (console_drain n S I w)" "input_typed w \<Longrightarrow> tw snd (file_drain n S slot w)"
proof -
  show "input_typed w \<Longrightarrow> tw id (console_drain n S I w)"
  proof (induction n arbitrary: w)
    case (Suc n)
    then show ?case
      by (auto intro!: tw_rules tw_bind [OF comm_refill_typed [OF S]] split: option.split)
  qed (simp add: tw_None)
  show "input_typed w \<Longrightarrow> tw snd (file_drain n S slot w)"
  proof (induction n arbitrary: w)
    case (Suc n)
    then show ?case
      by (auto intro!: tw_rules tw_bind [OF comm_refill_typed [OF S]] split: option.split)
  qed (simp add: tw_None)
qed

lemma console_close_typed:
  assumes S: "typed_services S" and w: "input_typed w"
  shows "tw snd (console_close S c w)"
proof -
  have h: "tw id (if b then map_option snd (comm_close_after_console_eof S slot w) else Some w)" for b slot
    using close_typed [OF S w] by (auto simp: comm_close_after_console_eof_def tw_def w)
  show ?thesis
    unfolding console_close_def
    by (intro tw_bind [OF h] tw_bind_value tw_rules) (simp_all add: close_remove_typed)
qed

lemma console_disconnect_typed:
  assumes S: "typed_services S" and w: "input_typed w"
  shows "tw id (console_disconnect S b w)"
proof -
  have "tw snd (case comm_at COMM_SLOT_CONSOLE w of None \<Rightarrow> Some (True, w)
      | Some c \<Rightarrow> if P c then Some (False, w) else console_close S c w)" for P
    by (intro tw_rules console_close_typed [OF S w]) (simp_all add: w)
  then show ?thesis
    unfolding console_disconnect_def Let_def
    by (auto intro!: tw_bind [where sel' = snd] tw_Some simp: w)
qed

lemma console_input_typed:
  assumes S: "typed_services S" and w: "input_typed w"
  shows "tw snd (comm_process_console_input n S I b w)"
  unfolding comm_process_console_input_def
  by (intro tw_rules tw_bind [OF reconnect_typed [OF S take_eof_typed [OF w]]] tw_bind [OF drain_typed(1) [OF S]]
      tw_bind [OF comm_process_input_typed [OF S]] tw_bind [OF console_disconnect_typed [OF S]]) auto

lemma init_file_typed:
  assumes S: "typed_services S" and w: "input_typed w"
  shows "tw snd (comm_init_async_file_input S I thread slot w)"
  unfolding comm_init_async_file_input_def Let_def
  by (intro tw_rules tw_bind [OF connect_typed [OF S]]) (auto simp: w)

lemma file_input_typed:
  assumes S: "typed_services S" and w: "input_typed w"
  shows "tw snd (comm_process_file_input n S slot w)"
  unfolding comm_process_file_input_def
  by (intro tw_rules tw_bind [OF drain_typed(2) [OF S w]] tw_bind [OF comm_process_input_typed [OF S]]) auto

end
