(* ===== verification/Event_Loop.thy ===== *)
theory Event_Loop
  imports Console_Input Async_Runtime
begin

text \<open>
  The event loop (\<^verbatim>\<open>mudmux_run\<close> of \<^verbatim>\<open>src/mudmux.cpp\<close>): start-up, one iteration, the loop, and the orderly shutdown.
  Everything the loop calls is defined in the theories below it; what remains outside is the wait for events, during
  which the other threads run, and the direct calls of the timer and collection hooks.
\<close>

section \<open>Environment\<close>

text \<open>
  \<open>lp_wait\<close> is \<^verbatim>\<open>async_runtime_wait\<close> with its timeout in seconds: the events and the state other threads leave behind,
  or a failure. \<open>lp_invoke\<close> is \<^verbatim>\<open>mudmux_invoke_registered_hook\<close>; \<open>lp_hook\<close> looks a hook up; \<open>lp_add_event\<close> registers an
  event with the runtime; \<open>lp_workers_stop\<close> joins the workers, which finish the work they have accepted.
\<close>

record 'y loop_services =
  lp_wait :: "int option \<Rightarrow> 'y app world \<Rightarrow> io_event list option \<times> 'y app world"
  lp_hook :: "mudmux_hook_type \<Rightarrow> nat option"
  lp_invoke :: "mudmux_hook_type \<Rightarrow> int \<Rightarrow> 'y app world \<Rightarrow> 'y app world option"
  lp_event_busy :: "nat \<Rightarrow> 'y app world \<Rightarrow> bool"
  lp_runtime_init :: bool
  lp_add_event :: "event_registration \<Rightarrow> bool"
  lp_pool_size :: nat
  lp_workers_start :: bool
  lp_workers_stop :: "'y app world \<Rightarrow> 'y app world"
  lp_thread :: bool

record run_config =
  enable_console :: bool
  enable_standard_input :: bool
  accept_names :: "byte list list"
  keep_alive_interval_seconds :: int

abbreviation events_of :: "'y app world \<Rightarrow> event_state" where
  "events_of w \<equiv> ap_events (w_ext w)"

definition on_events :: "(event_state \<Rightarrow> event_state) \<Rightarrow> 'y app world \<Rightarrow> 'y app world" where
  "on_events f = on_ext (\<lambda>a. a\<lparr>ap_events := f (ap_events a)\<rparr>)"

section \<open>Events\<close>

text \<open>The dispatch of \<^verbatim>\<open>Registered_Events\<close> on the state of the loop.\<close>

definition dispatch_event_of :: "'y app services \<Rightarrow> 'y loop_services \<Rightarrow> nat \<Rightarrow> 'y app world \<Rightarrow> 'y app world option" where
  "dispatch_event_of S P i w =
     map_option (\<lambda>(st, w'). on_events (\<lambda>_. st) w')
       (dispatch_registered_event (lp_event_busy P) (\<lambda>_. lp_hook P HOOK_TIMER)
          (\<lambda>e (st, w). map_option (\<lambda>(r, w'). (r, events_of w', w')) (sv_dispatch S e (on_events (\<lambda>_. st) w)))
          i (events_of w, w))"

fun dispatch_events :: "'y app services \<Rightarrow> 'y loop_services \<Rightarrow> nat list \<Rightarrow> 'y app world \<Rightarrow> 'y app world option" where
  "dispatch_events S P [] w = Some w"
| "dispatch_events S P (i # is) w = do { w1 \<leftarrow> dispatch_event_of S P i w; dispatch_events S P is w1 }"

definition context_to_slot :: "int \<Rightarrow> int" where
  "context_to_slot ctx = sint (word_of_int ctx :: u32)"

text \<open>
  Closing a slot whose peer can no longer answer: a WebSocket close handshake still in progress is taken as answered.
\<close>

definition close_for_good :: "'x services \<Rightarrow> int \<Rightarrow> bool \<Rightarrow> 'x world \<Rightarrow> 'x world option" where
  "close_for_good S slot peer_gone w =
     do {
       (closed, w1) \<leftarrow> comm_close S slot w;
       if closed \<or> \<not> peer_gone then Some w1
       else do {
         c \<leftarrow> comm_at slot w1;
         if comm_has_flag c C_CLOSING \<and> C_WEBSOCKET_IS_READY (c_flags c)
         then map_option snd (comm_close S slot
                (put_comm slot (c\<lparr>c_flags := C_WEBSOCKET_SET_STATE (c_flags c) WS_CLOSE_RECEIVED\<rparr>) w1))
         else Some w1
       }
     }"

text \<open>A readable connection; \<open>True\<close> ends the processing of its event.\<close>

definition read_event :: "nat \<Rightarrow> 'x services \<Rightarrow> int \<Rightarrow> comm_abstract \<Rightarrow> 'x world \<Rightarrow> (bool \<times> 'x world) option" where
  "read_event n S slot c w =
     (if comm_has_flag c C_AWAITING_HOOK \<or> sv_busy S slot w then Some (True, w)
      else do {
        (refilled, w1) \<leftarrow> comm_refill_inbound_buffers n S slot None w;
        (r, w2) \<leftarrow> comm_process_input n S slot (-1) w1;
        if comm_at slot w2 = None then Some (True, w2)
        else if \<not> refilled \<or> r = COMM_PROCESS_ERROR \<or> r = COMM_PROCESS_CLOSED
        then do { w3 \<leftarrow> close_for_good S slot (\<not> refilled) w2; Some (True, w3) }
        else Some (False, w2)
      })"

definition slot_event ::
  "nat \<Rightarrow> 'x services \<Rightarrow> 'x listener_services \<Rightarrow> int \<Rightarrow> u32 \<Rightarrow> 'x world \<Rightarrow> 'x world option" where
  "slot_event n S L slot event_type w =
     (case comm_at slot w of
        None \<Rightarrow> Some w
      | Some c \<Rightarrow>
          if comm_has_flag c C_SOCKET_LISTENING then map_option snd (comm_process_listener_event S L slot w)
          else do {
            (skip, w1) \<leftarrow> (if has_flag event_type EVENT_READ then read_event n S slot c w else Some (False, w));
            if skip then Some w1
            else do {
              w2 \<leftarrow> (if has_flag event_type EVENT_WRITE then comm_flush n S slot w1 else Some w1);
              if has_flag event_type (EVENT_CLOSE OR EVENT_ERROR) then close_for_good S slot True w2
              else do {
                c2 \<leftarrow> comm_at slot w2;
                if comm_has_flag c2 C_CLOSING then map_option snd (comm_close S slot w2) else Some w2
              }
            }
          })"

definition process_event ::
  "nat \<Rightarrow> 'y app services \<Rightarrow> 'y app listener_services \<Rightarrow> 'y loop_services \<Rightarrow> io_event \<Rightarrow> 'y app world \<Rightarrow> 'y app world option" where
  "process_event n S L P ev w =
     (case find_event_registration (io_context ev) (events_of w) of
        Some i \<Rightarrow> dispatch_event_of S P i (on_events (note_ready_event i) w)
      | None \<Rightarrow>
          if io_context ev = 0 then Some w
          else slot_event n S L (context_to_slot (io_context ev)) (io_event_type ev) w)"

fun process_events ::
  "nat \<Rightarrow> 'y app services \<Rightarrow> 'y app listener_services \<Rightarrow> 'y loop_services \<Rightarrow> io_event list \<Rightarrow> 'y app world \<Rightarrow>
   'y app world option" where
  "process_events n S L P [] w = Some w"
| "process_events n S L P (ev # evs) w = do { w1 \<leftarrow> process_event n S L P ev w; process_events n S L P evs w1 }"

section \<open>The loop\<close>

text \<open>One iteration; \<open>False\<close> when the wait failed and the loop is left.\<close>

definition loop_iteration ::
  "nat \<Rightarrow> 'y app services \<Rightarrow> 'y app listener_services \<Rightarrow> 'y input_services \<Rightarrow> 'y loop_services \<Rightarrow> run_config \<Rightarrow>
   'y app world \<Rightarrow> (bool \<times> 'y app world) option" where
  "loop_iteration n S L I P cfg w =
     (case lp_wait P (if lp_hook P HOOK_GARBAGE_COLLECTION \<noteq> None then Some (keep_alive_interval_seconds cfg) else None) w of
        (None, w1) \<Rightarrow> Some (False, w1)
      | (Some evs, w1) \<Rightarrow>
          do {
            w2 \<leftarrow> (if enable_console cfg \<or> enable_standard_input cfg
                   then map_option snd (comm_process_console_input n S I (enable_console cfg) w1) else Some w1);
            w3 \<leftarrow> (if comm_has_file_inputs w2
                   then map_option snd (comm_process_file_input n S COMM_SLOT_CONSOLE w2) else Some w2);
            w4 \<leftarrow> process_events n S L P evs w3;
            w5 \<leftarrow> dispatch_events S P [0..<length (event_registrations (events_of w4))] w4;
            w6 \<leftarrow> (if w_deferred w5 then comm_resume_deferred_input n S w5 else Some w5);
            w7 \<leftarrow> lp_invoke P HOOK_GARBAGE_COLLECTION (-1) w6;
            w8 \<leftarrow> comm_flush_all n S w7;
            w9 \<leftarrow> comm_invoke_prompt S w8;
            Some (True, w9)
          })"

text \<open>The loop ends when the shutdown flag is set; the first argument bounds the iterations.\<close>

fun event_loop ::
  "nat \<Rightarrow> nat \<Rightarrow> 'y app services \<Rightarrow> 'y app listener_services \<Rightarrow> 'y input_services \<Rightarrow> 'y loop_services \<Rightarrow> run_config \<Rightarrow>
   'y app world \<Rightarrow> 'y app world option" where
  "event_loop 0 n S L I P cfg w = None"
| "event_loop (Suc k) n S L I P cfg w =
     (if w_shutdown w then Some w
      else do {
        (go, w1) \<leftarrow> loop_iteration n S L I P cfg w;
        if go then event_loop k n S L I P cfg w1 else Some w1
      })"

section \<open>Shutdown\<close>

fun shutdown_close :: "'x services \<Rightarrow> int list \<Rightarrow> 'x world \<Rightarrow> 'x world option" where
  "shutdown_close S [] w = Some w"
| "shutdown_close S (slot # slots) w =
     do {
       w1 \<leftarrow> (case comm_at slot w of
                None \<Rightarrow> Some w
              | Some c \<Rightarrow> if comm_has_flag c C_SOCKET_LISTENING then Some w else map_option snd (comm_close S slot w));
       shutdown_close S slots w1
     }"

text \<open>One round over the slots: pending disconnect hooks are dispatched; the result says whether any slot still waits.\<close>

fun disconnect_round :: "'x services \<Rightarrow> int list \<Rightarrow> bool \<Rightarrow> 'x world \<Rightarrow> (bool \<times> 'x world) option" where
  "disconnect_round S [] pending w = Some (pending, w)"
| "disconnect_round S (slot # slots) pending w =
     (case comm_at slot w of
        None \<Rightarrow> disconnect_round S slots pending w
      | Some c \<Rightarrow>
          if comm_has_flag c C_SOCKET_LISTENING then disconnect_round S slots pending w
          else do {
            w1 \<leftarrow> (if comm_has_flag c C_DISCONNECT_PENDING \<and> \<not> sv_busy S slot w
                   then map_option snd (comm_close S slot w) else Some w);
            c1 \<leftarrow> comm_at slot w1;
            disconnect_round S slots
              (pending \<or> comm_has_flag c1 C_AWAITING_HOOK \<or> comm_has_flag c1 C_DISCONNECT_PENDING \<or> sv_busy S slot w1) w1
          })"

fun await_disconnects :: "nat \<Rightarrow> 'y app services \<Rightarrow> 'y loop_services \<Rightarrow> 'y app world \<Rightarrow> 'y app world option" where
  "await_disconnects 0 S P w = None"
| "await_disconnects (Suc k) S P w =
     do {
       (pending, w1) \<leftarrow> disconnect_round S (rev [0..comm_max_slot (w_slots w) - 1]) False w;
       if \<not> pending then Some w1
       else case lp_wait P None w1 of
         (None, w2) \<Rightarrow> Some w2
       | (Some _, w2) \<Rightarrow> await_disconnects k S P w2
     }"

definition shutdown_slots :: "nat \<Rightarrow> 'y app services \<Rightarrow> 'y loop_services \<Rightarrow> 'y app world \<Rightarrow> 'y app world option" where
  "shutdown_slots k S P w =
     (if w_shutdown w then
        do {
          w1 \<leftarrow> shutdown_close S (rev [0..comm_max_slot (w_slots w) - 1]) w;
          await_disconnects k S P w1
        }
      else Some w)"

definition remove_all_slots :: "'x services \<Rightarrow> 'x world \<Rightarrow> 'x world" where
  "remove_all_slots S w =
     (case comm_abstract_remove_all (sv_unix_path S) (w_slots w) of
        (rel, t) \<Rightarrow> w\<lparr>w_slots := t, w_released := w_released w @ rel\<rparr>)"

section \<open>Running\<close>

definition register_runtime_events :: "'y loop_services \<Rightarrow> event_state \<Rightarrow> bool" where
  "register_runtime_events P st = list_all (lp_add_event P) (event_registrations st)"

text \<open>\<open>False\<close> when some name could not be set up; the names after it are not tried.\<close>

fun accept_all :: "'x services \<Rightarrow> 'x listener_services \<Rightarrow> byte list list \<Rightarrow> 'x world \<Rightarrow> bool \<times> 'x world" where
  "accept_all S L [] w = (True, w)"
| "accept_all S L (name # names) w =
     (case comm_accept S L name w of
        (r, w1) \<Rightarrow> if r < 0 then (False, w1) else accept_all S L names w1)"

definition start_input ::
  "'y app services \<Rightarrow> 'y input_services \<Rightarrow> 'y loop_services \<Rightarrow> run_config \<Rightarrow> 'y app world \<Rightarrow> (bool \<times> 'y app world) option" where
  "start_input S I P cfg w =
     (if enable_console cfg \<or> enable_standard_input cfg then comm_init_console S I w
      else case comm_at COMM_SLOT_CONSOLE w of
        None \<Rightarrow> Some (True, w)
      | Some c \<Rightarrow> if c_rbio c = None then Some (True, w)
                  else comm_init_async_file_input S I (lp_thread P) COMM_SLOT_CONSOLE w)"

definition start_up ::
  "'y app services \<Rightarrow> 'y app listener_services \<Rightarrow> 'y input_services \<Rightarrow> 'y loop_services \<Rightarrow> run_config \<Rightarrow>
   'y app world \<Rightarrow> (bool \<times> 'y app world) option" where
  "start_up S L I P cfg w =
     (if \<not> lp_runtime_init P \<or> \<not> register_runtime_events P (events_of w) \<or> (lp_pool_size P = 0 \<and> \<not> lp_workers_start P)
      then Some (False, w)
      else do {
        (ok, w1) \<leftarrow> start_input S I P cfg w;
        Some (if ok then accept_all S L (accept_names cfg) w1 else (False, w1))
      })"

definition EXIT_SUCCESS :: int where "EXIT_SUCCESS = 0"
definition EXIT_FAILURE :: int where "EXIT_FAILURE = 1"

text \<open>
  \<open>is_running\<close> is the flag the call finds; the flag it leaves is the second component of the result. A run that
  starts has its own runtime, released at the end.
\<close>

definition mudmux_run ::
  "nat \<Rightarrow> nat \<Rightarrow> 'y app services \<Rightarrow> 'y app listener_services \<Rightarrow> 'y input_services \<Rightarrow> 'y loop_services \<Rightarrow> run_config \<Rightarrow>
   bool \<Rightarrow> 'y app world \<Rightarrow> (int \<times> bool \<times> 'y app world) option" where
  "mudmux_run k n S L I P cfg is_running w =
     (if is_running then Some (EXIT_FAILURE, True, w)
      else do {
        (success, w1) \<leftarrow> start_up S L I P cfg w;
        if \<not> success then
          Some (EXIT_FAILURE, False,
            comm_shutdown_console S I (comm_shutdown_async_file_input (lp_workers_stop P w1)))
        else do {
          w2 \<leftarrow> lp_invoke P HOOK_TIMER 0 w1;
          w3 \<leftarrow> event_loop k n S L I P cfg w2;
          w4 \<leftarrow> lp_invoke P HOOK_TIMER (-1) w3;
          w5 \<leftarrow> shutdown_slots k S P w4;
          w6 \<leftarrow> comm_flush_all n S (lp_workers_stop P w5);
          Some (EXIT_SUCCESS, False,
            remove_all_slots S (comm_shutdown_console S I (comm_shutdown_async_file_input w6)))
        }
      })"

definition mudmux_shutdown :: "bool \<Rightarrow> 'x world \<Rightarrow> 'x world" where
  "mudmux_shutdown is_running w = (if is_running then w\<lparr>w_shutdown := True\<rparr> else w)"

section \<open>The type invariant\<close>

text \<open>What other threads, the directly called hooks and the workers' last tasks must keep.\<close>

definition typed_loop :: "'y loop_services \<Rightarrow> bool" where
  "typed_loop P \<longleftrightarrow>
     (\<forall>t w evs w'. input_typed w \<longrightarrow> lp_wait P t w = (evs, w') \<longrightarrow> input_typed w') \<and>
     (\<forall>h msg w w'. input_typed w \<longrightarrow> lp_invoke P h msg w = Some w' \<longrightarrow> input_typed w') \<and>
     (\<forall>w. input_typed w \<longrightarrow> input_typed (lp_workers_stop P w))"

lemma wait_typed: "typed_loop P \<Longrightarrow> input_typed w \<Longrightarrow> lp_wait P t w = (evs, w') \<Longrightarrow> input_typed w'"
  unfolding typed_loop_def by blast

lemma invoke_typed: "typed_loop P \<Longrightarrow> input_typed w \<Longrightarrow> tw id (lp_invoke P h msg w)"
  unfolding typed_loop_def tw_def id_def by blast

lemma stop_workers_typed: "typed_loop P \<Longrightarrow> input_typed w \<Longrightarrow> input_typed (lp_workers_stop P w)"
  unfolding typed_loop_def by blast

lemma on_events_typed [simp]: "input_typed (on_events f w) = input_typed w"
  by (simp add: on_events_def)

lemma dispatch_event_typed:
  assumes S: "typed_services S" and w: "input_typed w"
  shows "tw id (dispatch_event_of S P i w)"
proof -
  have run: "input_typed w'" if "sv_dispatch S e (on_events f w) = Some (r, w')" for e f r w'
    using typed_dispatch [OF S, of "on_events f w" e] that w by (simp add: tw_def)
  have "tw snd (dispatch_registered_event busy hook
      (\<lambda>e (st, w). map_option (\<lambda>(r, w'). (r, events_of w', w')) (sv_dispatch S e (on_events (\<lambda>_. st) w))) i (st, w))"
    for busy hook st
    unfolding dispatch_registered_event_def tw_def
    by (auto simp: w dest: run split: prod.splits option.splits)
  then show ?thesis
    unfolding dispatch_event_of_def by (intro tw_map) (simp add: case_prod_beta tw_def)
qed

lemma dispatch_events_typed:
  assumes S: "typed_services S"
  shows "input_typed w \<Longrightarrow> tw id (dispatch_events S P is w)"
  by (induction "is" arbitrary: w) (auto intro!: tw_Some tw_bind [OF dispatch_event_typed [OF S]])

lemma close_snd_typed:
  assumes "typed_services S" "input_typed w"
  shows "tw id (map_option snd (comm_close S slot w))"
  using close_typed [OF assms, of slot True] by (intro tw_map) (simp add: comm_close_def tw_def)

lemma close_for_good_typed:
  assumes S: "typed_services S" and w: "input_typed w"
  shows "tw id (close_for_good S slot b w)"
proof -
  have c: "tw snd (comm_close S slot w)" using close_typed [OF S w] by (simp add: comm_close_def)
  show ?thesis
    unfolding close_for_good_def
    by (intro tw_bind [OF c] tw_bind_value tw_Some tw_if tw_pair close_snd_typed [OF S] typed_put(1))
      (auto intro: typed_rules)
qed

lemma read_event_typed:
  assumes S: "typed_services S" and w: "input_typed w"
  shows "tw snd (read_event n S slot c w)"
  unfolding read_event_def
  by (intro tw_rules tw_bind [OF comm_refill_typed [OF S]] tw_bind [OF comm_process_input_typed [OF S]]
      tw_bind [OF close_for_good_typed [OF S]]) (auto simp: w)

lemma slot_event_typed:
  assumes S: "typed_services S" and w: "input_typed w"
  shows "tw id (slot_event n S L slot et w)"
proof -
  have l: "tw id (map_option snd (comm_process_listener_event S L slot w))"
    using listener_event_typed [OF S w] by (intro tw_map) (simp add: tw_def)
  have r: "tw snd (if b then read_event n S slot c w else Some (False, w))" for b c
    using read_event_typed [OF S w] by (auto simp: w tw_def)
  have f: "tw id (if b then comm_flush n S slot w1 else Some w1)" if "input_typed w1" for b w1
    using flush_typed [OF S that] that by (auto simp: tw_def)
  have inner: "tw id (Option.bind (if b then comm_flush n S slot w1 else Some w1)
      (\<lambda>w2. if d then close_for_good S slot True w2
        else Option.bind (comm_at slot w2)
          (\<lambda>c2. if comm_has_flag c2 C_CLOSING then map_option snd (comm_close S slot w2) else Some w2)))"
    if "input_typed w1" for b d w1
    by (rule tw_bind [OF f [OF that]], rule tw_if, rule close_for_good_typed [OF S], simp,
        rule tw_bind_value, rule tw_if, rule close_snd_typed [OF S], simp, rule tw_Some, simp)
  show ?thesis
    unfolding slot_event_def
    by (rule tw_option, rule tw_Some, simp add: w, rule tw_if, rule l, rule tw_bind [OF r], rule tw_pair, rule tw_if,
        rule tw_Some, simp, rule inner, simp)
qed

lemma process_events_typed:
  assumes S: "typed_services S"
  shows "input_typed w \<Longrightarrow> tw id (process_events n S L P evs w)"
proof (induction evs arbitrary: w)
  case (Cons ev evs)
  have "tw id (process_event n S L P ev w)"
    unfolding process_event_def
    by (intro tw_rules dispatch_event_typed [OF S] slot_event_typed [OF S]) (simp_all add: Cons.prems)
  note h = this
  show ?case unfolding process_events.simps by (rule tw_bind [OF h]) (use Cons.IH in \<open>simp add: id_def\<close>)
qed (simp add: tw_Some)

lemma tw_snd_if: "tw snd m \<Longrightarrow> input_typed w \<Longrightarrow> tw id (if b then map_option snd m else Some w)"
  by (auto simp: tw_def)

lemma tw_id_if: "tw id m \<Longrightarrow> input_typed w \<Longrightarrow> tw id (if b then m else Some w)"
  by (auto simp: tw_def)

lemma loop_iteration_typed:
  assumes S: "typed_services S" and P: "typed_loop P" and w: "input_typed w"
  shows "tw snd (loop_iteration n S L I P cfg w)"
  unfolding loop_iteration_def
  by (intro tw_pair tw_option tw_Some tw_bind [OF tw_snd_if [OF console_input_typed [OF S]]]
      tw_bind [OF tw_snd_if [OF file_input_typed [OF S]]] tw_bind [OF process_events_typed [OF S]]
      tw_bind [OF dispatch_events_typed [OF S]] tw_bind [OF tw_id_if [OF resume_typed [OF S]]]
      tw_bind [OF invoke_typed [OF P]] tw_bind [OF flush_all_typed [OF S]] tw_bind [OF prompt_typed [OF S]])
    (simp_all add: wait_typed [OF P w])

lemma event_loop_typed:
  assumes S: "typed_services S" and P: "typed_loop P"
  shows "input_typed w \<Longrightarrow> tw id (event_loop k n S L I P cfg w)"
proof (induction k arbitrary: w)
  case (Suc k)
  then show ?case by (auto intro!: tw_rules tw_bind [OF loop_iteration_typed [OF S P]])
qed (simp add: tw_None)

lemma register_listener_typed:
  "input_typed w \<Longrightarrow> register_listener S L fd (slot, w) = (r, w') \<Longrightarrow> input_typed w'"
  by (auto simp: register_listener_def close_remove_typed dest: with_ext_typed split: if_splits prod.splits bool.splits)

lemma tcp_listener_typed: "input_typed w \<Longrightarrow> tcp_listener_bio L endpoint w = (bio, w') \<Longrightarrow> input_typed w'"
  unfolding tcp_listener_bio_def
  by (auto split: if_splits prod.splits bool.splits option.splits dest: with_ext_typed)

lemma add_register_typed:
  "input_typed w \<Longrightarrow> register_listener S L fd (add_or_free S L bio wbio flags w) = (r, w') \<Longrightarrow> input_typed w'"
  using add_or_free_typed register_listener_typed by (metis surj_pair)

lemma unix_listener_typed: "input_typed w \<Longrightarrow> create_unix_listener S L path w = (r, w') \<Longrightarrow> input_typed w'"
  unfolding create_unix_listener_def
  by (auto split: if_splits prod.splits bool.splits option.splits dest: with_ext_typed add_register_typed)

lemma accept_typed: "input_typed w \<Longrightarrow> comm_accept S L name w = (r, w') \<Longrightarrow> input_typed w'"
  unfolding comm_accept_def Let_def
  by (auto split: if_splits prod.splits option.splits dest: unix_listener_typed tcp_listener_typed add_register_typed)

lemma accept_all_typed: "input_typed w \<Longrightarrow> accept_all S L names w = (ok, w') \<Longrightarrow> input_typed w'"
  by (induction names arbitrary: w) (auto split: if_splits prod.splits dest: accept_typed)

lemma start_input_typed:
  assumes S: "typed_services S" and w: "input_typed w"
  shows "tw snd (start_input S I P cfg w)"
  unfolding start_input_def
  by (intro tw_rules init_console_typed [OF S w] init_file_typed [OF S w]) (simp_all add: w)

lemma start_up_typed:
  assumes S: "typed_services S" and w: "input_typed w"
  shows "tw snd (start_up S L I P cfg w)"
  unfolding start_up_def
  by (intro tw_rules tw_bind [OF start_input_typed [OF S w]])
    (auto simp: w intro: accept_all_typed [OF _ prod.collapse [symmetric]])


subsection \<open>A sample server\<close>

text \<open>
  One TCP listener; the first wait reports the listener readable, the second the accepted connection, which has sent
  \<open>hi\<close> and a line end; then the shutdown flag is set. The hooks do nothing; the rest of the state counts the waits.
\<close>

definition sample_loop_services :: "nat app services" where
  "sample_loop_services =
     \<lparr>sv_dispatch = (\<lambda>_ w. Some (MUDMUX_DISPATCH_OK, w)), sv_async = (\<lambda>_. False), sv_busy = (\<lambda>_ _. False),
      sv_cancel = (\<lambda>_ w. w), sv_hooked = (\<lambda>_. True), sv_arm = (\<lambda>_. True), sv_modify = (\<lambda>_ _ x. x),
      sv_remove_fd = (\<lambda>_ x. x), sv_post_error = (\<lambda>_ x. x), sv_send = (\<lambda>_ x data. (Took (length data), x)),
      sv_handshake = (\<lambda>_ x. (Hs_done, x)), sv_ssl_shutdown = (\<lambda>_ x. x), sv_shutdown_wr = (\<lambda>_ x. x),
      sv_bio_fd = (\<lambda>b. int b), sv_unix_path = (\<lambda>_. None), sv_file_inputs = False, sv_console_eof = (\<lambda>x. x),
      sv_sha1 = Some, sv_b64 = Some, sv_mbrlen = (\<lambda>bs. Mbr (min 1 (length bs))),
      sv_ssl_read = (\<lambda>_ x. (Read_retry, False, x)), sv_bio_read = (\<lambda>_ x. (Read_data [104, 105, 10], x)),
      sv_entry_name = (\<lambda>_ _. [])\<rparr>"

definition sample_listener_services :: "nat app listener_services" where
  "sample_listener_services =
     \<lparr>ls_alloc = (\<lambda>_. True), ls_is_unix = (\<lambda>_. False), ls_accept = (\<lambda>_ x. (None, x)), ls_nonblocking = (\<lambda>_. True),
      ls_socket_bio = (\<lambda>_. None), ls_close = (\<lambda>_ x. x), ls_free_bio = (\<lambda>_ x. x), ls_do_accept = (\<lambda>_ x. (True, x)),
      ls_pop = (\<lambda>_ x. (Some 8, x)), ls_runtime_add = (\<lambda>_ _ x. (True, x)), ls_unix_socket = (\<lambda>x. (None, x)),
      ls_bind_listen = (\<lambda>_ _ x. (False, x)), ls_accept_bio = (\<lambda>x. (Some 7, x)), ls_set_accept_name = (\<lambda>_ _. True),
      ls_set_bind_mode = (\<lambda>_. True), ls_set_nbio_accept = (\<lambda>_. True)\<rparr>"

definition sample_input_services :: "nat input_services" where
  "sample_input_services =
     \<lparr>is_console_type = CONSOLE_TYPE_NONE, is_alloc_slots = (\<lambda>_. True), is_alloc_queue = (\<lambda>_ _. True),
      is_new_worker = (\<lambda>y. ((True, True, True), y)), is_worker_finished = (\<lambda>y. (True, y)),
      is_post_completion = (\<lambda>_ y. y), is_stdin = Some 1, is_stdout = Some 2\<rparr>"

definition sample_wait :: "int option \<Rightarrow> nat app world \<Rightarrow> io_event list option \<times> nat app world" where
  "sample_wait t w =
     (let k = ap_rest (w_ext w); w1 = on_ext (\<lambda>a. a\<lparr>ap_rest := k + 1\<rparr>) w;
          ready = (\<lambda>slot. [\<lparr>io_fd = 7, io_completion_key = 0, io_event_type = EVENT_READ, io_context = slot,
                           io_bytes_transferred = 0\<rparr>])
      in if k = 0 then (Some (ready 1), w1) else if k = 1 then (Some (ready 2), w1)
         else (Some [], w1\<lparr>w_shutdown := True\<rparr>))"

definition sample_loop :: "nat loop_services" where
  "sample_loop =
     \<lparr>lp_wait = sample_wait, lp_hook = (\<lambda>_. None), lp_invoke = (\<lambda>_ _. Some), lp_event_busy = (\<lambda>_ _. False),
      lp_runtime_init = True, lp_add_event = (\<lambda>_. True), lp_pool_size = 1, lp_workers_start = True,
      lp_workers_stop = (\<lambda>w. w), lp_thread = True\<rparr>"

definition sample_config :: run_config where
  "sample_config = \<lparr>enable_console = False, enable_standard_input = False, accept_names = [bytes_of ''tcp://:4000''],
                    keep_alive_interval_seconds = 20\<rparr>"

definition sample_start :: "nat app world" where
  "sample_start =
     \<lparr>w_slots = empty_table, w_deferred = False, w_terminal = None, w_shutdown = False, w_released = [],
      w_ext = \<lparr>ap_events = \<lparr>event_registrations = [], event_objects = (\<lambda>_. \<lparr>ev_counter = 0, ev_signaled = False, ev_manual_reset = True\<rparr>),
                           timer_event = None, timer_pending_flags = 0\<rparr>,
               ap_console = \<lparr>con_queue = None, con_ctx = None, con_disconnect_pending = False\<rparr>,
               ap_file = \<lparr>fi_queue = None, fi_eof = False\<rparr>, ap_rest = 0\<rparr>\<rparr>"

lemma sample_loop_typed:
  "typed_services sample_loop_services" "typed_loop sample_loop" "input_typed sample_start"
proof -
  show "typed_services sample_loop_services"
    by (auto simp: typed_services_def sample_loop_services_def chains_kept_def)
  show "typed_loop sample_loop"
    by (auto simp: typed_loop_def sample_loop_def sample_wait_def Let_def split: if_splits)
  show "input_typed sample_start"
    by (simp add: input_typed_def sample_start_def table_wf_def empty_table_def comm_at_def comm_abstract_get_def
        resolve_slot_unlocked_def slot_ptr_unlocked_def)
qed

lemma sample_run:
  "case start_up sample_loop_services sample_listener_services sample_input_services sample_loop sample_config sample_start of
     Some (True, w1) \<Rightarrow>
       (case event_loop 4 20 sample_loop_services sample_listener_services sample_input_services sample_loop sample_config w1 of
          Some w' \<Rightarrow> \<not> Option.is_none (comm_at 2 w')
        | None \<Rightarrow> False)
   | _ \<Rightarrow> False"
  by code_simp


section \<open>Two consequences\<close>

text \<open>
  A second \<^verbatim>\<open>mudmux_run\<close> after a shutdown leaves its loop before it has waited once: the flag is still set.
\<close>

lemma rerun_exits_at_once: "w_shutdown w \<Longrightarrow> event_loop (Suc k) n S L I P cfg w = Some w"
  by simp

text \<open>
  A writable connection whose flush runs a hook that closes the slot: the event has no further effect to apply, but
  the loop reads the flags of the slot that has gone.
\<close>

lemma write_event_uses_closed_slot:
  assumes "comm_at slot w = Some c" "\<not> comm_has_flag c C_SOCKET_LISTENING"
    and "comm_flush n S slot w = Some w1" "comm_at slot w1 = None"
  shows "slot_event n S L slot EVENT_WRITE w = None"
  using assms by (simp add: slot_event_def has_flag_def flag_defs)

end
