(* ===== verification/Mudmux_Init.thy ===== *)
theory Mudmux_Init
  imports Event_Loop Dispatch
begin

text \<open>
  The life cycle outside \<^verbatim>\<open>mudmux_run\<close> (\<^verbatim>\<open>src/mudmux.cpp\<close>): \<^verbatim>\<open>mudmux_init\<close> with its configuration, \<^verbatim>\<open>mudmux_deinit\<close>, and
  the guard of the API on the calling thread. The YAML library is outside: the configuration is the tree of values
  that the code asks for, each of them absent, present, or of the wrong kind.
\<close>

section \<open>State and configuration\<close>

text \<open>The three API tables: null pointers before the first initialisation, zeroed by the de-initialisation.\<close>

datatype api_tables = Api_null | Api_filled | Api_zeroed

record 'w mudmux_state =
  ms_running :: bool
  ms_shutting_down :: bool
  ms_config :: run_config
  ms_logic_thread :: "nat option"
  ms_events :: event_state
  ms_timer_registered :: bool
  ms_exec :: "'w execution_state"
  ms_ssl_ctx :: "nat option"
  ms_hooks :: "'w registry"
  ms_api :: api_tables

text \<open>A value of the tree; \<open>Bad\<close> makes the conversion throw \<^verbatim>\<open>YAML::Exception\<close>.\<close>

datatype 'a node = Undefined | Value 'a | Bad

record transport_config =
  tc_loads :: bool
  tc_console :: "bool node"
  tc_accept :: "byte list option list node"
  tc_thread_pool :: "(int node \<times> int node) node"
  tc_keep_alive :: "int node"
  tc_ssl :: "(byte list option \<times> byte list option) node"

text \<open>
  What initialisation calls: creating the timer event and its registration record, \<^verbatim>\<open>comm_ssl_init\<close> with OpenSSL
  applied, starting the pool, and letting the jobs of the pool finish.
\<close>

record 'w init_services =
  in_event_created :: bool
  in_timer :: nat
  in_timer_address :: int
  in_ssl_init :: "byte list \<Rightarrow> byte list \<Rightarrow> nat option \<Rightarrow> bool \<times> nat list \<times> nat option"
  in_pool_started :: bool
  in_finish_jobs :: "'w execution_state \<Rightarrow> 'w execution_state"

section \<open>De-initialisation\<close>

definition on_config :: "(run_config \<Rightarrow> run_config) \<Rightarrow> 'w mudmux_state \<Rightarrow> 'w mudmux_state" where
  "on_config f s = s\<lparr>ms_config := f (ms_config s)\<rparr>"

definition mudmux_enable_standard_input :: "bool \<Rightarrow> 'w mudmux_state \<Rightarrow> 'w mudmux_state" where
  "mudmux_enable_standard_input enable = on_config (\<lambda>c. c\<lparr>enable_standard_input := enable\<rparr>)"

definition mudmux_enable_console :: "bool \<Rightarrow> 'w mudmux_state \<Rightarrow> 'w mudmux_state" where
  "mudmux_enable_console enable = on_config (\<lambda>c. c\<lparr>enable_console := enable\<rparr>)"

definition mudmux_workers_stop :: "'w init_services \<Rightarrow> 'w execution_state \<Rightarrow> 'w execution_state" where
  "mudmux_workers_stop N x = snd (workers_stop_end (in_finish_jobs N (workers_stop_begin x)))"

text \<open>\<open>None\<close>: the API tables are cleared through null pointers.\<close>

definition mudmux_deinit :: "'w init_services \<Rightarrow> 'w mudmux_state \<Rightarrow> 'w mudmux_state option" where
  "mudmux_deinit N s =
     (if ms_running s then Some s
      else if ms_api s = Api_null then None
      else Some (s\<lparr>ms_config := (ms_config s)\<lparr>enable_console := False, accept_names := []\<rparr>,
                   ms_logic_thread := None,
                   ms_exec := mudmux_workers_configure 1 8 (mudmux_workers_stop N (ms_exec s)),
                   ms_events := (ms_events s)\<lparr>event_registrations := [], timer_event := None\<rparr>,
                   ms_timer_registered := False,
                   ms_api := Api_zeroed,
                   ms_ssl_ctx := None,
                   ms_hooks := mudmux_reset_registered_hooks (ms_hooks s)\<rparr>))"

section \<open>Initialisation\<close>

definition and_then :: "bool \<times> 's \<Rightarrow> ('s \<Rightarrow> bool \<times> 's) \<Rightarrow> bool \<times> 's" where
  "and_then p f = (case p of (True, s) \<Rightarrow> f s | (False, s) \<Rightarrow> (False, s))"

text \<open>The values that are always reset, and the API tables.\<close>

definition init_defaults :: "'w mudmux_state \<Rightarrow> 'w mudmux_state" where
  "init_defaults s =
     s\<lparr>ms_exec := mudmux_workers_configure 1 8 (ms_exec s),
       ms_config := (ms_config s)\<lparr>keep_alive_interval_seconds := 20\<rparr>,
       ms_events := (ms_events s)\<lparr>timer_pending_flags := 0\<rparr>,
       ms_api := Api_filled\<rparr>"

definition init_timer :: "'w init_services \<Rightarrow> 'w mudmux_state \<Rightarrow> bool \<times> 'w mudmux_state" where
  "init_timer N s =
     (let created = (if timer_event (ms_events s) \<noteq> None then Some (ms_events s)
                     else map_option (\<lambda>e. (ms_events s)\<lparr>timer_event := Some (in_timer N),
                                                        event_objects := (event_objects (ms_events s))(in_timer N := e)\<rparr>)
                            (async_event_init (in_event_created N) True False))
      in case created of
           None \<Rightarrow> (False, s)
         | Some st \<Rightarrow>
             (True, if ms_timer_registered s then s\<lparr>ms_events := st\<rparr>
                    else s\<lparr>ms_events := st\<lparr>event_registrations := event_registrations st @
                              [\<lparr>reg_address = in_timer_address N, reg_event = the (timer_event st), reg_hook_func = None,
                                reg_pending = False\<rparr>]\<rparr>,
                           ms_timer_registered := True\<rparr>))"

definition init_console :: "bool node \<Rightarrow> 'w mudmux_state \<Rightarrow> bool \<times> 'w mudmux_state" where
  "init_console n s =
     (case n of Undefined \<Rightarrow> (True, s) | Bad \<Rightarrow> (False, s) | Value b \<Rightarrow> (True, mudmux_enable_console b s))"

fun push_accept_names :: "byte list option list \<Rightarrow> 'w mudmux_state \<Rightarrow> bool \<times> 'w mudmux_state" where
  "push_accept_names [] s = (True, s)"
| "push_accept_names (None # names) s = (False, s)"
| "push_accept_names (Some name # names) s =
     push_accept_names names (on_config (\<lambda>c. c\<lparr>accept_names := accept_names c @ [name]\<rparr>) s)"

definition init_accept :: "byte list option list node \<Rightarrow> 'w mudmux_state \<Rightarrow> bool \<times> 'w mudmux_state" where
  "init_accept n s = (case n of Undefined \<Rightarrow> (True, s) | Bad \<Rightarrow> (False, s) | Value names \<Rightarrow> push_accept_names names s)"

text \<open>An integer of the thread pool section with its default; \<open>None\<close> when it throws.\<close>

definition int_or :: "int \<Rightarrow> int node \<Rightarrow> int option" where
  "int_or d n = (case n of Undefined \<Rightarrow> Some d | Value v \<Rightarrow> Some v | Bad \<Rightarrow> None)"

definition init_thread_pool :: "(int node \<times> int node) node \<Rightarrow> 'w mudmux_state \<Rightarrow> bool \<times> 'w mudmux_state" where
  "init_thread_pool n s =
     (case n of
        Undefined \<Rightarrow> (True, s)
      | Bad \<Rightarrow> (False, s)
      | Value (sz, bl) \<Rightarrow>
          (case int_or 1 sz of
             None \<Rightarrow> (False, s)
           | Some thread_pool_size \<Rightarrow>
               (case int_or 8 bl of
                  None \<Rightarrow> (False, s)
                | Some backlog_capacity \<Rightarrow>
                    if thread_pool_size < 1 then (False, s)
                    else if backlog_capacity < 1 then (False, s)
                    else (True, s\<lparr>ms_exec := mudmux_workers_configure thread_pool_size (nat backlog_capacity) (ms_exec s)\<rparr>))))"

definition init_keep_alive :: "int node \<Rightarrow> 'w mudmux_state \<Rightarrow> bool \<times> 'w mudmux_state" where
  "init_keep_alive n s =
     (case n of
        Undefined \<Rightarrow> (True, s)
      | Bad \<Rightarrow> (False, s)
      | Value interval \<Rightarrow>
          if interval < 1 then (False, s)
          else (True, on_config (\<lambda>c. c\<lparr>keep_alive_interval_seconds := interval\<rparr>) s))"

definition init_ssl :: "'w init_services \<Rightarrow> (byte list option \<times> byte list option) node \<Rightarrow> 'w mudmux_state \<Rightarrow> bool \<times> 'w mudmux_state" where
  "init_ssl N n s =
     (case n of
        Undefined \<Rightarrow> (True, s)
      | Bad \<Rightarrow> (False, s)
      | Value (certificate, private_key) \<Rightarrow>
          (case (certificate, private_key) of
             (Some c, Some k) \<Rightarrow> (case in_ssl_init N c k (ms_ssl_ctx s) of (ok, freed, ctx) \<Rightarrow> (ok, s\<lparr>ms_ssl_ctx := ctx\<rparr>))
           | _ \<Rightarrow> (False, s)))"

definition init_workers :: "'w init_services \<Rightarrow> 'w mudmux_state \<Rightarrow> bool \<times> 'w mudmux_state" where
  "init_workers N s =
     (case mudmux_workers_start (in_pool_started N) (ms_exec s) of
        (ok, x) \<Rightarrow> (ok, s\<lparr>ms_exec := x, ms_shutting_down := (if ok then False else ms_shutting_down s)\<rparr>))"

definition init_steps :: "'w init_services \<Rightarrow> transport_config \<Rightarrow> 'w mudmux_state \<Rightarrow> bool \<times> 'w mudmux_state" where
  "init_steps N tc s =
     and_then (and_then (and_then (and_then (and_then (and_then (and_then
       (init_timer N (init_defaults s))
       (\<lambda>s. (tc_loads tc, s))) (init_console (tc_console tc))) (init_accept (tc_accept tc)))
       (init_thread_pool (tc_thread_pool tc))) (init_keep_alive (tc_keep_alive tc)))
       (init_ssl N (tc_ssl tc))) (init_workers N)"

definition mudmux_init :: "'w init_services \<Rightarrow> transport_config \<Rightarrow> 'w mudmux_state \<Rightarrow> (bool \<times> 'w mudmux_state) option" where
  "mudmux_init N tc s =
     (if ms_running s then Some (False, s)
      else case init_steps N tc s of
        (True, s1) \<Rightarrow> Some (True, s1)
      | (False, s1) \<Rightarrow> map_option (Pair False) (mudmux_deinit N s1))"

section \<open>The thread guard\<close>

text \<open>\<open>logic\<close> is the bound logic thread, \<open>this\<close> the calling thread and \<open>worker\<close> whether it is a worker.\<close>

definition comm_api_thread_guard :: "nat option \<Rightarrow> nat \<Rightarrow> bool \<Rightarrow> bool" where
  "comm_api_thread_guard logic this worker \<longleftrightarrow> logic = None \<or> Some this = logic \<or> worker"

definition guarded_call :: "nat option \<Rightarrow> nat \<Rightarrow> bool \<Rightarrow> 'a \<Rightarrow> ('s \<Rightarrow> 'a \<times> 's) \<Rightarrow> 's \<Rightarrow> 'a \<times> 's" where
  "guarded_call logic this worker fallback fn s =
     (if \<not> comm_api_thread_guard logic this worker then (fallback, s) else fn s)"

definition guarded_call_void :: "nat option \<Rightarrow> nat \<Rightarrow> bool \<Rightarrow> ('s \<Rightarrow> 's) \<Rightarrow> 's \<Rightarrow> 's" where
  "guarded_call_void logic this worker fn s =
     (if \<not> comm_api_thread_guard logic this worker then s else fn s)"

section \<open>All or nothing\<close>

text \<open>What every step keeps, whether it succeeds or not.\<close>

definition init_inv :: "'w mudmux_state \<Rightarrow> bool" where
  "init_inv s \<longleftrightarrow> \<not> ms_running s \<and> ms_api s = Api_filled \<and> 1 \<le> x_thread_pool_size (ms_exec s) \<and>
     1 \<le> x_backlog_capacity (ms_exec s) \<and> 1 \<le> keep_alive_interval_seconds (ms_config s)"

definition timer_ready :: "'w mudmux_state \<Rightarrow> bool" where
  "timer_ready s \<longleftrightarrow> timer_event (ms_events s) \<noteq> None \<and> ms_timer_registered s"

lemmas configure_fields = mudmux_workers_configure_def mudmux_workers_start_def set_running_def set_accepting_def Let_def

lemma init_defaults_inv: "\<not> ms_running s \<Longrightarrow> init_inv (init_defaults s)"
  by (simp add: init_inv_def init_defaults_def configure_fields)

lemma init_timer_inv:
  "init_inv s \<Longrightarrow> init_timer N s = (ok, s') \<Longrightarrow>
     init_inv s' \<and> (ok \<longrightarrow> timer_ready s') \<and> accept_names (ms_config s') = accept_names (ms_config s)"
  by (auto simp: init_timer_def init_inv_def timer_ready_def Let_def split: option.splits if_splits)

text \<open>The steps after the timer: they leave it alone, and only the list of listeners adds names.\<close>

definition keeps_init :: "byte list list \<Rightarrow> ('w mudmux_state \<Rightarrow> bool \<times> 'w mudmux_state) \<Rightarrow> bool" where
  "keeps_init names f \<longleftrightarrow>
     (\<forall>s ok s'. init_inv s \<longrightarrow> f s = (ok, s') \<longrightarrow>
        init_inv s' \<and> (timer_ready s \<longrightarrow> timer_ready s') \<and>
        (ok \<longrightarrow> accept_names (ms_config s') = accept_names (ms_config s) @ names))"

lemma keeps_small:
  "keeps_init [] (\<lambda>s. (b, s))" "keeps_init [] (init_console n)" "keeps_init [] (init_thread_pool tp)"
  "keeps_init [] (init_keep_alive i)" "keeps_init [] (init_ssl N ss)" "keeps_init [] (init_workers N)"
  by (auto simp: keeps_init_def init_inv_def timer_ready_def init_console_def init_thread_pool_def init_keep_alive_def
      init_ssl_def init_workers_def on_config_def mudmux_enable_console_def configure_fields
      split: node.splits option.splits if_splits prod.splits)

definition configured_names :: "transport_config \<Rightarrow> byte list list" where
  "configured_names tc = (case tc_accept tc of Value names \<Rightarrow> map the (filter (\<lambda>x. x \<noteq> None) names) | _ \<Rightarrow> [])"

lemma push_names:
  "init_inv s \<Longrightarrow> push_accept_names names s = (ok, s') \<Longrightarrow>
     init_inv s' \<and> (timer_ready s \<longrightarrow> timer_ready s') \<and>
     (ok \<longrightarrow> accept_names (ms_config s') = accept_names (ms_config s) @ map the (filter (\<lambda>x. x \<noteq> None) names))"
  by (induction names s rule: push_accept_names.induct) (auto simp: init_inv_def timer_ready_def on_config_def)

lemma keeps_accept: "keeps_init (configured_names tc) (init_accept (tc_accept tc))"
  unfolding keeps_init_def init_accept_def configured_names_def
  by (auto split: node.splits dest: push_names)

text \<open>The state of a partly executed initialisation that started with the names \<open>base\<close>.\<close>

definition init_stage :: "byte list list \<Rightarrow> byte list list \<Rightarrow> bool \<times> 'w mudmux_state \<Rightarrow> bool" where
  "init_stage base names p \<longleftrightarrow>
     init_inv (snd p) \<and> (fst p \<longrightarrow> timer_ready (snd p) \<and> accept_names (ms_config (snd p)) = base @ names)"

lemma stage_then: "init_stage base names p \<Longrightarrow> keeps_init ns f \<Longrightarrow> init_stage base (names @ ns) (and_then p f)"
proof -
  assume a: "init_stage base names p" "keeps_init ns f"
  obtain b s where p: "p = (b, s)" by fastforce
  obtain ok s' where f: "f s = (ok, s')" by fastforce
  show ?thesis
    using a f unfolding p by (cases b) (auto simp: init_stage_def and_then_def keeps_init_def)
qed

lemma init_steps_stage:
  assumes "\<not> ms_running s"
  shows "init_stage (accept_names (ms_config s)) (configured_names tc) (init_steps N tc s)"
proof -
  obtain ok s1 where t: "init_timer N (init_defaults s) = (ok, s1)" by fastforce
  have "accept_names (ms_config (init_defaults s)) = accept_names (ms_config s)" by (simp add: init_defaults_def)
  then have "init_stage (accept_names (ms_config s)) [] (init_timer N (init_defaults s))"
    using init_timer_inv [OF init_defaults_inv [OF assms] t] t by (simp add: init_stage_def)
  from this [THEN stage_then [OF _ keeps_small(1)], THEN stage_then [OF _ keeps_small(2)], THEN stage_then [OF _ keeps_accept],
      THEN stage_then [OF _ keeps_small(3)], THEN stage_then [OF _ keeps_small(4)], THEN stage_then [OF _ keeps_small(5)],
      THEN stage_then [OF _ keeps_small(6)]]
  show ?thesis by (simp add: init_steps_def)
qed

lemma init_steps_success:
  assumes "init_steps N tc s = (True, s')"
  shows "x_running (ms_exec s') \<and> \<not> ms_shutting_down s'"
proof -
  obtain p where "init_steps N tc s = and_then p (init_workers N)" unfolding init_steps_def by blast
  then show ?thesis
    using assms by (auto simp: and_then_def init_workers_def configure_fields split: prod.splits bool.splits if_splits)
qed

lemma deinit_clean:
  assumes "\<not> ms_running s" "ms_api s \<noteq> Api_null" "\<forall>x. x_running (in_finish_jobs N x) = x_running x"
  shows "\<exists>s'. mudmux_deinit N s = Some s' \<and> event_registrations (ms_events s') = [] \<and> timer_event (ms_events s') = None \<and>
    \<not> ms_timer_registered s' \<and> accept_names (ms_config s') = [] \<and> \<not> enable_console (ms_config s') \<and>
    ms_hooks s' = (\<lambda>t. None) \<and> ms_ssl_ctx s' = None \<and> \<not> x_running (ms_exec s') \<and> ms_api s' = Api_zeroed"
  using assms by (auto simp: mudmux_deinit_def mudmux_workers_stop_def workers_stop_end_def workers_stop_begin_def
      mudmux_reset_registered_hooks_def configure_fields split: prod.split)


definition sample_init :: "nat init_services" where
  "sample_init =
     \<lparr>in_event_created = True, in_timer = 0, in_timer_address = 4096, in_ssl_init = (\<lambda>c k ctx. (True, [], Some 5)),
      in_pool_started = True, in_finish_jobs = (\<lambda>x. x)\<rparr>"

definition sample_transport :: "int node \<Rightarrow> transport_config" where
  "sample_transport keep_alive =
     \<lparr>tc_loads = True, tc_console = Value True, tc_accept = Value [Some (bytes_of ''tcp://:4000'')],
      tc_thread_pool = Value (Value 2, Undefined), tc_keep_alive = keep_alive, tc_ssl = Undefined\<rparr>"

definition sample_state :: "nat mudmux_state" where
  "sample_state =
     \<lparr>ms_running = False, ms_shutting_down = True,
      ms_config = \<lparr>enable_console = False, enable_standard_input = False, accept_names = [], keep_alive_interval_seconds = 20\<rparr>,
      ms_logic_thread = None, ms_events = ap_events (w_ext sample_start), ms_timer_registered = False,
      ms_exec = set_running False (sample_scheduler MUDMUX_DETERMINISM_STRICT), ms_ssl_ctx = None, ms_hooks = (\<lambda>t. None),
      ms_api = Api_null\<rparr>"


section \<open>Around the life cycle\<close>

text \<open>De-initialising before the first initialisation clears the API tables through null pointers.\<close>

lemma deinit_before_init: "\<not> ms_running s \<Longrightarrow> ms_api s = Api_null \<Longrightarrow> mudmux_deinit N s = None"
  by (simp add: mudmux_deinit_def)

text \<open>The switch for standard input is the only setting that outlives de-initialisation.\<close>

lemma deinit_keeps_standard_input:
  "mudmux_deinit N s = Some s' \<Longrightarrow> enable_standard_input (ms_config s') = enable_standard_input (ms_config s)"
  by (auto simp: mudmux_deinit_def split: if_splits)

end
