(* ===== verification/Chatroom.thy ===== *)
theory Chatroom
  imports Mudmux_Prelude
begin

text \<open>
  The chat room (\<^verbatim>\<open>examples/chatroom\<close>), the application that comes with the library: the registry of users, the menu
  and the commands, and the hooks it registers. A hook returns the calls it makes on the library, in order, and the
  new registry. Where a call closes a connection the library may run the disconnect hook inside the call; whether
  it does is an argument.
\<close>

section \<open>Calls on the library\<close>

datatype comm_call =
  Call_add_message int "byte list" | Call_buffered_write int "byte list" | Call_close int |
  Call_char_input int | Call_line_input int bool | Call_virtual_terminal int | Call_enable_prompt int bool |
  Call_enable_telnet | Call_enable_tls | Call_enable_websocket "byte list option"

section \<open>Transports\<close>

datatype transport =
  Plaintext | Telnet | TlsTelnet | WebSocket | SecureWebSocket | WebSocketTelnet | SecureWebSocketTelnet

definition telnet_protocols :: "byte list" where
  "telnet_protocols = bytes_of ''telnet.ietf.org, telnet.mudstandards.org''"

text \<open>\<open>websocket\<close> is the result of \<^verbatim>\<open>comm_enable_websocket\<close>.\<close>

definition configure_transport :: "transport \<Rightarrow> bool \<Rightarrow> bool \<times> comm_call list" where
  "configure_transport t websocket =
     (case t of
        Plaintext \<Rightarrow> (True, [])
      | Telnet \<Rightarrow> (True, [Call_enable_telnet])
      | TlsTelnet \<Rightarrow> (True, [Call_enable_tls, Call_enable_telnet])
      | WebSocket \<Rightarrow> (websocket, [Call_enable_websocket None])
      | SecureWebSocket \<Rightarrow> (websocket, [Call_enable_tls, Call_enable_websocket None])
      | WebSocketTelnet \<Rightarrow> (websocket, [Call_enable_websocket (Some telnet_protocols)])
      | SecureWebSocketTelnet \<Rightarrow> (websocket, [Call_enable_tls, Call_enable_websocket (Some telnet_protocols)]))"

definition parse_transport :: "byte list \<Rightarrow> transport option" where
  "parse_transport name =
     (if name = bytes_of ''plaintext'' then Some Plaintext
      else if name = bytes_of ''telnet'' then Some Telnet
      else if name = bytes_of ''tls-telnet'' then Some TlsTelnet
      else if name = bytes_of ''ws'' then Some WebSocket
      else if name = bytes_of ''wss'' then Some SecureWebSocket
      else if name = bytes_of ''ws-telnet'' then Some WebSocketTelnet
      else if name = bytes_of ''wss-telnet'' then Some SecureWebSocketTelnet
      else None)"

section \<open>Menus\<close>

record menu =
  mn_title :: "byte list"
  mn_options :: "byte list list"
  mn_selected_index :: int
  mn_cursor_position :: int

definition new_menu :: "byte list \<Rightarrow> byte list list \<Rightarrow> menu" where
  "new_menu title options =
     \<lparr>mn_title = title, mn_options = options, mn_selected_index = -1, mn_cursor_position = 0\<rparr>"

text \<open>\<^verbatim>\<open>tolower\<close> in the C locale.\<close>

definition to_lower :: "byte \<Rightarrow> byte" where
  "to_lower b = (if 65 \<le> b \<and> b \<le> 90 then b + 32 else b)"

text \<open>\<^verbatim>\<open>std::string\<close> has a zero after its last character.\<close>

definition first_char :: "byte list \<Rightarrow> byte" where
  "first_char s = (case s of [] \<Rightarrow> 0 | b # _ \<Rightarrow> b)"

definition CUU :: "byte list" where "CUU = [27, 91, 65]"
definition CUD :: "byte list" where "CUD = [27, 91, 66]"

definition receiveCharInput :: "byte list \<Rightarrow> menu \<Rightarrow> menu" where
  "receiveCharInput message m =
     (if message = CUU then
        (if mn_cursor_position m > 0 then m\<lparr>mn_cursor_position := mn_cursor_position m - 1\<rparr> else m)
      else if message = CUD then
        (if mn_cursor_position m < int (length (mn_options m)) - 1
         then m\<lparr>mn_cursor_position := mn_cursor_position m + 1\<rparr> else m)
      else if message = [32] \<or> message = [10] \<or> message = [13] then
        m\<lparr>mn_selected_index := mn_cursor_position m\<rparr>
      else if message \<noteq> [] then
        (case find (\<lambda>i. to_lower (first_char (mn_options m ! i)) = to_lower (hd message)) [0..<length (mn_options m)] of
           None \<Rightarrow> m
         | Some i \<Rightarrow> m\<lparr>mn_cursor_position := int i, mn_selected_index := int i\<rparr>)
      else m)"

fun decimal :: "nat \<Rightarrow> byte list" where
  "decimal n = (if n < 10 then [48 + of_nat n] else decimal (n div 10) @ [48 + of_nat (n mod 10)])"

declare decimal.simps [simp del]

definition menu_line :: "int \<Rightarrow> nat \<Rightarrow> byte list \<Rightarrow> byte list" where
  "menu_line cursor i option =
     (if int i = cursor then bytes_of '' '' @ [27, 91, 55, 109] @ bytes_of '' '' @ option @ bytes_of '' '' @ [27, 91, 48, 109, 10]
      else bytes_of ''  '' @ option @ [10])"

definition writeMenu :: "int \<Rightarrow> menu \<Rightarrow> comm_call list" where
  "writeMenu slot m =
     [Call_buffered_write slot
        ([27, 91, 74, 10] @
         concat (map (\<lambda>i. menu_line (mn_cursor_position m) i (mn_options m ! i)) [0..<length (mn_options m)]) @
         [27, 91] @ decimal (length (mn_options m) + 1) @ [65, 13] @ mn_title m)]"

section \<open>Users\<close>

datatype user_state = Disconnected | Connected | PreLogin | LoggedIn

datatype user_handler = Handle_commands | Handle_username | Handle_exit_confirmation

record user =
  us_username :: "byte list"
  us_comm_slot :: int
  us_state :: user_state
  us_idle_time :: int
  us_inbound_handler :: user_handler
  us_prompt_menu :: bool
  us_menu :: "menu option"

type_synonym users = "user option list"

definition new_user :: "int \<Rightarrow> int \<Rightarrow> user" where
  "new_user slot now =
     \<lparr>us_username = [], us_comm_slot = slot, us_state = Disconnected, us_idle_time = now,
      us_inbound_handler = Handle_commands, us_prompt_menu = False, us_menu = None\<rparr>"

definition connect :: "int \<Rightarrow> int \<Rightarrow> users \<Rightarrow> user option \<times> users" where
  "connect slot now us =
     (if slot < 0 then (None, us)
      else let us1 = (if slot \<ge> int (length us) then us @ replicate (nat slot + 32 - length us) None else us);
               u = new_user slot now
           in (Some u, us1[nat slot := Some u]))"

definition find_user :: "int \<Rightarrow> users \<Rightarrow> user option" where
  "find_user slot us = (if slot < 0 \<or> slot \<ge> int (length us) then None else us ! nat slot)"

definition take_user :: "int \<Rightarrow> users \<Rightarrow> user option \<times> users" where
  "take_user slot us =
     (if slot < 0 \<or> slot \<ge> int (length us) then (None, us) else (us ! nat slot, us[nat slot := None]))"

definition addMessage :: "byte list \<Rightarrow> user \<Rightarrow> comm_call list" where
  "addMessage message u = (if us_comm_slot u \<ge> 0 then [Call_add_message (us_comm_slot u) message] else [])"

definition isIdleFor :: "int \<Rightarrow> int \<Rightarrow> user \<Rightarrow> bool" where
  "isIdleFor timeout now u \<longleftrightarrow> us_comm_slot u \<ge> 0 \<and> now - us_idle_time u > timeout"

definition logon :: "user \<Rightarrow> comm_call list \<times> user" where
  "logon u =
     (if us_comm_slot u < 0 then ([], u)
      else (addMessage (bytes_of ''Please enter your username: '') u,
            u\<lparr>us_state := PreLogin, us_inbound_handler := Handle_username\<rparr>))"

definition disconnect :: "user \<Rightarrow> comm_call list \<times> user" where
  "disconnect u = (addMessage (bytes_of ''Bye!'' @ [10]) u, u\<lparr>us_state := Disconnected, us_comm_slot := -1\<rparr>)"

text \<open>\<open>inline\<close>: the library runs the disconnect hook, which takes the user out of the registry, inside the call.\<close>

definition closeComm :: "bool \<Rightarrow> user \<Rightarrow> comm_call list \<times> user" where
  "closeComm inline u =
     (if us_comm_slot u < 0 then ([], u)
      else if inline then (Call_close (us_comm_slot u) # fst (disconnect u), snd (disconnect u))
      else ([Call_close (us_comm_slot u)], u))"

definition doMenu :: "menu option \<Rightarrow> user_handler \<Rightarrow> user \<Rightarrow> comm_call list \<times> user" where
  "doMenu new handler u =
     (let u1 = u\<lparr>us_menu := new\<rparr> in
      if new = None then ([], u1)
      else (if us_comm_slot u \<ge> 0 then [Call_char_input (us_comm_slot u)] else [],
            u1\<lparr>us_prompt_menu := True, us_inbound_handler := handler\<rparr>))"

definition prompt :: "user \<Rightarrow> comm_call list" where
  "prompt u =
     (if us_prompt_menu u then (case us_menu u of None \<Rightarrow> [] | Some m \<Rightarrow> writeMenu (us_comm_slot u) m)
      else if us_inbound_handler u \<noteq> Handle_commands then []
      else if us_comm_slot u < 0 then []
      else [Call_buffered_write (us_comm_slot u) (bytes_of ''> '')])"

section \<open>Commands\<close>

definition help_message :: "byte list" where
  "help_message =
     bytes_of ''Welcome to the chatroom! Here are some commands you can use:'' @ [10] @
     bytes_of ''/help - Show this help message'' @ [10] @
     bytes_of ''/quit - Disconnect from the chatroom'' @ [10]"

definition command_quit :: "user \<Rightarrow> comm_call list \<times> user" where
  "command_quit u =
     doMenu (Some (new_menu (bytes_of ''Are you sure you want to quit? (y/n)'') [bytes_of ''Yes'', bytes_of ''No'']))
       Handle_exit_confirmation u"

text \<open>The verb is what stands before the first space; the two commands ignore their arguments.\<close>

definition find_and_execute :: "byte list \<Rightarrow> user \<Rightarrow> (comm_call list \<times> user) option" where
  "find_and_execute input u =
     (let verb = takeWhile (\<lambda>b. b \<noteq> 32) input in
      if verb = bytes_of ''help'' then Some ([Call_add_message (us_comm_slot u) help_message], u)
      else if verb = bytes_of ''quit'' then Some (command_quit u)
      else None)"

section \<open>Messages\<close>

definition receiveUsername :: "byte list \<Rightarrow> user \<Rightarrow> comm_call list \<times> user" where
  "receiveUsername name u =
     (if length name < 3 \<or> length name > 16
      then (addMessage (bytes_of ''Username must be between 3 and 16 characters. Please enter a valid username: '') u, u)
      else let u1 = u\<lparr>us_username := name, us_state := LoggedIn, us_inbound_handler := Handle_commands\<rparr> in
        (addMessage (bytes_of ''Welcome, '' @ name @ bytes_of ''!'' @ [10]) u1 @
         addMessage (bytes_of ''You are now logged in. Type your messages to chat with others.'' @ [10]) u1 @
         addMessage (bytes_of ''You can also use slash commands like /help, /quit, etc. to interact with the chatroom.'' @ [10]) u1,
         u1))"

definition receiveExitConfirmation :: "bool \<Rightarrow> byte list \<Rightarrow> user \<Rightarrow> comm_call list \<times> user" where
  "receiveExitConfirmation inline message u =
     (if us_comm_slot u < 0 then ([], u)
      else case us_menu u of
        None \<Rightarrow> ([], u)
      | Some m \<Rightarrow>
          (let m1 = receiveCharInput message m; u1 = u\<lparr>us_menu := Some m1\<rparr>; clear = [13, 27, 91, 74] in
           if mn_selected_index m1 = 0 then
             (case closeComm inline u1 of (calls, u2) \<Rightarrow> (calls @ addMessage clear u2, u2))
           else if mn_selected_index m1 = 1 then
             (let u2 = u1\<lparr>us_menu := None, us_prompt_menu := False, us_inbound_handler := Handle_commands\<rparr>
              in (Call_line_input (us_comm_slot u) True # addMessage clear u2, u2))
           else ([Call_char_input (us_comm_slot u)], u1)))"

definition broadcast :: "users \<Rightarrow> byte list \<Rightarrow> user \<Rightarrow> comm_call list" where
  "broadcast us message u =
     concat (map (\<lambda>x. case x of
                        None \<Rightarrow> []
                      | Some v \<Rightarrow>
                          if us_state v = LoggedIn \<and> us_comm_slot v \<noteq> us_comm_slot u
                          then [Call_add_message (us_comm_slot v)
                                  (us_username u @ bytes_of '' says: '' @ message @ [13, 10])]
                          else []) us)"

definition dispatchInboundMessage :: "bool \<Rightarrow> users \<Rightarrow> byte list \<Rightarrow> user \<Rightarrow> comm_call list \<times> user" where
  "dispatchInboundMessage inline us message u =
     (case us_inbound_handler u of
        Handle_username \<Rightarrow> receiveUsername message u
      | Handle_exit_confirmation \<Rightarrow> receiveExitConfirmation inline message u
      | Handle_commands \<Rightarrow>
          if us_comm_slot u < 0 \<or> message = [] then ([], u)
          else if hd message = 47 then
            (case find_and_execute (tl message) u of
               Some r \<Rightarrow> r
             | None \<Rightarrow> (addMessage (bytes_of ''Unknown slash command: '' @ message @ [10]) u, u))
          else (addMessage (bytes_of ''You said: '' @ message @ [10]) u @ broadcast us message u, u))"

section \<open>Hooks\<close>

definition on_connect :: "transport \<Rightarrow> bool \<Rightarrow> byte list \<Rightarrow> int \<times> comm_call list" where
  "on_connect t websocket entry_name =
     (if entry_name \<noteq> bytes_of ''console:tty''
      then (case configure_transport t websocket of (ok, calls) \<Rightarrow> (if ok then 0 else -1, calls))
      else (0, []))"

text \<open>The user of a slot is written back unless the disconnect hook has taken it out.\<close>

definition put_user :: "int \<Rightarrow> user \<Rightarrow> users \<Rightarrow> users" where
  "put_user slot u us = us[nat slot := (if us_comm_slot u < 0 then None else Some u)]"

text \<open>\<^verbatim>\<open>connect\<close> gives no user for a negative slot, and the hook goes through the null pointer: \<open>None\<close>.\<close>

definition on_transport_ready :: "int \<Rightarrow> int \<Rightarrow> users \<Rightarrow> (comm_call list \<times> users) option" where
  "on_transport_ready slot now us =
     (case connect slot now us of
        (None, us1) \<Rightarrow> None
      | (Some u, us1) \<Rightarrow>
          (case logon u of
             (calls, u1) \<Rightarrow>
               Some ([Call_virtual_terminal slot, Call_enable_prompt slot True, Call_line_input slot True] @ calls,
                     put_user slot u1 us1)))"

definition on_message_inbound :: "bool \<Rightarrow> int \<Rightarrow> byte list \<Rightarrow> int \<Rightarrow> users \<Rightarrow> comm_call list \<times> users" where
  "on_message_inbound inline slot message now us =
     (case find_user slot us of
        None \<Rightarrow> ([], us)
      | Some u \<Rightarrow>
          (let u1 = u\<lparr>us_idle_time := now\<rparr>; us1 = us[nat slot := Some u1] in
           case dispatchInboundMessage inline us1 message u1 of (calls, u2) \<Rightarrow> (calls, put_user slot u2 us1)))"

text \<open>The clearing sequence has four characters; the five bytes written include the zero that ends the literal.\<close>

definition on_message_outbound :: "int \<Rightarrow> byte list \<Rightarrow> users \<Rightarrow> comm_call list" where
  "on_message_outbound to_slot data us =
     (case find_user to_slot us of
        Some u \<Rightarrow> if us_menu u \<noteq> None then [Call_buffered_write to_slot [13, 27, 91, 74, 0]] else []
      | None \<Rightarrow> []) @ [Call_buffered_write to_slot data]"

definition IDLE_TIMEOUT :: int where "IDLE_TIMEOUT = 180"

fun collect_idle :: "(int \<Rightarrow> bool) \<Rightarrow> int \<Rightarrow> nat list \<Rightarrow> users \<Rightarrow> comm_call list \<times> users" where
  "collect_idle inline now [] us = ([], us)"
| "collect_idle inline now (i # is) us =
     (case us ! i of
        Some u \<Rightarrow>
          if isIdleFor IDLE_TIMEOUT now u then
            (case closeComm (inline (int i)) u of
               (calls, u1) \<Rightarrow> (case collect_idle inline now is (put_user (int i) u1 us) of (calls', us') \<Rightarrow> (calls @ calls', us')))
          else collect_idle inline now is us
      | None \<Rightarrow> collect_idle inline now is us)"

definition on_garbage_collection :: "(int \<Rightarrow> bool) \<Rightarrow> int \<Rightarrow> users \<Rightarrow> comm_call list \<times> users" where
  "on_garbage_collection inline now us = collect_idle inline now [0..<length us] us"

definition on_prompt :: "int \<Rightarrow> users \<Rightarrow> comm_call list" where
  "on_prompt slot us = (case find_user slot us of None \<Rightarrow> [] | Some u \<Rightarrow> prompt u)"

definition on_disconnect :: "int \<Rightarrow> users \<Rightarrow> comm_call list \<times> users" where
  "on_disconnect slot us =
     (case take_user slot us of
        (None, us1) \<Rightarrow> ([], us1)
      | (Some u, us1) \<Rightarrow> (fst (disconnect u), us1))"

section \<open>Well-formed registries\<close>

definition menu_ok :: "menu \<Rightarrow> bool" where
  "menu_ok m \<longleftrightarrow> -1 \<le> mn_selected_index m \<and> mn_selected_index m < int (length (mn_options m)) \<and>
     0 \<le> mn_cursor_position m \<and> mn_cursor_position m < int (length (mn_options m))"

text \<open>A registered user has its slot, is asked for a name or has a valid one, and is in a menu exactly with its handler.\<close>

definition user_ok :: "nat \<Rightarrow> user \<Rightarrow> bool" where
  "user_ok i u \<longleftrightarrow> us_comm_slot u = int i \<and>
     (us_state u = PreLogin \<and> us_inbound_handler u = Handle_username \<or>
      us_state u = LoggedIn \<and> us_inbound_handler u \<noteq> Handle_username \<and>
        3 \<le> length (us_username u) \<and> length (us_username u) \<le> 16) \<and>
     (us_inbound_handler u = Handle_exit_confirmation \<longleftrightarrow> us_menu u \<noteq> None) \<and>
     (us_prompt_menu u \<longleftrightarrow> us_menu u \<noteq> None) \<and>
     (\<forall>m. us_menu u = Some m \<longrightarrow> menu_ok m)"

definition users_ok :: "users \<Rightarrow> bool" where
  "users_ok us \<longleftrightarrow> (\<forall>i < length us. \<forall>u. us ! i = Some u \<longrightarrow> user_ok i u)"

lemma char_input_menu_ok: "menu_ok m \<Longrightarrow> menu_ok (receiveCharInput message m)"
  by (auto simp: menu_ok_def receiveCharInput_def find_Some_iff split: option.splits)

lemma users_ok_update:
  assumes "users_ok us" "\<And>u. x = Some u \<Longrightarrow> user_ok i u"
  shows "users_ok (us[i := x])"
proof (cases "i < length us")
  case True
  then show ?thesis using assms by (auto simp: users_ok_def nth_list_update)
next
  case False
  then show ?thesis using assms(1) by (simp add: list_update_beyond)
qed

lemma put_user_ok:
  "users_ok us \<Longrightarrow> us_comm_slot u < 0 \<or> user_ok (nat slot) u \<Longrightarrow> users_ok (put_user slot u us)"
  unfolding put_user_def by (rule users_ok_update) (auto split: if_splits)

lemma users_ok_grow: "users_ok us \<Longrightarrow> users_ok (us @ replicate n None)"
  by (auto simp: users_ok_def nth_append)

lemma ready_ok:
  assumes "users_ok us"
  shows "\<exists>calls us'. on_transport_ready (int slot) now us = Some (calls, us') \<and> users_ok us'"
proof -
  let ?u = "(new_user (int slot) now)\<lparr>us_state := PreLogin, us_inbound_handler := Handle_username\<rparr>"
  have u: "users_ok (v[slot := Some ?u])" if "users_ok v" for v
    using that by (rule users_ok_update) (auto simp: user_ok_def new_user_def)
  show ?thesis
    using u [OF assms] u [OF users_ok_grow [OF assms]]
    by (cases "length us \<le> slot")
      (simp_all add: on_transport_ready_def connect_def Let_def logon_def put_user_def new_user_def)
qed

text \<open>A message keeps its user well formed, or the user has left.\<close>

lemma dispatch_user_ok:
  assumes "user_ok i u" "dispatchInboundMessage inline us message u = (calls, u')"
  shows "us_comm_slot u' < 0 \<or> user_ok i u'"
proof (cases "us_inbound_handler u")
  case Handle_commands
  then show ?thesis
    using assms by (auto simp: dispatchInboundMessage_def find_and_execute_def command_quit_def doMenu_def new_menu_def
        Let_def user_ok_def menu_ok_def split: if_splits)
next
  case Handle_username
  then show ?thesis
    using assms by (auto simp: dispatchInboundMessage_def receiveUsername_def Let_def user_ok_def split: if_splits)
next
  case Handle_exit_confirmation
  then obtain m where m: "us_menu u = Some m" "menu_ok m" using assms(1) by (auto simp: user_ok_def)
  have "menu_ok (receiveCharInput message m)" using char_input_menu_ok [OF m(2)] .
  then show ?thesis
    using assms Handle_exit_confirmation m
    by (auto simp: dispatchInboundMessage_def receiveExitConfirmation_def closeComm_def disconnect_def Let_def user_ok_def
        split: if_splits)
qed

lemma inbound_ok: "users_ok us \<Longrightarrow> users_ok (snd (on_message_inbound inline slot message now us))"
proof (cases "find_user slot us")
  case (Some u)
  assume ok: "users_ok us"
  have s: "0 \<le> slot" "nat slot < length us" "us ! nat slot = Some u"
    using Some by (auto simp: find_user_def split: if_splits)
  let ?u = "u\<lparr>us_idle_time := now\<rparr>"
  have u: "user_ok (nat slot) ?u" using ok s by (auto simp: users_ok_def user_ok_def)
  then have "users_ok (us[nat slot := Some ?u])" by (intro users_ok_update [OF ok]) simp
  then show ?thesis
    using Some dispatch_user_ok [OF u] by (fastforce simp: on_message_inbound_def Let_def intro!: put_user_ok split: prod.split)
qed (simp add: on_message_inbound_def)

lemma collect_ok: "users_ok us \<Longrightarrow> set is \<subseteq> {0..<length us} \<Longrightarrow> users_ok (snd (collect_idle inline now is us))"
proof (induction inline now "is" us rule: collect_idle.induct)
  case (2 inline now i "is" us)
  show ?case
  proof (cases "us ! i")
    case (Some u)
    obtain calls u1 where c: "closeComm (inline (int i)) u = (calls, u1)" by fastforce
    have "i < length us" using 2 by auto
    then have "user_ok i u" using 2 Some by (simp add: users_ok_def)
    then have "us_comm_slot u1 < 0 \<or> user_ok i u1"
      using c by (auto simp: closeComm_def disconnect_def split: if_splits)
    then have "users_ok (put_user (int i) u1 us)" using put_user_ok [of us u1 "int i"] 2 by simp
    moreover have "length (put_user (int i) u1 us) = length us" by (simp add: put_user_def)
    ultimately have "users_ok (snd (collect_idle inline now is (put_user (int i) u1 us)))" if "isIdleFor IDLE_TIMEOUT now u"
      using 2(2) [OF Some that c [symmetric]] 2(5-) by simp
    then show ?thesis using 2(3-) Some c by (auto split: prod.split)
  qed (use 2 in auto)
qed simp

lemma disconnect_ok: "users_ok us \<Longrightarrow> users_ok (snd (on_disconnect slot us))"
  by (auto simp: on_disconnect_def take_user_def intro!: users_ok_update split: option.splits if_splits)

section \<open>Runs\<close>

datatype chat_hook =
  Ready nat int | Inbound bool int "byte list" int | Outbound int "byte list" | Collect "int \<Rightarrow> bool" int |
  Prompt int | Gone int

definition chat_step :: "users \<Rightarrow> chat_hook \<Rightarrow> comm_call list \<times> users" where
  "chat_step us h =
     (case h of
        Ready slot now \<Rightarrow> the (on_transport_ready (int slot) now us)
      | Inbound inline slot message now \<Rightarrow> on_message_inbound inline slot message now us
      | Outbound slot data \<Rightarrow> (on_message_outbound slot data us, us)
      | Collect inline now \<Rightarrow> on_garbage_collection inline now us
      | Prompt slot \<Rightarrow> (on_prompt slot us, us)
      | Gone slot \<Rightarrow> on_disconnect slot us)"

lemma chat_step_ok: "users_ok us \<Longrightarrow> users_ok (snd (chat_step us h))"
  using ready_ok inbound_ok collect_ok disconnect_ok
  by (cases h) (auto simp: chat_step_def on_garbage_collection_def, metis option.sel snd_conv)

lemma chat_run_ok: "users_ok us \<Longrightarrow> users_ok (snd (run_ops chat_step us hs))"
  by (induction hs arbitrary: us) (auto simp: split_beta intro: chat_step_ok)

lemma broadcast_targets:
  assumes "users_ok us" "us_comm_slot u = int i"
  shows "broadcast us message u =
    map (\<lambda>j. Call_add_message (int j) (us_username u @ bytes_of '' says: '' @ message @ [13, 10]))
      (filter (\<lambda>j. j \<noteq> i \<and> (\<exists>v. us ! j = Some v \<and> us_state v = LoggedIn)) [0..<length us])"
proof -
  have c: "concat (map f [0..<n]) = map g (filter P [0..<n])"
    if "\<And>j. j < n \<Longrightarrow> f j = (if P j then [g j] else [])" for f :: "nat \<Rightarrow> comm_call list" and g P n
    using that by (induction n) auto
  define f where "f = (\<lambda>x :: user option. case x of
      None \<Rightarrow> []
    | Some v \<Rightarrow>
        if us_state v = LoggedIn \<and> us_comm_slot v \<noteq> us_comm_slot u
        then [Call_add_message (us_comm_slot v) (us_username u @ bytes_of '' says: '' @ message @ [13, 10])] else [])"
  have "broadcast us message u = concat (map f us)" by (simp add: broadcast_def f_def)
  also have "map f us = map (\<lambda>j. f (us ! j)) [0..<length us]" by (rule nth_equalityI) simp_all
  also have "concat \<dots> = map (\<lambda>j. Call_add_message (int j) (us_username u @ bytes_of '' says: '' @ message @ [13, 10]))
      (filter (\<lambda>j. j \<noteq> i \<and> (\<exists>v. us ! j = Some v \<and> us_state v = LoggedIn)) [0..<length us])"
    using assms by (intro c) (auto simp: f_def users_ok_def user_ok_def split: option.split)
  finally show ?thesis .
qed

text \<open>
  C40. Chat reaches exactly those who have logged in. After any sequence of hook invocations, when a user who has logged
  in and is not in a menu sends a line that is not a command, the speaker gets an echo and then every other user who has
  logged in, and nobody else, gets the line once under the speaker's name, in the order of the slots; the name is
  between 3 and 16 characters long.
\<close>

theorem chat_reaches_logged_in_users:
  assumes "snd (run_ops chat_step [] hooks) = us" and "i < length us" and "us ! i = Some u"
    and "us_state u = LoggedIn" and "us_inbound_handler u = Handle_commands"
    and "message \<noteq> []" and "hd message \<noteq> 47"
  shows "fst (chat_step us (Inbound inline (int i) message now)) =
      Call_add_message (int i) (bytes_of ''You said: '' @ message @ [10]) #
      map (\<lambda>j. Call_add_message (int j) (us_username u @ bytes_of '' says: '' @ message @ [13, 10]))
        (filter (\<lambda>j. j \<noteq> i \<and> (\<exists>v. us ! j = Some v \<and> us_state v = LoggedIn)) [0..<length us]) \<and>
    3 \<le> length (us_username u) \<and> length (us_username u) \<le> 16"
proof -
  have ok: "users_ok us" using chat_run_ok [of "[]" hooks] assms(1) by (simp add: users_ok_def)
  then have u: "user_ok i u" using assms(2,3) by (simp add: users_ok_def)
  let ?u = "u\<lparr>us_idle_time := now\<rparr>"
  let ?us = "us[i := Some ?u]"
  have "user_ok i ?u" using u by (simp add: user_ok_def)
  then have ok': "users_ok ?us" by (intro users_ok_update [OF ok]) simp
  have f: "filter (\<lambda>j. j \<noteq> i \<and> (\<exists>v. ?us ! j = Some v \<and> us_state v = LoggedIn)) [0..<length ?us] =
      filter (\<lambda>j. j \<noteq> i \<and> (\<exists>v. us ! j = Some v \<and> us_state v = LoggedIn)) [0..<length us]"
    by (intro filter_cong) auto
  have s: "us_comm_slot ?u = int i" using u by (simp add: user_ok_def)
  have "find_user (int i) us = Some u" using assms(2,3) by (simp add: find_user_def)
  then show ?thesis
    using u assms broadcast_targets [OF ok' s, of message] s unfolding f
    by (auto simp: chat_step_def on_message_inbound_def Let_def dispatchInboundMessage_def addMessage_def user_ok_def)
qed

theorem chat_reaches_logged_in_users_witness:
  "fst (chat_step (snd (run_ops chat_step []
       [Ready 1 0, Ready 2 0, Ready 3 1, Inbound False 1 [97, 110, 110] 2, Inbound False 2 [98, 111, 98] 3]))
     (Inbound False 1 [104, 105] 4)) =
   [Call_add_message 1 (bytes_of ''You said: '' @ [104, 105, 10]),
    Call_add_message 2 ([97, 110, 110] @ bytes_of '' says: '' @ [104, 105, 13, 10])]"
proof -
  let ?hooks = "[Ready 1 0, Ready 2 0, Ready 3 1, Inbound False 1 [97, 110, 110] 2, Inbound False 2 [98, 111, 98] 3]"
  let ?u = "(new_user 1 2)\<lparr>us_username := [97, 110, 110], us_state := LoggedIn\<rparr>"
  let ?v = "(new_user 2 3)\<lparr>us_username := [98, 111, 98], us_state := LoggedIn\<rparr>"
  let ?w = "(new_user 3 1)\<lparr>us_state := PreLogin, us_inbound_handler := Handle_username\<rparr>"
  let ?us = "[None, Some ?u, Some ?v, Some ?w] @ replicate 29 None"
  have r: "snd (run_ops chat_step [] ?hooks) = ?us"
    by (simp add: chat_step_def on_transport_ready_def connect_def logon_def put_user_def on_message_inbound_def find_user_def
        dispatchInboundMessage_def receiveUsername_def new_user_def numeral_eq_Suc Let_def)
  have h: "us_state ?u = LoggedIn" "us_inbound_handler ?u = Handle_commands" by (simp_all add: new_user_def)
  have f: "filter (\<lambda>j. j \<noteq> 1 \<and> (\<exists>v. ?us ! j = Some v \<and> us_state v = LoggedIn)) [0..<length ?us] = [2]"
    by (simp add: numeral_eq_Suc new_user_def)
  show ?thesis
    using chat_reaches_logged_in_users [OF r _ _ h, of 1 "[104, 105]" False 4] unfolding r f by (simp add: new_user_def)
qed

end
