(* ===== verification/Spec2Isabelle.thy ===== *)
theory Spec2Isabelle
  imports Async_Queue Thread_Pool Slot_Table Telnet_Parser Websocket_Frame Outbound
    Websocket_Inbound Websocket_Handshake Hooks Slot_Lane Lane_Safety Event_Lane Detached_Work Dispatch Telnet_Control Inbound_Chain Connection Inbound Inbound_Lines Connection_Close
    Inbound_Refill Inbound_Typing Async_Event Async_Runtime Runtime_Registry Registered_Events Transport Console_Worker
    File_Input Console_Input Event_Loop Mudmux_Init Chatroom
begin

text \<open>
  \<^bold>\<open>mudmux\<close> is a C++ library that multiplexes the connections of a text server: it accepts TCP, Unix-socket, console and
  file connections, speaks TLS, Telnet and WebSocket on them, cuts their input into messages, and calls the
  application through hooks, either inside the event loop or on a pool of workers. This development models the POSIX
  build of the library (\<^verbatim>\<open>lib/async\<close>, \<^verbatim>\<open>lib/comm\<close>, \<^verbatim>\<open>src\<close>) and the chat room under \<^verbatim>\<open>examples/chatroom\<close>. Paths are relative to
  the source tree.

  \<^bold>\<open>How the parts interact.\<close> \<^verbatim>\<open>mudmux_init\<close> reads the configuration; \<^verbatim>\<open>mudmux_run\<close> opens the listeners and the input of the
  console or a file, and then waits for events of the async runtime. A readable slot is read into its inbound
  buffer through the decoders of its transport; complete messages become hook executions, which the scheduler runs
  inline (strict mode) or queues in the lane of the slot (relaxed mode). Output is appended to a chain of buffers
  and flushed when the transport takes it. Closing waits for buffered output and for the WebSocket and TLS
  closing handshakes before the slot is removed and its resources are released. Application events and the timer
  reach the loop through pollable events.

  \<^bold>\<open>Conventions.\<close> A struct is a record with its fields prefixed, a flag word is a 32-bit word, a linked chain of buffers
  is a list, a slot pointer is looked up in the table each time the code does so. What the operating system,
  OpenSSL, the YAML reader and the application do is a record of functions that the operations take as an argument
  (\<open>services\<close>, \<open>listener_services\<close>, \<open>input_services\<close>, \<open>loop_services\<close>, \<open>init_services\<close>); the hypotheses on them are named
  predicates (\<open>transport_ok\<close>, \<open>line_hook_ok\<close>, \<open>dispatch_quiet\<close>, \<open>typed_services\<close>, \<open>typed_loop\<close>), each with a concrete instance
  in a witness. An operation on the whole state has type option: \<open>None\<close> is an access through a null slot pointer, an
  exception, or fuel that ran out. Threads are program counters, and each critical section of the code is one step.

  \<^bold>\<open>Foundations.\<close>
  \<^item> \<^verbatim>\<open>Mudmux_Prelude\<close>: machine types, flag words, reachability, and three interfaces: \<open>inductive_invariant\<close> (invariants of
    transition systems), \<open>functional_refinement\<close> (a component against its abstract machine, over all call sequences) and
    \<open>stream_decoder\<close> (decoders whose result does not depend on how a stream is cut).
  \<^item> \<^verbatim>\<open>Comm_Types\<close>: the flags of \<^verbatim>\<open>comm.h\<close>, the buffers, the slot record \<open>comm_abstract\<close>.

  \<^bold>\<open>The async library\<close> (\<^verbatim>\<open>lib/async\<close>).
  \<^item> \<^verbatim>\<open>Async_Queue\<close> (\<^verbatim>\<open>async_queue.cpp\<close>): the circular buffer refines a bounded FIFO (interpretation \<open>queue_fifo\<close>), and serves its
    readers as a \<open>message_source\<close>; statistics add up.
  \<^item> \<^verbatim>\<open>Thread_Pool\<close> (\<^verbatim>\<open>thread_pool.cpp\<close>): every accepted task is started once and in order, and stop returns on every schedule.
  \<^item> \<^verbatim>\<open>Async_Event\<close> (\<^verbatim>\<open>async_event.cpp\<close>): counter and flag refine a plain event.
  \<^item> \<^verbatim>\<open>Async_Runtime\<close>, \<^verbatim>\<open>Runtime_Registry\<close> (\<^verbatim>\<open>async_runtime_epoll.cpp\<close>, \<^verbatim>\<open>async_runtime_poll.cpp\<close>): creation, registration, waiting,
    completions. The contract \<open>fd_registry\<close> has both runtimes as instances, so they agree on every call sequence; the
    completion channels do not, which is recorded as lemmas.
  \<^item> \<^verbatim>\<open>Console_Worker\<close> (\<^verbatim>\<open>console_worker.cpp\<close>): the reader thread, one step per system call; it stops within five steps.

  \<^bold>\<open>The communication library\<close> (\<^verbatim>\<open>lib/comm\<close>).
  \<^item> \<^verbatim>\<open>Slot_Table\<close> (\<^verbatim>\<open>abstract.cpp\<close>): assignment, removal and release of each resource once, generations that expose stale slot
    numbers.
  \<^item> \<^verbatim>\<open>Telnet_Parser\<close>, \<^verbatim>\<open>Telnet_Control\<close> (\<^verbatim>\<open>telnet.cpp\<close>, \<^verbatim>\<open>input_mode.cpp\<close>): the decoder as a stream decoder, subnegotiation round
    trip, the option sets; offers and input modes.
  \<^item> \<^verbatim>\<open>Websocket_Frame\<close>, \<^verbatim>\<open>Websocket_Inbound\<close>, \<^verbatim>\<open>Websocket_Handshake\<close> (\<^verbatim>\<open>websocket.cpp\<close>): frame round trips, UTF-8 validation
    against the definition of the encoding, reassembly of fragments, the upgrade request.
  \<^item> \<^verbatim>\<open>Outbound\<close> (\<^verbatim>\<open>outbound.cpp\<close>): appending, newline normalisation, flushing without loss or reordering.
  \<^item> \<^verbatim>\<open>Inbound_Chain\<close>, \<^verbatim>\<open>Inbound\<close>, \<^verbatim>\<open>Inbound_Lines\<close>, \<^verbatim>\<open>Inbound_Refill\<close>, \<^verbatim>\<open>Inbound_Typing\<close> (\<^verbatim>\<open>inbound.cpp\<close>): the buffer holds the decoded
    stream, line mode delivers its lines, character mode one character, and every operation keeps the buffers
    well typed.
  \<^item> \<^verbatim>\<open>Connection\<close>, \<^verbatim>\<open>Connection_Close\<close> (\<^verbatim>\<open>inbound.cpp\<close>, \<^verbatim>\<open>outbound.cpp\<close>, \<^verbatim>\<open>ssl.cpp\<close>): connect, TLS handshake, flush and close; a
    graceful close removes the slot exactly when nothing is left to send.
  \<^item> \<^verbatim>\<open>Transport\<close> (\<^verbatim>\<open>accept.cpp\<close>, \<^verbatim>\<open>ssl.cpp\<close>), \<^verbatim>\<open>Console_Input\<close> (\<^verbatim>\<open>console.cpp\<close>, \<^verbatim>\<open>file_input.cpp\<close>), \<^verbatim>\<open>File_Input\<close> (the reader thread
    of \<^verbatim>\<open>file_input.cpp\<close> and its two mutexes, with the exact set of states in which it is stuck).

  \<^bold>\<open>Execution and the event loop\<close> (\<^verbatim>\<open>src\<close>).
  \<^item> \<^verbatim>\<open>Hooks\<close> (\<^verbatim>\<open>hooks.cpp\<close>, \<^verbatim>\<open>async.h\<close>): the hook table, one-shot closures.
  \<^item> \<^verbatim>\<open>Slot_Lane\<close>, \<^verbatim>\<open>Lane_Safety\<close>, \<^verbatim>\<open>Event_Lane\<close>, \<^verbatim>\<open>Detached_Work\<close>, \<^verbatim>\<open>Dispatch\<close> (\<^verbatim>\<open>execution.cpp\<close>): under every interleaving at
    most one hook of a slot runs, its tasks run in order, backlogs are bounded, events are serialised and their
    admission count is exact, completions of detached work are delivered; the contract of dispatch in both modes.
  \<^item> \<^verbatim>\<open>Registered_Events\<close>, \<^verbatim>\<open>Event_Loop\<close>, \<^verbatim>\<open>Mudmux_Init\<close> (\<^verbatim>\<open>mudmux.cpp\<close>): no timer flag is lost between producers and the loop,
    the loop keeps the types of the whole state, and initialisation happens completely or not at all.
  \<^item> \<^verbatim>\<open>Chatroom\<close> (\<^verbatim>\<open>examples/chatroom\<close>): a client of the library; chat reaches exactly the users who have logged in.

  \<^bold>\<open>Bounds.\<close> The refill loop gets fuel from the number of bytes and buffers, and each pass consumes one of them.
  Flushing needs as much fuel as there are bytes and buffers, because a write takes at least one byte. The
  line loop needs more fuel than there are unread bytes, because every line ends in a terminator. These are proved
  as totality statements. The event loop and the wait for pending disconnect hooks may run forever by design; their
  fuel is a parameter, and what is shown of them holds at every number of iterations.

  \<^bold>\<open>Not modelled.\<close> The Windows halves (\<^verbatim>\<open>async_runtime_iocp.cpp\<close>, \<^verbatim>\<open>dllmain.cpp\<close>, the Windows branches of events, console
  and input modes), which are sequences of calls of the Windows API. The destructors of the queue, the console
  worker and the pollable event, which free memory and close descriptors. The tables of function pointers in \<^verbatim>\<open>mudmux.cpp\<close> beyond their state
  (null, filled, zeroed), logging, and the command line of the chat room. The kernel, OpenSSL, SHA-1, Base64,
  the locale functions and the YAML reader are arguments. The lock of the slot table is not modelled in the operations
  themselves, which are atomic; where the order of locks matters (\<^verbatim>\<open>file_input.cpp\<close>) the threads are modelled with
  their mutexes.
\<close>

end
